(* ===== verification/Prelude.thy ===== *)
theory Prelude
  imports Main "HOL-Library.Word" "HOL-Library.Char_ord" "HOL-Library.List_Lexorder"
    "HOL-Library.Sublist"
begin

text \<open>
  Shared vocabulary of the development.

  \<^item> Fallible Rust code: a \<^verbatim>\<open>Result<T, E>\<close> is \<open>'e + 'a\<close>, with \<open>Inl\<close> the error.
    \<open>and_then\<close> is the \<^verbatim>\<open>?\<close> operator, \<open>ensure\<close> an early return on a failed
    guard, \<open>ok_or\<close> the conversion of an option, \<open>traverse\<close> a collect into a result and
    \<open>fold_result\<close> a loop that stops at the first error.
  \<^item> Fixed-width unsigned integers are words; \<^verbatim>\<open>checked_add\<close>,
    \<^verbatim>\<open>saturating_add\<close> and \<^verbatim>\<open>saturating_sub\<close> keep the width of the source.
  \<^item> Rust strings are byte lists (\<open>string\<close>) holding UTF-8; \<open>trim\<close> removes the
    encodings of the Unicode \<^verbatim>\<open>White_Space\<close> characters at both ends.
  \<^item> The locale \<open>reducer\<close> is the contract of the journalled components: a step function
    over events that either rejects the event or returns the next state and keeps an invariant.
\<close>

named_theorems result_iffs
  \<open>when a fallible computation succeeds or fails\<close>
named_theorems width_simps
  \<open>the fixed-width operations read as natural numbers\<close>

section \<open>Results\<close>

type_synonym u8 = "8 word"
type_synonym u16 = "16 word"
type_synonym u32 = "32 word"
type_synonym u64 = "64 word"
type_synonym usize = "64 word"

definition and_then :: "'e + 'a \<Rightarrow> ('a \<Rightarrow> 'e + 'b) \<Rightarrow> 'e + 'b" where
  "and_then r f = (case r of Inl e \<Rightarrow> Inl e | Inr x \<Rightarrow> f x)"

definition ensure :: "bool \<Rightarrow> 'e \<Rightarrow> 'e + unit" where
  "ensure b e = (if b then Inr () else Inl e)"

definition ok_or :: "'a option \<Rightarrow> 'e \<Rightarrow> 'e + 'a" where
  "ok_or x e = (case x of None \<Rightarrow> Inl e | Some v \<Rightarrow> Inr v)"

fun traverse :: "('a \<Rightarrow> 'e + 'b) \<Rightarrow> 'a list \<Rightarrow> 'e + 'b list" where
  "traverse f [] = Inr []"
| "traverse f (x # xs) = and_then (f x) (\<lambda>y. and_then (traverse f xs) (\<lambda>ys. Inr (y # ys)))"

fun fold_result :: "('a \<Rightarrow> 's \<Rightarrow> 'e + 's) \<Rightarrow> 'a list \<Rightarrow> 's \<Rightarrow> 'e + 's" where
  "fold_result f [] s = Inr s"
| "fold_result f (x # xs) s = and_then (f x s) (fold_result f xs)"

lemma and_then_simps [simp]:
  "and_then (Inl e) f = Inl e" "and_then (Inr x) f = f x"
  by (simp_all add: and_then_def)

lemma ensure_simps [simp]:
  "ensure True e = Inr ()" "ensure False e = Inl e"
  by (simp_all add: ensure_def)

lemma ok_or_simps [simp]:
  "ok_or None e = Inl e" "ok_or (Some v) e = Inr v"
  by (simp_all add: ok_or_def)

lemma and_then_Inr_iff [result_iffs]:
  "and_then r f = Inr y \<longleftrightarrow> (\<exists>x. r = Inr x \<and> f x = Inr y)"
  by (cases r) simp_all

lemma and_then_Inl_iff:
  "and_then r f = Inl e \<longleftrightarrow> r = Inl e \<or> (\<exists>x. r = Inr x \<and> f x = Inl e)"
  by (cases r) simp_all

lemma ensure_Inr_iff [result_iffs]: "ensure b e = Inr u \<longleftrightarrow> b"
  by (simp add: ensure_def)

lemma ensure_Inl_iff: "ensure b e = Inl e' \<longleftrightarrow> \<not> b \<and> e' = e"
  by (auto simp: ensure_def)

lemma ok_or_Inr_iff [result_iffs]: "ok_or x e = Inr v \<longleftrightarrow> x = Some v"
  by (cases x) simp_all

lemma ok_or_Inl_iff: "ok_or x e = Inl e' \<longleftrightarrow> x = None \<and> e' = e"
  by (cases x) auto

lemma ensure_and_then:
  "and_then (ensure b e) f = (if b then f () else Inl e)"
  by (simp add: ensure_def)

lemma and_then_cong [fundef_cong]:
  "r = r' \<Longrightarrow> (\<And>x. r' = Inr x \<Longrightarrow> f x = g x) \<Longrightarrow> and_then r f = and_then r' g"
  by (cases r') auto

lemma and_then_assoc:
  "and_then (and_then r f) g = and_then r (\<lambda>x. and_then (f x) g)"
  by (cases r) simp_all

lemma fold_result_append:
  "fold_result f (xs @ ys) s = and_then (fold_result f xs s) (fold_result f ys)"
proof (induction xs arbitrary: s)
  case Nil
  then show ?case by simp
next
  case (Cons x xs)
  then show ?case by (cases "f x s") simp_all
qed

lemma fold_result_invariant:
  assumes "fold_result f xs s = Inr t" and "P s"
    and "\<And>x u v. x \<in> set xs \<Longrightarrow> P u \<Longrightarrow> f x u = Inr v \<Longrightarrow> P v"
  shows "P t"
  using assms
proof (induction xs arbitrary: s)
  case Nil
  then show ?case by simp
next
  case (Cons x xs)
  from Cons.prems(1) obtain u where "f x s = Inr u" and "fold_result f xs u = Inr t"
    by (auto simp: result_iffs)
  with Cons show ?case by (metis list.set_intros)
qed

lemma traverse_Inr_iff:
  "traverse f xs = Inr ys \<longleftrightarrow> list_all2 (\<lambda>x y. f x = Inr y) xs ys"
proof (induction xs arbitrary: ys)
  case Nil
  then show ?case by auto
next
  case (Cons x xs)
  show ?case by (cases ys) (auto simp: result_iffs Cons.IH)
qed

lemma traverse_resultE:
  assumes "traverse f xs = Inr ys" and "y \<in> set ys"
  obtains x where "x \<in> set xs" and "f x = Inr y"
proof -
  have "\<exists>x \<in> set xs. f x = Inr y"
    using assms by (induction xs arbitrary: ys) (auto simp: result_iffs)
  with that show ?thesis by blast
qed

lemma traverse_argE:
  assumes "traverse f xs = Inr ys" and "x \<in> set xs"
  obtains y where "y \<in> set ys" and "f x = Inr y"
proof -
  have "\<exists>y \<in> set ys. f x = Inr y"
    using assms by (induction xs arbitrary: ys) (force simp: result_iffs)+
  with that show ?thesis by blast
qed

lemma traverse_idem:
  "(\<And>x. x \<in> set xs \<Longrightarrow> f x = Inr x) \<Longrightarrow> traverse f xs = Inr xs"
  by (induction xs) simp_all

lemma find_SomeD: "List.find P xs = Some x \<Longrightarrow> x \<in> set xs \<and> P x"
  by (auto simp: find_Some_iff)

lemma find_NoneD: "List.find P xs = None \<Longrightarrow> x \<in> set xs \<Longrightarrow> \<not> P x"
  by (auto simp: find_None_iff)

section \<open>Fixed-width arithmetic\<close>

definition checked_add :: "'a::len word \<Rightarrow> 'a word \<Rightarrow> 'a word option" where
  "checked_add a b = (if unat a + unat b < 2 ^ LENGTH('a) then Some (a + b) else None)"

definition saturating_add :: "'a::len word \<Rightarrow> 'a word \<Rightarrow> 'a word" where
  "saturating_add a b = (case checked_add a b of None \<Rightarrow> - 1 | Some c \<Rightarrow> c)"

definition saturating_sub :: "'a::len word \<Rightarrow> 'a word \<Rightarrow> 'a word" where
  "saturating_sub a b = (if b \<le> a then a - b else 0)"

lemma unat_less_exp: "unat c < 2 ^ LENGTH('a)" for c :: "'a::len word"
  by (fact unsigned_less)

lemma checked_add_Some_iff [width_simps]:
  "checked_add a b = Some c \<longleftrightarrow> unat c = unat a + unat b"
proof
  assume "checked_add a b = Some c"
  then show "unat c = unat a + unat b"
    by (auto simp: checked_add_def unat_word_ariths split: if_splits)
next
  assume *: "unat c = unat a + unat b"
  then have "unat a + unat b < 2 ^ LENGTH('a)"
    using unat_less_exp [of c] by simp
  moreover from this * have "unat (a + b) = unat c"
    by (simp add: unat_word_ariths)
  ultimately show "checked_add a b = Some c"
    by (simp add: checked_add_def word_unat_eq_iff)
qed

lemma checked_add_code [code]:
  "checked_add a b = (let c = a + b in if c < a then None else Some c)" for a b :: "'a::len word"
proof -
  have "a + b < a \<longleftrightarrow> \<not> unat a + unat b < 2 ^ LENGTH('a)"
  proof (cases "unat a + unat b < 2 ^ LENGTH('a)")
    case True
    then show ?thesis by (simp add: word_less_nat_alt unat_word_ariths)
  next
    case False
    have "unat a < 2 ^ LENGTH('a)" "unat b < 2 ^ LENGTH('a)" by (rule unat_less_exp)+
    then have "unat a + unat b - 2 ^ LENGTH('a) < 2 ^ LENGTH('a)" by linarith
    with False have "(unat a + unat b) mod 2 ^ LENGTH('a) = unat a + unat b - 2 ^ LENGTH('a)"
      by (simp only: le_mod_geq not_less mod_less)
    moreover have "unat a + unat b - 2 ^ LENGTH('a) < unat a"
      using False \<open>unat a < 2 ^ LENGTH('a)\<close> \<open>unat b < 2 ^ LENGTH('a)\<close> by linarith
    ultimately show ?thesis using False by (simp add: word_less_nat_alt unat_word_ariths)
  qed
  then show ?thesis by (simp add: checked_add_def Let_def)
qed

definition checked_mul :: "'a::len word \<Rightarrow> 'a word \<Rightarrow> 'a word option" where
  "checked_mul a b = (if unat a * unat b < 2 ^ LENGTH('a) then Some (a * b) else None)"

lemma checked_mul_Some_iff [width_simps]:
  "checked_mul a b = Some c \<longleftrightarrow> unat c = unat a * unat b"
proof
  assume "checked_mul a b = Some c"
  then show "unat c = unat a * unat b"
    by (auto simp: checked_mul_def unat_word_ariths split: if_splits)
next
  assume *: "unat c = unat a * unat b"
  then have "unat a * unat b < 2 ^ LENGTH('a)"
    using unat_less_exp [of c] by simp
  moreover from this * have "unat (a * b) = unat c"
    by (simp add: unat_word_ariths)
  ultimately show "checked_mul a b = Some c"
    by (simp add: checked_mul_def word_unat_eq_iff)
qed

lemma checked_mul_code [code]:
  "checked_mul a b = (if uint a * uint b < 2 ^ LENGTH('a) then Some (a * b) else None)"
  for a b :: "'a::len word"
proof -
  have "uint a * uint b < 2 ^ LENGTH('a) \<longleftrightarrow> int (unat a * unat b) < int (2 ^ LENGTH('a))"
    by (simp only: of_nat_mult uint_nat of_nat_power of_nat_numeral)
  then show ?thesis by (simp only: checked_mul_def of_nat_less_iff)
qed

lemma checked_add_None_iff:
  "checked_add (a :: 'a::len word) b = None \<longleftrightarrow> 2 ^ LENGTH('a) \<le> unat a + unat b"
  by (simp add: checked_add_def not_less)

lemma unat_minus_one_word [width_simps]: "unat (- 1 :: 'a::len word) = 2 ^ LENGTH('a) - 1"
  by (simp add: unsigned_minus_1_eq_mask mask_eq_exp_minus_1)

lemma unat_saturating_add [width_simps]:
  "unat (saturating_add a b) = min (unat a + unat b) (2 ^ LENGTH('a) - 1)"
  for a b :: "'a::len word"
proof (cases "checked_add a b")
  case None
  then have "saturating_add a b = - 1" by (simp add: saturating_add_def)
  moreover from None have "2 ^ LENGTH('a) - 1 \<le> unat a + unat b"
    by (simp add: checked_add_None_iff)
  ultimately show ?thesis by (simp add: width_simps min_absorb2)
next
  case (Some c)
  then have "saturating_add a b = c" by (simp add: saturating_add_def)
  moreover from Some have "unat c = unat a + unat b" by (simp add: width_simps)
  ultimately show ?thesis using unat_less_exp [of c] by simp
qed

lemma unat_saturating_sub [width_simps]: "unat (saturating_sub a b) = unat a - unat b"
  by (simp add: saturating_sub_def unat_sub word_le_nat_alt)

lemma checked_add_one: "checked_add a 1 = (if a = -1 then None else Some (a + 1))"
  for a :: "'a::len word"
proof -
  have "a = -1 \<longleftrightarrow> unat a = 2 ^ LENGTH('a) - 1"
    by (simp add: word_unat_eq_iff unat_minus_one_word)
  moreover have "unat a + 1 < 2 ^ LENGTH('a) \<longleftrightarrow> unat a \<noteq> 2 ^ LENGTH('a) - 1"
    using unat_less_exp [of a] by linarith
  ultimately show ?thesis by (simp add: checked_add_def)
qed

lemma checked_add_one_Some:
  "checked_add a 1 = Some c \<Longrightarrow> a < c \<and> unat c = Suc (unat a)" for a c :: "'a::len word"
  by (cases "LENGTH('a) = 1") (auto simp: width_simps word_less_nat_alt unat_1)

section \<open>Strings\<close>

definition is_ascii_digit :: "char \<Rightarrow> bool" where
  "is_ascii_digit c \<longleftrightarrow> CHR ''0'' \<le> c \<and> c \<le> CHR ''9''"

definition is_ascii_uppercase :: "char \<Rightarrow> bool" where
  "is_ascii_uppercase c \<longleftrightarrow> CHR ''A'' \<le> c \<and> c \<le> CHR ''Z''"

definition is_ascii_lowercase :: "char \<Rightarrow> bool" where
  "is_ascii_lowercase c \<longleftrightarrow> CHR ''a'' \<le> c \<and> c \<le> CHR ''z''"

definition is_ascii_alphanumeric :: "char \<Rightarrow> bool" where
  "is_ascii_alphanumeric c \<longleftrightarrow>
     is_ascii_digit c \<or> is_ascii_uppercase c \<or> is_ascii_lowercase c"

definition is_ascii_hexdigit :: "char \<Rightarrow> bool" where
  "is_ascii_hexdigit c \<longleftrightarrow> is_ascii_digit c \<or>
     CHR ''A'' \<le> c \<and> c \<le> CHR ''F'' \<or> CHR ''a'' \<le> c \<and> c \<le> CHR ''f''"

lemmas ascii_class_defs =
  is_ascii_digit_def is_ascii_uppercase_def is_ascii_lowercase_def
  is_ascii_alphanumeric_def is_ascii_hexdigit_def

text \<open>
  The characters with the Unicode property \<^verbatim>\<open>White_Space\<close>, as UTF-8 byte sequences.
  UTF-8 is self-synchronising, so on valid strings a byte suffix equal to one of these is
  that character.
\<close>

definition white_space :: "string list" where
  "white_space =
     [[CHR 0x09], [CHR 0x0A], [CHR 0x0B], [CHR 0x0C], [CHR 0x0D], [CHR 0x20],
      [CHR 0xC2, CHR 0x85], [CHR 0xC2, CHR 0xA0], [CHR 0xE1, CHR 0x9A, CHR 0x80],
      [CHR 0xE2, CHR 0x80, CHR 0x80], [CHR 0xE2, CHR 0x80, CHR 0x81],
      [CHR 0xE2, CHR 0x80, CHR 0x82], [CHR 0xE2, CHR 0x80, CHR 0x83],
      [CHR 0xE2, CHR 0x80, CHR 0x84], [CHR 0xE2, CHR 0x80, CHR 0x85],
      [CHR 0xE2, CHR 0x80, CHR 0x86], [CHR 0xE2, CHR 0x80, CHR 0x87],
      [CHR 0xE2, CHR 0x80, CHR 0x88], [CHR 0xE2, CHR 0x80, CHR 0x89],
      [CHR 0xE2, CHR 0x80, CHR 0x8A], [CHR 0xE2, CHR 0x80, CHR 0xA8],
      [CHR 0xE2, CHR 0x80, CHR 0xA9], [CHR 0xE2, CHR 0x80, CHR 0xAF],
      [CHR 0xE2, CHR 0x81, CHR 0x9F], [CHR 0xE3, CHR 0x80, CHR 0x80]]"

function strip_prefixes :: "string list \<Rightarrow> string \<Rightarrow> string" where
  "strip_prefixes ws s =
     (case List.find (\<lambda>w. w \<noteq> [] \<and> prefix w s) ws of
        None \<Rightarrow> s
      | Some w \<Rightarrow> strip_prefixes ws (drop (length w) s))"
  by pat_completeness auto
termination
  by (relation "measure (\<lambda>(ws, s). length s)") (auto simp: find_Some_iff prefix_def)

declare strip_prefixes.simps [simp del]

definition trim :: "string \<Rightarrow> string" where
  "trim s = rev (strip_prefixes (map rev white_space) (rev (strip_prefixes white_space s)))"

lemma strip_prefixes_unchanged:
  assumes "\<And>w. w \<in> set ws \<Longrightarrow> w \<noteq> [] \<Longrightarrow> hd w \<notin> set s"
  shows "strip_prefixes ws s = s"
proof -
  have "\<not> (w \<noteq> [] \<and> prefix w s)" if "w \<in> set ws" for w
    using assms [OF that] by (cases w) (auto dest: set_mono_prefix)
  then have "List.find (\<lambda>w. w \<noteq> [] \<and> prefix w s) ws = None"
    by (simp add: find_None_iff)
  then show ?thesis by (simp add: strip_prefixes.simps)
qed

text \<open>
  A control character: below 0x20, 0x7F, or the two-byte encoding of 0x80 to 0x9F.
\<close>

fun has_control :: "string \<Rightarrow> bool" where
  "has_control [] = False"
| "has_control [c] = (c < CHR 0x20 \<or> c = CHR 0x7F)"
| "has_control (c # d # s) =
     (c < CHR 0x20 \<or> c = CHR 0x7F
      \<or> c = CHR 0xC2 \<and> CHR 0x80 \<le> d \<and> d \<le> CHR 0x9F
      \<or> has_control (d # s))"

text \<open>Trimming a second time changes nothing.\<close>

lemma strip_prefixes_suffix: "suffix (strip_prefixes ws s) s"
proof (induction ws s rule: strip_prefixes.induct)
  case (1 ws s)
  show ?case
  proof (cases "List.find (\<lambda>w. w \<noteq> [] \<and> prefix w s) ws")
    case None
    then show ?thesis by (simp add: strip_prefixes.simps)
  next
    case (Some w)
    then have "strip_prefixes ws s = strip_prefixes ws (drop (length w) s)" by (simp add: strip_prefixes.simps)
    with 1 Some suffix_drop [of "length w" s] show ?thesis by (metis suffix_order.trans)
  qed
qed

lemma strip_prefixes_none: "w \<in> set ws \<Longrightarrow> w \<noteq> [] \<Longrightarrow> \<not> prefix w (strip_prefixes ws s)"
proof (induction ws s rule: strip_prefixes.induct)
  case (1 ws s)
  show ?case
  proof (cases "List.find (\<lambda>w. w \<noteq> [] \<and> prefix w s) ws")
    case None
    then have "strip_prefixes ws s = s" by (simp add: strip_prefixes.simps)
    moreover from None "1.prems" have "\<not> prefix w s" by (auto simp: find_None_iff)
    ultimately show ?thesis by simp
  next
    case (Some v)
    with 1 show ?thesis by (simp add: strip_prefixes.simps [of ws s])
  qed
qed

lemma strip_prefixes_fixed:
  assumes "\<And>w. w \<in> set ws \<Longrightarrow> w \<noteq> [] \<Longrightarrow> \<not> prefix w s"
  shows "strip_prefixes ws s = s"
proof -
  have "List.find (\<lambda>w. w \<noteq> [] \<and> prefix w s) ws = None" using assms by (auto simp: find_None_iff)
  then show ?thesis by (simp add: strip_prefixes.simps)
qed

lemma trim_idem [simp]: "trim (trim s) = trim s"
proof -
  let ?t = "strip_prefixes white_space s"
  have pre: "prefix (trim s) ?t"
    using strip_prefixes_suffix [of "map rev white_space" "rev ?t"] by (simp add: trim_def suffix_to_prefix)
  have "\<not> prefix w (trim s)" if "w \<in> set white_space" "w \<noteq> []" for w
    using strip_prefixes_none [OF that] pre prefix_order.trans by blast
  then have "strip_prefixes white_space (trim s) = trim s" by (rule strip_prefixes_fixed)
  moreover have "strip_prefixes (map rev white_space) (rev (trim s)) = rev (trim s)"
    by (rule strip_prefixes_fixed) (simp add: trim_def strip_prefixes_none)
  ultimately show ?thesis by (simp add: trim_def [of "trim s"])
qed

text \<open>An identifier made of visible ASCII characters is its own trimmed form.\<close>

definition is_visible_ascii :: "char \<Rightarrow> bool" where
  "is_visible_ascii c \<longleftrightarrow> CHR 0x21 \<le> c \<and> c \<le> CHR 0x7E"

lemma trim_visible:
  assumes "list_all is_visible_ascii s"
  shows "trim s = s"
proof -
  have "hd w \<notin> set s" if "w \<in> set white_space" for w
    using assms that by (auto simp: white_space_def list_all_iff is_visible_ascii_def)
  then have *: "strip_prefixes white_space s = s" by (intro strip_prefixes_unchanged) blast
  have "hd w \<notin> set (rev s)" if "w \<in> set (map rev white_space)" for w
    using assms that by (auto simp: white_space_def list_all_iff is_visible_ascii_def)
  then have "strip_prefixes (map rev white_space) (rev s) = rev s"
    by (intro strip_prefixes_unchanged) blast
  with * show ?thesis by (simp add: trim_def)
qed

lemma alphanumeric_visible: "is_ascii_alphanumeric c \<Longrightarrow> is_visible_ascii c"
  unfolding ascii_class_defs is_visible_ascii_def
  by (elim disjE conjE; intro conjI; erule order_trans [rotated] order_trans) simp_all

section \<open>Journalled reducers\<close>

text \<open>
  A component whose state is derived from a journal: \<open>step\<close> validates one event against the
  current state and returns the next state or rejects the event. The invariant is kept by
  every accepted event, so it holds of every replayed journal.
\<close>

fun replay :: "('s \<Rightarrow> 'ev \<Rightarrow> 'e + 's) \<Rightarrow> 's \<Rightarrow> 'ev list \<Rightarrow> 'e + 's" where
  "replay step s [] = Inr s"
| "replay step s (e # es) = and_then (step s e) (\<lambda>t. replay step t es)"

lemma replay_append:
  "replay step s (xs @ ys) = and_then (replay step s xs) (\<lambda>t. replay step t ys)"
proof (induction xs arbitrary: s)
  case Nil
  then show ?case by simp
next
  case (Cons e es)
  then show ?case by (cases "step s e") simp_all
qed

lemma replay_snoc:
  "replay step s (es @ [e]) = Inr t \<longleftrightarrow> (\<exists>u. replay step s es = Inr u \<and> step u e = Inr t)"
  by (auto simp: replay_append result_iffs)

locale reducer =
  fixes step :: "'s \<Rightarrow> 'ev \<Rightarrow> 'e + 's"
    and inv :: "'s \<Rightarrow> bool"
  assumes step_inv: "inv s \<Longrightarrow> step s e = Inr t \<Longrightarrow> inv t"
begin

lemma replay_inv: "inv s \<Longrightarrow> replay step s es = Inr t \<Longrightarrow> inv t"
  by (induction es arbitrary: s) (auto simp: result_iffs dest: step_inv)

lemma replay_prefix_inv:
  assumes "inv s" and "replay step s (es @ fs) = Inr t"
  obtains u where "replay step s es = Inr u" and "inv u" and "replay step u fs = Inr t"
  using assms by (auto simp: replay_append result_iffs dest: replay_inv)

end

text \<open>
  A reducer with a rank that no accepted event lowers, such as a generation counter or an
  event count: the rank only grows along a journal.
\<close>

locale ranked_reducer = reducer step inv
  for step :: "'s \<Rightarrow> 'ev \<Rightarrow> 'e + 's" and inv :: "'s \<Rightarrow> bool" +
  fixes rank :: "'s \<Rightarrow> 'r::preorder"
  assumes step_rank: "inv s \<Longrightarrow> step s e = Inr t \<Longrightarrow> rank s \<le> rank t"
begin

lemma replay_rank: "inv s \<Longrightarrow> replay step s es = Inr t \<Longrightarrow> rank s \<le> rank t"
proof (induction es arbitrary: s)
  case Nil
  then show ?case by simp
next
  case (Cons e es)
  then obtain u where "step s e = Inr u" and "replay step u es = Inr t"
    by (auto simp: result_iffs)
  with Cons show ?case by (meson step_inv step_rank order_trans)
qed

end

end
