(* ===== verification/Ordered.thy ===== *)
theory Ordered
  imports Prelude
begin

text \<open>
  The ordered containers of the Rust standard library the components rely on.

  A \<^verbatim>\<open>BTreeMap\<close> is the list of its entries in ascending key order, so that iteration is
  the list itself and lookup is \<open>map_of\<close>; a \<^verbatim>\<open>BTreeSet\<close> is the strictly ascending list
  of its elements. The locale \<open>ordered_map\<close> states what the clients use of such a map; the
  entry lists implement it. Two maps with the same lookups are equal, which is what makes
  the result of a sequence of insertions independent of their order.
\<close>

section \<open>Ordered maps\<close>

type_synonym ('k, 'v) btree_map = "('k \<times> 'v) list"

definition bt_ordered :: "('k::linorder, 'v) btree_map \<Rightarrow> bool" where
  "bt_ordered m \<longleftrightarrow> sorted_wrt (<) (map fst m)"

definition bt_get :: "('k, 'v) btree_map \<Rightarrow> 'k \<Rightarrow> 'v option" where
  "bt_get m k = map_of m k"

fun bt_insert :: "'k::linorder \<Rightarrow> 'v \<Rightarrow> ('k, 'v) btree_map \<Rightarrow> ('k, 'v) btree_map" where
  "bt_insert k v [] = [(k, v)]"
| "bt_insert k v ((k', v') # m) =
     (if k < k' then (k, v) # (k', v') # m
      else if k = k' then (k, v) # m
      else (k', v') # bt_insert k v m)"

definition bt_retain :: "('k \<Rightarrow> 'v \<Rightarrow> bool) \<Rightarrow> ('k, 'v) btree_map \<Rightarrow> ('k, 'v) btree_map" where
  "bt_retain P m = filter (\<lambda>(k, v). P k v) m"

definition bt_remove :: "'k \<Rightarrow> ('k, 'v) btree_map \<Rightarrow> ('k, 'v) btree_map" where
  "bt_remove k m = bt_retain (\<lambda>k' _. k' \<noteq> k) m"

lemma set_bt_insert:
  "bt_ordered m \<Longrightarrow> set (bt_insert k v m) = insert (k, v) {(k', v') \<in> set m. k' \<noteq> k}"
  by (induction k v m rule: bt_insert.induct) (auto simp: bt_ordered_def)

lemma fst_set_bt_insert: "fst ` set (bt_insert k v m) = insert k (fst ` set m)"
  by (induction k v m rule: bt_insert.induct) auto

lemma bt_ordered_insert: "bt_ordered m \<Longrightarrow> bt_ordered (bt_insert k v m)"
proof (induction k v m rule: bt_insert.induct)
  case (2 k v k' v' m)
  have "k' < a" if "a \<in> fst ` set (bt_insert k v m)" and "k' < k" for a
    using that "2.prems" by (auto simp: fst_set_bt_insert bt_ordered_def)
  with 2 show ?case by (auto simp: bt_ordered_def)
qed (simp add: bt_ordered_def)

lemma bt_ordered_retain: "bt_ordered m \<Longrightarrow> bt_ordered (bt_retain P m)"
  by (auto simp: bt_ordered_def bt_retain_def sorted_wrt_map intro: sorted_wrt_filter)

lemma bt_ordered_remove: "bt_ordered m \<Longrightarrow> bt_ordered (bt_remove k m)"
  by (simp add: bt_remove_def bt_ordered_retain)

lemma bt_ordered_Nil [simp]: "bt_ordered []"
  by (simp add: bt_ordered_def)

lemma bt_ordered_distinct: "bt_ordered m \<Longrightarrow> distinct (map fst m)"
  by (simp add: bt_ordered_def strict_sorted_iff)

lemma bt_get_Some_iff: "bt_ordered m \<Longrightarrow> bt_get m k = Some v \<longleftrightarrow> (k, v) \<in> set m"
  by (simp add: bt_get_def bt_ordered_distinct)

lemma bt_get_None_iff: "bt_get m k = None \<longleftrightarrow> k \<notin> fst ` set m"
  by (simp add: bt_get_def map_of_eq_None_iff)

lemma set_bt_retain: "set (bt_retain P m) = {(k, v) \<in> set m. P k v}"
  by (auto simp: bt_retain_def)

lemma bt_get_insert: "bt_get (bt_insert k v m) = (bt_get m)(k \<mapsto> v)"
  by (induction k v m rule: bt_insert.induct) (auto simp: bt_get_def)

lemma bt_get_retain:
  assumes "bt_ordered m"
  shows "bt_get (bt_retain P m) k =
    (case bt_get m k of None \<Rightarrow> None | Some v \<Rightarrow> if P k v then Some v else None)"
proof (cases "bt_get m k")
  case None
  then have "bt_get (bt_retain P m) k = None"
    by (force simp: bt_get_None_iff set_bt_retain)
  with None show ?thesis by simp
next
  case (Some v)
  with assms have kv: "(k, v) \<in> set m" by (simp add: bt_get_Some_iff)
  have uniq: "w = v" if "(k, w) \<in> set m" for w
    using eq_key_imp_eq_value [OF bt_ordered_distinct [OF assms] that kv] .
  show ?thesis
  proof (cases "P k v")
    case True
    with kv have "(k, v) \<in> set (bt_retain P m)" by (simp add: set_bt_retain)
    then have "bt_get (bt_retain P m) k = Some v"
      using bt_get_Some_iff [OF bt_ordered_retain [OF assms]] by blast
    with Some True show ?thesis by simp
  next
    case False
    with uniq have "bt_get (bt_retain P m) k = None"
      by (force simp: bt_get_None_iff set_bt_retain)
    with Some False show ?thesis by simp
  qed
qed

lemma bt_get_remove: "bt_ordered m \<Longrightarrow> bt_get (bt_remove k m) = (bt_get m)(k := None)"
  by (auto simp: bt_remove_def bt_get_retain split: option.splits)

lemma bt_set_conv: "bt_ordered m \<Longrightarrow> set m = {(k, v). bt_get m k = Some v}"
  by (auto simp: bt_get_Some_iff)

lemma bt_ext:
  assumes "bt_ordered m" and "bt_ordered n" and "bt_get m = bt_get n"
  shows "m = n"
proof -
  have set: "set m = set n" using assms by (simp add: bt_set_conv)
  then have keys: "map fst m = map fst n"
    using assms by (auto intro!: strict_sorted_equal simp: bt_ordered_def)
  have "inj_on fst (set m \<union> set n)"
    using set bt_ordered_distinct [OF assms(1)] by (simp add: distinct_map)
  with keys show ?thesis by (rule map_inj_on)
qed

lemma bt_eq_setI:
  assumes "bt_ordered m" and "bt_ordered n" and "set m = set n"
  shows "m = n"
proof (rule bt_ext [OF assms(1,2)])
  have "bt_get m k = Some v \<longleftrightarrow> bt_get n k = Some v" for k v
    using assms by (simp add: bt_get_Some_iff)
  then show "bt_get m = bt_get n" by (metis ext option.exhaust)
qed

lemma bt_insert_last: "(\<forall>x \<in> fst ` set m. x < k) \<Longrightarrow> bt_insert k v m = m @ [(k, v)]"
  by (induction k v m rule: bt_insert.induct) auto

lemma bt_ordered_filter: "bt_ordered m \<Longrightarrow> bt_ordered (filter P m)"
  by (auto simp: bt_ordered_def sorted_wrt_map intro: sorted_wrt_filter)

lemma bt_get_Some_mem: "bt_ordered m \<Longrightarrow> (k, v) \<in> set m \<Longrightarrow> bt_get m k = Some v"
  by (simp add: bt_get_Some_iff)

section \<open>The interface of an ordered map\<close>

locale ordered_map =
  fixes wf :: "'m \<Rightarrow> bool"
    and empty :: 'm
    and insert :: "'k \<Rightarrow> 'v \<Rightarrow> 'm \<Rightarrow> 'm"
    and remove :: "'k \<Rightarrow> 'm \<Rightarrow> 'm"
    and get :: "'m \<Rightarrow> 'k \<Rightarrow> 'v option"
  assumes wf_empty: "wf empty"
    and wf_insert: "wf m \<Longrightarrow> wf (insert k v m)"
    and wf_remove: "wf m \<Longrightarrow> wf (remove k m)"
    and get_empty: "get empty k = None"
    and get_insert: "wf m \<Longrightarrow> get (insert k v m) = (get m)(k \<mapsto> v)"
    and get_remove: "wf m \<Longrightarrow> get (remove k m) = (get m)(k := None)"
    and ext: "wf m \<Longrightarrow> wf n \<Longrightarrow> get m = get n \<Longrightarrow> m = n"
begin

lemma insert_commute:
  "wf m \<Longrightarrow> k \<noteq> k' \<Longrightarrow> insert k v (insert k' v' m) = insert k' v' (insert k v m)"
  by (intro ext) (auto simp: wf_insert get_insert)

lemma insert_overwrites: "wf m \<Longrightarrow> insert k v (insert k v' m) = insert k v m"
  by (intro ext) (auto simp: wf_insert get_insert)

lemma remove_insert: "wf m \<Longrightarrow> get m k = None \<Longrightarrow> remove k (insert k v m) = m"
  by (intro ext) (auto simp: wf_insert wf_remove get_insert get_remove)

lemma insert_present: "wf m \<Longrightarrow> get m k = Some v \<Longrightarrow> insert k v m = m"
  by (intro ext) (auto simp: wf_insert get_insert)

lemma wf_fold_insert: "wf m \<Longrightarrow> wf (fold (\<lambda>(k, v). insert k v) kvs m)"
  by (induction kvs arbitrary: m) (auto simp: wf_insert)

lemma get_fold_insert:
  "wf m \<Longrightarrow> distinct (map fst kvs) \<Longrightarrow>
     get (fold (\<lambda>(k, v). insert k v) kvs m) = get m ++ map_of kvs"
proof (induction kvs arbitrary: m)
  case Nil
  then show ?case by simp
next
  case (Cons kv kvs)
  obtain k v where kv: "kv = (k, v)" by force
  with Cons.prems have "map_of kvs k = None" by (simp add: map_of_eq_None_iff)
  with Cons kv show ?case
    by (auto simp: wf_insert get_insert map_add_def fun_eq_iff split: option.splits)
qed

lemma fold_insert_eqI:
  assumes "wf m" and "distinct (map fst kvs)" and "get m = map_of kvs"
  shows "fold (\<lambda>(k, v). insert k v) kvs empty = m"
  using assms by (intro ext) (simp_all add: wf_empty wf_fold_insert get_fold_insert get_empty
      map_add_def fun_eq_iff split: option.splits)

end

interpretation bt: ordered_map bt_ordered "[]" bt_insert bt_remove bt_get
  by unfold_locales
    (auto simp: bt_ordered_insert bt_ordered_remove bt_get_insert bt_get_remove bt_get_def
      intro: bt_ext)

section \<open>Ordered sets\<close>

definition btree_set :: "'a::linorder list \<Rightarrow> 'a list" where
  "btree_set xs = sort (remdups xs)"

lemma set_btree_set [simp]: "set (btree_set xs) = set xs"
  by (simp add: btree_set_def)

lemma btree_set_ascending: "sorted_wrt (<) (btree_set xs)"
  by (simp add: btree_set_def strict_sorted_iff)

lemma btree_set_idem: "sorted_wrt (<) xs \<Longrightarrow> btree_set xs = xs"
  by (simp add: btree_set_def strict_sorted_iff sorted_sort_id distinct_remdups_id)

lemma btree_set_eq_iff: "btree_set xs = btree_set ys \<longleftrightarrow> set xs = set ys"
  by (metis btree_set_ascending set_btree_set strict_sorted_equal)

lemma btree_set_Nil_iff [simp]: "btree_set xs = [] \<longleftrightarrow> xs = []"
  by (metis set_btree_set set_empty)

end
