(* ===== verification/Path_Claims.thy ===== *)
theory Path_Claims
  imports Ordered
begin

text \<open>
  The in-memory path-claim coordinator (\<^verbatim>\<open>src/src/sync.rs\<close>): exclusive claims of
  repository paths by agents, and subordinate claims a Worker holds inside the claim of its
  parent. Paths are their component lists, which is what Rust compares, orders and matches
  with \<^verbatim>\<open>starts_with\<close>; the claim table is an ordered map from paths to entries.

  What the operations guarantee is shown in \<open>Claim_Safety\<close>, \<open>Claim_Restore\<close> and
  \<open>Claim_Coordinator\<close>.
\<close>

section \<open>Paths\<close>

datatype component = RootDir | CurDir | ParentDir | Normal string

type_synonym path = "component list"

fun component_rank :: "component \<Rightarrow> nat" where
  "component_rank RootDir = 0"
| "component_rank CurDir = 1"
| "component_rank ParentDir = 2"
| "component_rank (Normal s) = 3"

fun component_text :: "component \<Rightarrow> string" where
  "component_text (Normal s) = s"
| "component_text _ = []"

instantiation component :: linorder
begin

definition less_eq_component :: "component \<Rightarrow> component \<Rightarrow> bool" where
  "less_eq_component a b \<longleftrightarrow> component_rank a < component_rank b \<or>
     component_rank a = component_rank b \<and> component_text a \<le> component_text b"

definition less_component :: "component \<Rightarrow> component \<Rightarrow> bool" where
  "less_component a b \<longleftrightarrow> component_rank a < component_rank b \<or>
     component_rank a = component_rank b \<and> component_text a < component_text b"

instance
proof
  fix a b c :: component
  show "(a < b) = (a \<le> b \<and> \<not> b \<le> a)"
    by (auto simp: less_eq_component_def less_component_def)
  show "a \<le> a" by (simp add: less_eq_component_def)
  show "a \<le> b \<Longrightarrow> b \<le> c \<Longrightarrow> a \<le> c" by (auto simp: less_eq_component_def)
  show "a \<le> b \<Longrightarrow> b \<le> a \<Longrightarrow> a = b"
    by (cases a; cases b) (auto simp: less_eq_component_def)
  show "a \<le> b \<or> b \<le> a" by (auto simp: less_eq_component_def)
qed

end

text \<open>
  \<^verbatim>\<open>Path::components\<close> on a Unix path: a leading slash is the root, a leading dot is
  kept, and empty and other dot segments are skipped.
\<close>

fun split_slash :: "string \<Rightarrow> string list" where
  "split_slash [] = [[]]"
| "split_slash (c # cs) =
     (if c = CHR ''/'' then [] # split_slash cs
      else case split_slash cs of [] \<Rightarrow> [[c]] | s # ss \<Rightarrow> (c # s) # ss)"

definition segment_component :: "string \<Rightarrow> component" where
  "segment_component s = (if s = ''..'' then ParentDir else Normal s)"

definition components :: "string \<Rightarrow> path" where
  "components s =
     (let segments = split_slash s in
      (if take 1 s = ''/'' then [RootDir]
       else if take 1 segments = [''.''] then [CurDir] else []) @
      map segment_component (filter (\<lambda>x. x \<noteq> [] \<and> x \<noteq> ''.'') segments))"

definition starts_with :: "path \<Rightarrow> path \<Rightarrow> bool" where
  "starts_with p base \<longleftrightarrow> prefix base p"

section \<open>The coordinator's data\<close>

type_synonym claim_token = u64

record path_claim =
  pc_token :: claim_token
  pc_agent_id :: string
  pc_paths :: "path list"

record subordinate_binding =
  sb_child_token :: claim_token
  sb_parent_token :: claim_token
  sb_source_digest :: string
  sb_worker_id :: string
  sb_paths :: "path list"

record sync_snapshot =
  ss_next_token :: u64
  ss_claims :: "path_claim list"

record claim_entry =
  ce_token :: claim_token
  ce_agent_id :: string

type_synonym claim_table = "(path, claim_entry) btree_map"

record inner =
  in_next_token :: u64
  in_claims :: claim_table
  in_subordinate_claims :: "(claim_token, path_claim) btree_map"
  in_subordinate_bindings :: "subordinate_binding list"

record sync_coordinator =
  sc_inner :: inner
  sc_poisoned :: bool

datatype sync_error =
    EmptyAgentId
  | InvalidAgentId
  | EmptyClaim
  | EmptyPath
  | AbsolutePath path
  | EscapingPath path
  | Conflict path string
  | UnknownToken u64
  | InvalidToken
  | DuplicateToken u64
  | TokenExhausted
  | Poisoned
  | InvalidSubordinateClaim
  | SubordinateReplay
  | ActiveSubordinates

definition default_inner :: inner where
  "default_inner = \<lparr>in_next_token = 1, in_claims = [], in_subordinate_claims = [],
     in_subordinate_bindings = []\<rparr>"

definition new_coordinator :: sync_coordinator where
  "new_coordinator = \<lparr>sc_inner = default_inner, sc_poisoned = False\<rparr>"

definition default_snapshot :: sync_snapshot where
  "default_snapshot = \<lparr>ss_next_token = 1, ss_claims = []\<rparr>"

section \<open>Normalisation\<close>

definition normalize_agent_id :: "string \<Rightarrow> sync_error + string" where
  "normalize_agent_id agent_id =
     (let trimmed = trim agent_id in
      if trimmed = [] then Inl EmptyAgentId
      else if trimmed = ''.'' \<or> trimmed = ''..'' then Inl InvalidAgentId
      else if \<not> list_all (\<lambda>c. is_ascii_alphanumeric c \<or> c \<in> set ''-_.'') trimmed
           then Inl InvalidAgentId
      else Inr trimmed)"

fun normalize_components :: "path \<Rightarrow> path \<Rightarrow> path \<Rightarrow> sync_error + path" where
  "normalize_components path normalized [] = Inr normalized"
| "normalize_components path normalized (Normal segment # cs) =
     normalize_components path (normalized @ [Normal segment]) cs"
| "normalize_components path normalized (CurDir # cs) = normalize_components path normalized cs"
| "normalize_components path normalized (ParentDir # cs) =
     (if normalized = [] then Inl (EscapingPath path)
      else normalize_components path (butlast normalized) cs)"
| "normalize_components path normalized (RootDir # cs) = Inl (AbsolutePath path)"

definition normalize_repo_path :: "path \<Rightarrow> sync_error + path" where
  "normalize_repo_path path =
     (if path = [] then Inl EmptyPath
      else and_then (normalize_components path [] path)
             (\<lambda>normalized. if normalized = [] then Inl EmptyPath else Inr normalized))"

definition normalize_repo_relative_path :: "path \<Rightarrow> sync_error + path" where
  "normalize_repo_relative_path path = normalize_repo_path path"

definition paths_overlap :: "path \<Rightarrow> path \<Rightarrow> bool" where
  "paths_overlap a b \<longleftrightarrow> a = b \<or> starts_with a b \<or> starts_with b a"

definition path_is_covered_by_claim :: "path \<Rightarrow> path \<Rightarrow> bool" where
  "path_is_covered_by_claim path claim \<longleftrightarrow> path = claim \<or> starts_with path claim"

definition collapse_step :: "path list \<Rightarrow> path \<Rightarrow> path list" where
  "collapse_step collapsed path =
     (if list_ex (\<lambda>existing. starts_with path existing) collapsed then collapsed
      else filter (\<lambda>existing. \<not> starts_with existing path) collapsed @ [path])"

definition collapse_covered_paths :: "path list \<Rightarrow> path list" where
  "collapse_covered_paths paths = foldl collapse_step [] paths"

definition normalize_claim_paths :: "path list \<Rightarrow> sync_error + path list" where
  "normalize_claim_paths paths =
     and_then (traverse normalize_repo_path paths) (\<lambda>normalized.
       if btree_set normalized = [] then Inl EmptyClaim
       else Inr (collapse_covered_paths (btree_set normalized)))"

definition valid_source_digest :: "string \<Rightarrow> bool" where
  "valid_source_digest value \<longleftrightarrow> length value = 64 \<and>
     list_all (\<lambda>byte. is_ascii_hexdigit byte \<and> \<not> is_ascii_uppercase byte) value"

section \<open>The claim table\<close>

definition find_conflict :: "claim_table \<Rightarrow> path \<Rightarrow> (path \<times> claim_entry) option" where
  "find_conflict claims requested =
     List.find (\<lambda>(claimed, entry). paths_overlap claimed requested) claims"

fun check_conflicts :: "claim_table \<Rightarrow> path list \<Rightarrow> sync_error + unit" where
  "check_conflicts claims [] = Inr ()"
| "check_conflicts claims (requested # paths) =
     (case find_conflict claims requested of
        Some (path, entry) \<Rightarrow> Inl (Conflict path (ce_agent_id entry))
      | None \<Rightarrow> check_conflicts claims paths)"

definition insert_claim ::
  "claim_table \<Rightarrow> claim_token \<Rightarrow> string \<Rightarrow> path list \<Rightarrow> sync_error + claim_table" where
  "insert_claim claims token agent_id paths =
     and_then (check_conflicts claims paths) (\<lambda>_.
       Inr (fold (\<lambda>path. bt_insert path \<lparr>ce_token = token, ce_agent_id = agent_id\<rparr>)
              paths claims))"

definition group_step ::
  "path \<times> claim_entry \<Rightarrow> (claim_token, path_claim) btree_map \<Rightarrow> (claim_token, path_claim) btree_map"
where
  "group_step pe grouped =
     (case pe of (path, entry) \<Rightarrow>
        (case bt_get grouped (ce_token entry) of
           Some claim \<Rightarrow>
             bt_insert (ce_token entry) (claim\<lparr>pc_paths := pc_paths claim @ [path]\<rparr>) grouped
         | None \<Rightarrow>
             bt_insert (ce_token entry)
               \<lparr>pc_token = ce_token entry, pc_agent_id = ce_agent_id entry, pc_paths = [path]\<rparr>
               grouped))"

definition group_claims :: "claim_table \<Rightarrow> (claim_token, path_claim) btree_map" where
  "group_claims claims = fold group_step claims []"

definition claim_for_token :: "claim_table \<Rightarrow> claim_token \<Rightarrow> path_claim option" where
  "claim_for_token claims token = bt_get (group_claims claims) token"

definition all_claims :: "inner \<Rightarrow> path_claim list" where
  "all_claims inner =
     map snd (fold (\<lambda>(token, claim). bt_insert token claim) (in_subordinate_claims inner)
                (group_claims (in_claims inner)))"

definition validate_subordinate_scope ::
  "inner \<Rightarrow> path_claim \<Rightarrow> string \<Rightarrow> path list \<Rightarrow> sync_error + unit" where
  "validate_subordinate_scope inner parent worker_id paths =
     and_then (normalize_agent_id worker_id) (\<lambda>worker.
       if worker \<noteq> worker_id \<or> worker_id = pc_agent_id parent \<or> paths = []
       then Inl InvalidSubordinateClaim
       else and_then (normalize_claim_paths paths) (\<lambda>normalized.
         if normalized \<noteq> paths
           \<or> list_ex (\<lambda>path. \<not> list_ex (\<lambda>scope. starts_with path scope) (pc_paths parent)) paths
           \<or> list_all (\<lambda>scope. list_ex (\<lambda>path. starts_with scope path) paths) (pc_paths parent)
           \<or> list_ex (\<lambda>(_, claim). pc_agent_id claim = worker_id
                 \<or> list_ex (\<lambda>scope. list_ex (\<lambda>path. paths_overlap scope path) paths) (pc_paths claim))
               (in_subordinate_claims inner)
           \<or> list_ex (\<lambda>(_, entry). ce_agent_id entry = worker_id) (in_claims inner)
         then Inl InvalidSubordinateClaim
         else Inr ()))"

section \<open>Operations\<close>

text \<open>
  An operation runs on the locked state and returns its result with the state it leaves
  behind, also when it fails: \<^verbatim>\<open>claim_paths\<close> has already advanced the token
  counter when it reports a conflict. A poisoned mutex fails every operation.
\<close>

definition with_lock ::
  "sync_coordinator \<Rightarrow> (inner \<Rightarrow> (sync_error + 'a) \<times> inner) \<Rightarrow> (sync_error + 'a) \<times> sync_coordinator"
where
  "with_lock c body =
     (if sc_poisoned c then (Inl Poisoned, c)
      else case body (sc_inner c) of (r, i) \<Rightarrow> (r, c\<lparr>sc_inner := i\<rparr>))"

definition claim_locked ::
  "string \<Rightarrow> path list \<Rightarrow> inner \<Rightarrow> (sync_error + path_claim) \<times> inner" where
  "claim_locked agent_id paths inner =
     (let token = in_next_token inner in
      case checked_add token 1 of
        None \<Rightarrow> (Inl TokenExhausted, inner)
      | Some next \<Rightarrow>
          (let inner1 = inner\<lparr>in_next_token := next\<rparr> in
           case insert_claim (in_claims inner1) token agent_id paths of
             Inl e \<Rightarrow> (Inl e, inner1)
           | Inr claims \<Rightarrow>
               (Inr \<lparr>pc_token = token, pc_agent_id = agent_id, pc_paths = paths\<rparr>,
                inner1\<lparr>in_claims := claims\<rparr>)))"

definition claim_paths ::
  "string \<Rightarrow> path list \<Rightarrow> sync_coordinator \<Rightarrow> (sync_error + path_claim) \<times> sync_coordinator" where
  "claim_paths agent_id paths c =
     (case normalize_agent_id agent_id of
        Inl e \<Rightarrow> (Inl e, c)
      | Inr agent \<Rightarrow>
          (case normalize_claim_paths paths of
             Inl e \<Rightarrow> (Inl e, c)
           | Inr normalized \<Rightarrow> with_lock c (claim_locked agent normalized)))"

definition subordinate_locked ::
  "path_claim \<Rightarrow> string \<Rightarrow> path list \<Rightarrow> string \<Rightarrow> inner \<Rightarrow> (sync_error + path_claim) \<times> inner" where
  "subordinate_locked parent worker_id paths source_digest inner =
     (if claim_for_token (in_claims inner) (pc_token parent) \<noteq> Some parent
      then (Inl InvalidSubordinateClaim, inner)
      else case normalize_claim_paths paths of
        Inl e \<Rightarrow> (Inl e, inner)
      | Inr normalized \<Rightarrow>
          if normalized \<noteq> paths \<or> \<not> valid_source_digest source_digest
          then (Inl InvalidSubordinateClaim, inner)
          else if list_ex (\<lambda>b. sb_parent_token b = pc_token parent
                    \<and> sb_source_digest b = source_digest \<and> sb_worker_id b = worker_id)
                  (in_subordinate_bindings inner)
          then (Inl SubordinateReplay, inner)
          else case validate_subordinate_scope inner parent worker_id paths of
            Inl e \<Rightarrow> (Inl e, inner)
          | Inr _ \<Rightarrow>
              (let token = in_next_token inner in
               case checked_add token 1 of
                 None \<Rightarrow> (Inl TokenExhausted, inner)
               | Some next \<Rightarrow>
                   (let claim = \<lparr>pc_token = token, pc_agent_id = worker_id, pc_paths = paths\<rparr> in
                    (Inr claim,
                     inner\<lparr>in_next_token := next,
                       in_subordinate_claims := bt_insert token claim (in_subordinate_claims inner),
                       in_subordinate_bindings := in_subordinate_bindings inner @
                         [\<lparr>sb_child_token = token, sb_parent_token = pc_token parent,
                           sb_source_digest = source_digest, sb_worker_id = worker_id,
                           sb_paths = paths\<rparr>]\<rparr>))))"

definition claim_subordinate_paths ::
  "path_claim \<Rightarrow> string \<Rightarrow> path list \<Rightarrow> string \<Rightarrow> sync_coordinator \<Rightarrow>
    (sync_error + path_claim) \<times> sync_coordinator" where
  "claim_subordinate_paths parent worker_id paths source_digest c =
     with_lock c (subordinate_locked parent worker_id paths source_digest)"

definition release_locked :: "claim_token \<Rightarrow> inner \<Rightarrow> (sync_error + path_claim) \<times> inner" where
  "release_locked token inner =
     (if list_ex (\<lambda>b. sb_parent_token b = token
            \<and> bt_get (in_subordinate_claims inner) (sb_child_token b) \<noteq> None)
          (in_subordinate_bindings inner)
      then (Inl ActiveSubordinates, inner)
      else case bt_get (in_subordinate_claims inner) token of
        Some child \<Rightarrow>
          (Inr child,
           inner\<lparr>in_subordinate_claims := bt_remove token (in_subordinate_claims inner)\<rparr>)
      | None \<Rightarrow>
          (case claim_for_token (in_claims inner) token of
             None \<Rightarrow> (Inl (UnknownToken token), inner)
           | Some released \<Rightarrow>
               (Inr released,
                inner\<lparr>in_claims := bt_retain (\<lambda>_ entry. ce_token entry \<noteq> token)
                  (in_claims inner)\<rparr>)))"

definition release :: "claim_token \<Rightarrow> sync_coordinator \<Rightarrow> (sync_error + path_claim) \<times> sync_coordinator"
where
  "release token c = with_lock c (release_locked token)"

definition release_by_agent_locked ::
  "string \<Rightarrow> inner \<Rightarrow> (sync_error + path_claim list) \<times> inner" where
  "release_by_agent_locked agent_id inner =
     (let tokens = map (\<lambda>(_, entry). ce_token entry)
            (filter (\<lambda>(_, entry). ce_agent_id entry = agent_id) (in_claims inner)) in
      if list_ex (\<lambda>b. sb_parent_token b \<in> set tokens
            \<and> bt_get (in_subordinate_claims inner) (sb_child_token b) \<noteq> None)
          (in_subordinate_bindings inner)
      then (Inl ActiveSubordinates, inner)
      else
        (let tokens' = btree_set (tokens @ map (\<lambda>(_, claim). pc_token claim)
               (filter (\<lambda>(_, claim). pc_agent_id claim = agent_id) (in_subordinate_claims inner)))
         in (Inr (List.map_filter (\<lambda>token.
               case bt_get (in_subordinate_claims inner) token of
                 Some claim \<Rightarrow> Some claim
               | None \<Rightarrow> claim_for_token (in_claims inner) token) tokens'),
             inner\<lparr>in_claims := bt_retain (\<lambda>_ entry. ce_agent_id entry \<noteq> agent_id) (in_claims inner),
               in_subordinate_claims := bt_retain (\<lambda>_ claim. pc_agent_id claim \<noteq> agent_id)
                 (in_subordinate_claims inner)\<rparr>)))"

definition release_by_agent ::
  "string \<Rightarrow> sync_coordinator \<Rightarrow> (sync_error + path_claim list) \<times> sync_coordinator" where
  "release_by_agent agent_id c =
     (case normalize_agent_id agent_id of
        Inl e \<Rightarrow> (Inl e, c)
      | Inr agent \<Rightarrow> with_lock c (release_by_agent_locked agent))"

section \<open>Queries\<close>

definition lock_inner :: "sync_coordinator \<Rightarrow> sync_error + inner" where
  "lock_inner c = (if sc_poisoned c then Inl Poisoned else Inr (sc_inner c))"

definition owner_in :: "inner \<Rightarrow> path \<Rightarrow> string option" where
  "owner_in inner path =
     (case List.find (\<lambda>(_, claim). list_ex (\<lambda>scope. path_is_covered_by_claim path scope)
              (pc_paths claim)) (in_subordinate_claims inner) of
        Some (_, child) \<Rightarrow> Some (pc_agent_id child)
      | None \<Rightarrow>
          map_option (\<lambda>(_, entry). ce_agent_id entry)
            (List.find (\<lambda>(claimed, _). path_is_covered_by_claim path claimed) (in_claims inner)))"

definition owner_of :: "sync_coordinator \<Rightarrow> path \<Rightarrow> sync_error + string option" where
  "owner_of c path =
     and_then (normalize_repo_path path) (\<lambda>path.
       and_then (lock_inner c) (\<lambda>inner. Inr (owner_in inner path)))"

definition may_write_in :: "inner \<Rightarrow> string \<Rightarrow> path \<Rightarrow> bool" where
  "may_write_in inner agent_id path =
     (case List.find (\<lambda>(_, claim). list_ex (\<lambda>scope. paths_overlap path scope) (pc_paths claim))
              (in_subordinate_claims inner) of
        Some (_, child) \<Rightarrow> pc_agent_id child = agent_id
          \<and> list_ex (\<lambda>scope. path_is_covered_by_claim path scope) (pc_paths child)
      | None \<Rightarrow>
          list_ex (\<lambda>(claimed, entry). ce_agent_id entry = agent_id
            \<and> path_is_covered_by_claim path claimed) (in_claims inner))"

definition can_write :: "sync_coordinator \<Rightarrow> string \<Rightarrow> path \<Rightarrow> sync_error + bool" where
  "can_write c agent_id path =
     and_then (normalize_agent_id agent_id) (\<lambda>agent.
       and_then (normalize_repo_path path) (\<lambda>path.
         and_then (lock_inner c) (\<lambda>inner. Inr (may_write_in inner agent path))))"

definition snapshot :: "sync_coordinator \<Rightarrow> sync_error + path_claim list" where
  "snapshot c = and_then (lock_inner c) (\<lambda>inner. Inr (all_claims inner))"

definition subordinate_bindings :: "sync_coordinator \<Rightarrow> sync_error + subordinate_binding list" where
  "subordinate_bindings c = and_then (lock_inner c) (\<lambda>inner. Inr (in_subordinate_bindings inner))"

definition to_snapshot :: "sync_coordinator \<Rightarrow> sync_error + sync_snapshot" where
  "to_snapshot c = and_then (lock_inner c) (\<lambda>inner.
     Inr \<lparr>ss_next_token = in_next_token inner, ss_claims = all_claims inner\<rparr>)"

section \<open>Restoring a stored snapshot\<close>

definition restore_claim ::
  "path_claim \<Rightarrow> claim_table \<times> claim_token list \<times> u64 \<Rightarrow>
    sync_error + claim_table \<times> claim_token list \<times> u64" where
  "restore_claim claim st =
     (case st of (claims, seen_tokens, max_token) \<Rightarrow>
       (let token = pc_token claim in
        if token = 0 then Inl InvalidToken
        else if token \<in> set seen_tokens then Inl (DuplicateToken token)
        else and_then (normalize_agent_id (pc_agent_id claim)) (\<lambda>agent_id.
          and_then (normalize_claim_paths (pc_paths claim)) (\<lambda>paths.
            and_then (insert_claim claims token agent_id paths) (\<lambda>claims'.
              Inr (claims', token # seen_tokens, max max_token token))))))"

definition from_snapshot :: "sync_snapshot \<Rightarrow> sync_error + sync_coordinator" where
  "from_snapshot snap =
     and_then (fold_result restore_claim (ss_claims snap) ([], [], 0))
       (\<lambda>(claims, seen_tokens, max_token).
          Inr \<lparr>sc_inner = default_inner\<lparr>in_claims := claims,
                 in_next_token := max (max (ss_next_token snap) (saturating_add max_token 1)) 1\<rparr>,
               sc_poisoned = False\<rparr>)"

definition check_binding ::
  "u64 \<Rightarrow> subordinate_binding \<Rightarrow> claim_token list \<times> (claim_token \<times> string \<times> string) list \<Rightarrow>
    sync_error + claim_token list \<times> (claim_token \<times> string \<times> string) list" where
  "check_binding next_token b st =
     (case st of (child_tokens, sources) \<Rightarrow>
       (let source = (sb_parent_token b, sb_source_digest b, sb_worker_id b) in
        if sb_child_token b = 0 \<or> sb_parent_token b = 0 \<or> sb_child_token b = sb_parent_token b
          \<or> next_token \<le> sb_child_token b \<or> next_token \<le> sb_parent_token b
          \<or> sb_child_token b \<in> set child_tokens \<or> source \<in> set sources
        then Inl InvalidSubordinateClaim
        else and_then (normalize_agent_id (sb_worker_id b)) (\<lambda>worker.
          if worker \<noteq> sb_worker_id b then Inl InvalidSubordinateClaim
          else and_then (normalize_claim_paths (sb_paths b)) (\<lambda>paths.
            if paths \<noteq> sb_paths b \<or> \<not> valid_source_digest (sb_source_digest b)
            then Inl InvalidSubordinateClaim
            else Inr (sb_child_token b # child_tokens, source # sources)))))"

definition restore_child ::
  "subordinate_binding list \<Rightarrow> path_claim \<Rightarrow> inner \<Rightarrow> sync_error + inner" where
  "restore_child bindings child inner =
     and_then (ok_or (List.find (\<lambda>b. sb_child_token b = pc_token child) bindings)
                InvalidSubordinateClaim) (\<lambda>b.
       and_then (ok_or (claim_for_token (in_claims inner) (sb_parent_token b))
                  InvalidSubordinateClaim) (\<lambda>parent.
         and_then (validate_subordinate_scope inner parent (pc_agent_id child) (pc_paths child)) (\<lambda>_.
           if pc_agent_id child \<noteq> sb_worker_id b \<or> pc_paths child \<noteq> sb_paths b
           then Inl InvalidSubordinateClaim
           else and_then (normalize_claim_paths (pc_paths child)) (\<lambda>paths.
             if paths \<noteq> pc_paths child
               \<or> bt_get (in_subordinate_claims inner) (pc_token child) \<noteq> None
             then Inl InvalidSubordinateClaim
             else Inr (inner\<lparr>in_subordinate_claims :=
               bt_insert (pc_token child) child (in_subordinate_claims inner)\<rparr>)))))"

definition from_snapshot_with_subordinates ::
  "sync_snapshot \<Rightarrow> subordinate_binding list \<Rightarrow> sync_error + sync_coordinator" where
  "from_snapshot_with_subordinates snap bindings =
     and_then (fold_result (check_binding (ss_next_token snap)) bindings ([], []))
       (\<lambda>(child_tokens, sources).
          let children = filter (\<lambda>claim. pc_token claim \<in> set child_tokens) (ss_claims snap);
              rest = filter (\<lambda>claim. pc_token claim \<notin> set child_tokens) (ss_claims snap)
          in and_then (from_snapshot (snap\<lparr>ss_claims := rest\<rparr>)) (\<lambda>c.
               and_then (fold_result (restore_child bindings) children (sc_inner c)) (\<lambda>inner.
                 Inr (c\<lparr>sc_inner := inner\<lparr>in_subordinate_bindings := bindings\<rparr>\<rparr>))))"

end
