(* ===== verification/Claim_Safety.thy ===== *)
theory Claim_Safety
  imports Path_Claims
begin

text \<open>
  What the path-claim coordinator guarantees. The invariant \<open>sync_inv\<close> says that the claimed
  paths are normalised and pairwise disjoint, that tokens are positive, below the next token and
  belong to one agent, that every active Worker claim is bound to an active claim it lies strictly
  within, and that Worker claims are pairwise disjoint. Every operation preserves it, and with it
  at most one agent may write any path.
\<close>

section \<open>Normalised paths and agents\<close>

fun is_normal :: "component \<Rightarrow> bool" where
  "is_normal (Normal s) = True"
| "is_normal _ = False"

definition normal_path :: "path \<Rightarrow> bool" where
  "normal_path p \<longleftrightarrow> p \<noteq> [] \<and> list_all is_normal p"

definition antichain :: "path set \<Rightarrow> bool" where
  "antichain P \<longleftrightarrow> (\<forall>p \<in> P. \<forall>q \<in> P. p \<noteq> q \<longrightarrow> \<not> paths_overlap p q)"

definition canonical_paths :: "path list \<Rightarrow> bool" where
  "canonical_paths ps \<longleftrightarrow> ps \<noteq> [] \<and> sorted_wrt (<) ps \<and> (\<forall>p \<in> set ps. normal_path p)
     \<and> antichain (set ps)"

definition canonical_agent :: "string \<Rightarrow> bool" where
  "canonical_agent a \<longleftrightarrow> normalize_agent_id a = Inr a"

lemma antichain_subset: "antichain B \<Longrightarrow> A \<subseteq> B \<Longrightarrow> antichain A"
  unfolding antichain_def by (meson subsetD)

lemma paths_overlap_sym: "paths_overlap a b \<longleftrightarrow> paths_overlap b a"
  by (auto simp: paths_overlap_def)

lemma paths_overlap_refl [simp]: "paths_overlap a a"
  by (simp add: paths_overlap_def)

lemma covered_iff_prefix: "path_is_covered_by_claim p c \<longleftrightarrow> prefix c p"
  by (auto simp: path_is_covered_by_claim_def starts_with_def)

lemma overlap_iff_prefix: "paths_overlap a b \<longleftrightarrow> prefix a b \<or> prefix b a"
  by (auto simp: paths_overlap_def starts_with_def)

lemma prefix_common_overlap: "prefix a p \<Longrightarrow> prefix b p \<Longrightarrow> paths_overlap a b"
  by (metis overlap_iff_prefix prefix_same_cases)

lemma overlap_below: "prefix a p \<Longrightarrow> paths_overlap p q \<Longrightarrow> paths_overlap a q"
  by (metis overlap_iff_prefix prefix_same_cases prefix_order.trans)

lemma prefix_le: "prefix p q \<Longrightarrow> p \<le> q" for p q :: "'a::linorder list"
proof (induction p arbitrary: q)
  case Nil
  then show ?case by simp
next
  case (Cons x p)
  then show ?case by (cases q) auto
qed

lemma prefix_not_less: "prefix p q \<Longrightarrow> \<not> q < p" for p q :: "'a::linorder list"
  by (simp add: prefix_le leD)

lemma normalize_components_normal:
  "normalize_components p acc cs = Inr n \<Longrightarrow> list_all is_normal acc \<Longrightarrow> list_all is_normal n"
  by (induction p acc cs rule: normalize_components.induct)
    (auto split: if_splits simp: list_all_iff dest: in_set_butlastD)

lemma normalize_components_id:
  "list_all is_normal cs \<Longrightarrow> normalize_components p acc cs = Inr (acc @ cs)"
  by (induction p acc cs rule: normalize_components.induct) auto

lemma normalize_repo_path_normal: "normalize_repo_path p = Inr n \<Longrightarrow> normal_path n"
  by (auto simp: normalize_repo_path_def normal_path_def result_iffs split: if_splits
      dest: normalize_components_normal)

lemma normalize_repo_path_id: "normal_path p \<Longrightarrow> normalize_repo_path p = Inr p"
  by (simp add: normalize_repo_path_def normal_path_def normalize_components_id)

lemma agent_char_visible:
  "is_ascii_alphanumeric c \<or> c = CHR ''-'' \<or> c = CHR ''_'' \<or> c = CHR ''.'' \<Longrightarrow> is_visible_ascii c"
  by (elim disjE) (simp_all add: alphanumeric_visible, simp_all add: is_visible_ascii_def)

lemma normalize_agent_id_canonical: "normalize_agent_id x = Inr a \<Longrightarrow> canonical_agent a"
proof -
  assume *: "normalize_agent_id x = Inr a"
  then have "list_all is_visible_ascii a"
    unfolding normalize_agent_id_def Let_def
    by (auto split: if_splits simp: list_all_iff intro: agent_char_visible)
  then have "trim a = a" by (rule trim_visible)
  with * show ?thesis
    by (auto simp: normalize_agent_id_def canonical_agent_def Let_def split: if_splits)
qed

section \<open>Collapsing covered paths\<close>

lemma collapse_step_ascending:
  assumes "\<forall>c \<in> set cs. c < p"
  shows "collapse_step cs p = (if \<exists>c \<in> set cs. prefix c p then cs else cs @ [p])"
proof -
  have "filter (\<lambda>c. \<not> starts_with c p) cs = cs"
    using assms by (intro filter_True) (auto simp: starts_with_def dest: prefix_not_less)
  then show ?thesis by (auto simp: collapse_step_def starts_with_def list_ex_iff)
qed

lemma collapse_invariant:
  assumes "sorted_wrt (<) (ps @ qs)" and "set cs \<subseteq> set ps" and "sorted_wrt (<) cs"
    and "antichain (set cs)" and "\<forall>p \<in> set ps. \<exists>c \<in> set cs. prefix c p"
  shows "let r = foldl collapse_step cs qs in
    set r \<subseteq> set (ps @ qs) \<and> sorted_wrt (<) r \<and> antichain (set r)
    \<and> (\<forall>p \<in> set (ps @ qs). \<exists>c \<in> set r. prefix c p)"
  using assms
proof (induction qs arbitrary: ps cs)
  case Nil
  then show ?case by simp
next
  case (Cons q qs)
  have less: "\<forall>c \<in> set cs. c < q"
    using Cons.prems(1,2) by (auto simp: sorted_wrt_append)
  let ?cs = "if \<exists>c \<in> set cs. prefix c q then cs else cs @ [q]"
  have step: "foldl collapse_step cs (q # qs) = foldl collapse_step ?cs qs"
    by (simp add: collapse_step_ascending [OF less])
  have anti: "antichain (set ?cs)"
    using Cons.prems(4) less
    by (auto simp: antichain_def overlap_iff_prefix dest: prefix_not_less)
  have "let r = foldl collapse_step ?cs qs in
    set r \<subseteq> set ((ps @ [q]) @ qs) \<and> sorted_wrt (<) r \<and> antichain (set r)
    \<and> (\<forall>p \<in> set ((ps @ [q]) @ qs). \<exists>c \<in> set r. prefix c p)"
    using Cons.prems less anti
    by (intro Cons.IH) (auto simp: sorted_wrt_append)
  then show ?case unfolding step by simp
qed

lemma collapse_covered_paths_spec:
  assumes "sorted_wrt (<) qs"
  shows "set (collapse_covered_paths qs) \<subseteq> set qs"
    and "sorted_wrt (<) (collapse_covered_paths qs)"
    and "antichain (set (collapse_covered_paths qs))"
    and "q \<in> set qs \<Longrightarrow> \<exists>c \<in> set (collapse_covered_paths qs). prefix c q"
  using collapse_invariant [of "[]" qs "[]"] assms
  by (simp_all add: collapse_covered_paths_def Let_def antichain_def)

lemma collapse_antichain:
  assumes "sorted_wrt (<) qs" and "antichain (set qs)"
  shows "collapse_covered_paths qs = qs"
proof -
  let ?r = "collapse_covered_paths qs"
  have "q \<in> set ?r" if q: "q \<in> set qs" for q
  proof -
    obtain c where c: "c \<in> set ?r" "prefix c q"
      using collapse_covered_paths_spec(4) [OF assms(1) q] by blast
    then have "c \<in> set qs" using collapse_covered_paths_spec(1) [OF assms(1)] by blast
    with c q assms(2) have "c = q" by (auto simp: antichain_def overlap_iff_prefix)
    with c show ?thesis by simp
  qed
  with collapse_covered_paths_spec(1) [OF assms(1)] have "set ?r = set qs" by blast
  with assms show ?thesis by (intro strict_sorted_equal collapse_covered_paths_spec)
qed

lemma normalize_claim_paths_canonical:
  assumes "normalize_claim_paths qs = Inr ps"
  shows "canonical_paths ps"
proof -
  obtain ns where ns: "traverse normalize_repo_path qs = Inr ns" "ns \<noteq> []"
    and ps: "ps = collapse_covered_paths (btree_set ns)"
    using assms by (auto simp: normalize_claim_paths_def result_iffs split: if_splits)
  have normal: "\<forall>n \<in> set ns. normal_path n"
    using ns(1) by (auto elim: traverse_resultE intro: normalize_repo_path_normal)
  note spec = collapse_covered_paths_spec [OF btree_set_ascending [of ns]]
  obtain n where "n \<in> set ns" using ns(2) by (cases ns) auto
  then have "ps \<noteq> []" using spec(4) [of n] ps by auto
  then show ?thesis using spec(1-3) normal ps by (auto simp: canonical_paths_def)
qed

lemma canonical_normalize_id: "canonical_paths ps \<Longrightarrow> normalize_claim_paths ps = Inr ps"
  by (simp add: normalize_claim_paths_def canonical_paths_def traverse_idem
      normalize_repo_path_id btree_set_idem collapse_antichain)

lemma normalize_claim_paths_fixed: "normalize_claim_paths ps = Inr ps \<longleftrightarrow> canonical_paths ps"
  using canonical_normalize_id normalize_claim_paths_canonical by blast

lemma normalize_claim_paths_covers:
  assumes "normalize_claim_paths qs = Inr ps" and "q \<in> set qs"
  obtains n p where "normalize_repo_path q = Inr n" and "p \<in> set ps" and "prefix p n"
proof -
  obtain ns where ns: "traverse normalize_repo_path qs = Inr ns"
    and ps: "ps = collapse_covered_paths (btree_set ns)"
    using assms(1) by (auto simp: normalize_claim_paths_def result_iffs split: if_splits)
  from ns assms(2) obtain n where n: "n \<in> set ns" "normalize_repo_path q = Inr n"
    by (rule traverse_argE)
  with collapse_covered_paths_spec(4) [OF btree_set_ascending, of n ns] ps that show ?thesis
    by auto
qed

section \<open>The claim table as a set of entries\<close>

definition entries_of :: "claim_token \<Rightarrow> claim_table \<Rightarrow> claim_table" where
  "entries_of t claims = filter (\<lambda>(_, e). ce_token e = t) claims"

definition claim_of_entries :: "claim_token \<Rightarrow> claim_table \<Rightarrow> path_claim option" where
  "claim_of_entries t es =
     (case es of [] \<Rightarrow> None
      | (p, e) # _ \<Rightarrow> Some \<lparr>pc_token = t, pc_agent_id = ce_agent_id e, pc_paths = map fst es\<rparr>)"

lemma bt_ordered_group_step: "bt_ordered g \<Longrightarrow> bt_ordered (group_step pe g)"
  by (auto simp: group_step_def bt_ordered_insert split: prod.splits option.splits)

lemma bt_ordered_fold_group: "bt_ordered g \<Longrightarrow> bt_ordered (fold group_step xs g)"
  by (induction xs arbitrary: g) (auto simp: bt_ordered_group_step)

lemma bt_ordered_group_claims: "bt_ordered (group_claims claims)"
  by (simp add: group_claims_def bt_ordered_fold_group)

lemma bt_get_group_step:
  "bt_get (group_step (p, e) g) t =
    (if t = ce_token e
     then Some (case bt_get g t of
         Some c \<Rightarrow> c\<lparr>pc_paths := pc_paths c @ [p]\<rparr>
       | None \<Rightarrow> \<lparr>pc_token = t, pc_agent_id = ce_agent_id e, pc_paths = [p]\<rparr>)
     else bt_get g t)"
  by (auto simp: group_step_def bt_get_insert split: option.splits)

lemma bt_get_fold_group:
  "bt_get (fold group_step xs g) t =
    (case bt_get g t of
       Some c \<Rightarrow> Some (c\<lparr>pc_paths := pc_paths c @ map fst (entries_of t xs)\<rparr>)
     | None \<Rightarrow> claim_of_entries t (entries_of t xs))"
proof (induction xs arbitrary: g)
  case Nil
  then show ?case by (simp add: entries_of_def claim_of_entries_def split: option.split)
next
  case (Cons pe xs)
  obtain p e where pe: "pe = (p, e)" by force
  have "fold group_step (pe # xs) g = fold group_step xs (group_step (p, e) g)"
    by (simp add: pe)
  then show ?case
    by (simp only: Cons.IH bt_get_group_step)
      (auto simp: pe entries_of_def claim_of_entries_def split: option.splits)
qed

lemma claim_for_token_eq: "claim_for_token claims t = claim_of_entries t (entries_of t claims)"
  by (simp add: claim_for_token_def group_claims_def bt_get_fold_group bt.get_empty)

lemma claim_for_token_Some_iff:
  "claim_for_token claims t = Some c \<longleftrightarrow>
    (\<exists>p e es. entries_of t claims = (p, e) # es \<and>
       c = \<lparr>pc_token = t, pc_agent_id = ce_agent_id e, pc_paths = p # map fst es\<rparr>)"
  by (auto simp: claim_for_token_eq claim_of_entries_def split: list.splits)

lemma claim_for_token_None_iff: "claim_for_token claims t = None \<longleftrightarrow> t \<notin> ce_token ` snd ` set claims"
proof -
  have "claim_for_token claims t = None \<longleftrightarrow> entries_of t claims = []"
    by (auto simp: claim_for_token_eq claim_of_entries_def split: list.splits)
  also have "\<dots> \<longleftrightarrow> t \<notin> ce_token ` snd ` set claims"
    by (force simp: entries_of_def filter_empty_conv)
  finally show ?thesis .
qed

lemma claim_for_token_SomeD:
  assumes "claim_for_token claims t = Some c"
  shows "pc_token c = t" and "set (pc_paths c) = {p. \<exists>e. (p, e) \<in> set claims \<and> ce_token e = t}"
    and "\<exists>p e. (p, e) \<in> set claims \<and> ce_token e = t \<and> pc_agent_id c = ce_agent_id e"
    and "pc_paths c \<noteq> []"
proof -
  obtain p e es where es: "entries_of t claims = (p, e) # es"
    and c: "c = \<lparr>pc_token = t, pc_agent_id = ce_agent_id e, pc_paths = p # map fst es\<rparr>"
    using assms by (auto simp: claim_for_token_Some_iff)
  have "set ((p, e) # es) = {(p, e). (p, e) \<in> set claims \<and> ce_token e = t}"
    unfolding es [symmetric] by (auto simp: entries_of_def)
  then have mem: "(q, f) \<in> set ((p, e) # es) \<longleftrightarrow> (q, f) \<in> set claims \<and> ce_token f = t" for q f
    by blast
  show "pc_token c = t" and "pc_paths c \<noteq> []" by (simp_all add: c)
  have "set (pc_paths c) = fst ` set ((p, e) # es)" by (simp add: c)
  also have "\<dots> = {p. \<exists>e. (p, e) \<in> set claims \<and> ce_token e = t}"
    using mem by (force simp del: list.set)
  finally show "set (pc_paths c) = {p. \<exists>e. (p, e) \<in> set claims \<and> ce_token e = t}" .
  show "\<exists>p e. (p, e) \<in> set claims \<and> ce_token e = t \<and> pc_agent_id c = ce_agent_id e"
    using mem [of p e] by (auto simp: c)
qed

lemma claim_for_token_cong:
  "entries_of t claims = entries_of t claims' \<Longrightarrow> claim_for_token claims t = claim_for_token claims' t"
  by (simp add: claim_for_token_eq)

section \<open>Conflict detection and insertion\<close>

lemma find_conflict_None_iff:
  "find_conflict claims p = None \<longleftrightarrow> (\<forall>(q, e) \<in> set claims. \<not> paths_overlap q p)"
  by (auto simp: find_conflict_def find_None_iff)

lemma check_conflicts_Inr_iff:
  "check_conflicts claims ps = Inr () \<longleftrightarrow>
    (\<forall>p \<in> set ps. \<forall>(q, e) \<in> set claims. \<not> paths_overlap q p)"
proof (induction ps)
  case Nil
  then show ?case by simp
next
  case (Cons p ps)
  show ?case
  proof (cases "find_conflict claims p")
    case None
    then have "\<forall>(q, e) \<in> set claims. \<not> paths_overlap q p"
      by (simp add: find_conflict_None_iff)
    with None show ?thesis by (simp add: Cons.IH del: split_paired_All)
  next
    case (Some pe)
    then have "\<not> (\<forall>(q, e) \<in> set claims. \<not> paths_overlap q p)"
      using find_conflict_None_iff [of claims p] by simp
    with Some show ?thesis by (auto split: prod.splits)
  qed
qed

lemma check_conflicts_InlD:
  assumes "check_conflicts claims ps = Inl e"
  obtains p q f where "p \<in> set ps" and "(q, f) \<in> set claims" and "paths_overlap q p"
    and "e = Conflict q (ce_agent_id f)"
  using assms
proof (induction ps arbitrary: thesis)
  case Nil
  then show ?case by simp
next
  case (Cons p ps)
  show ?case
  proof (cases "find_conflict claims p")
    case None
    with Cons show ?thesis by (metis check_conflicts.simps(2) list.set_intros(2) option.simps(4))
  next
    case (Some qf)
    obtain q f where "qf = (q, f)" by force
    with Some have "(q, f) \<in> set claims" and "paths_overlap q p"
      by (auto simp: find_conflict_def dest: find_SomeD)
    with Some Cons.prems \<open>qf = (q, f)\<close> show ?thesis by auto
  qed
qed

lemma fold_bt_insert_spec:
  "bt_ordered m \<Longrightarrow>
    bt_ordered (fold (\<lambda>p. bt_insert p v) ps m) \<and>
    set (fold (\<lambda>p. bt_insert p v) ps m) = {(k, w) \<in> set m. k \<notin> set ps} \<union> (\<lambda>p. (p, v)) ` set ps"
proof (induction ps arbitrary: m)
  case Nil
  then show ?case by auto
next
  case (Cons p ps)
  then have "bt_ordered (bt_insert p v m)" by (simp add: bt_ordered_insert)
  with Cons show ?case by (auto simp: set_bt_insert)
qed

lemma insert_claim_spec:
  assumes "insert_claim claims t a ps = Inr claims'" and "bt_ordered claims"
  shows "bt_ordered claims'"
    and "set claims' = set claims \<union> (\<lambda>p. (p, \<lparr>ce_token = t, ce_agent_id = a\<rparr>)) ` set ps"
    and "\<And>p q e. p \<in> set ps \<Longrightarrow> (q, e) \<in> set claims \<Longrightarrow> \<not> paths_overlap q p"
proof -
  let ?v = "\<lparr>ce_token = t, ce_agent_id = a\<rparr>"
  have free: "\<forall>p \<in> set ps. \<forall>(q, e) \<in> set claims. \<not> paths_overlap q p"
    and claims': "claims' = fold (\<lambda>p. bt_insert p ?v) ps claims"
    using assms(1) by (auto simp: insert_claim_def result_iffs check_conflicts_Inr_iff)
  show "bt_ordered claims'" using fold_bt_insert_spec [OF assms(2)] by (simp add: claims')
  have "{(k, w) \<in> set claims. k \<notin> set ps} = set claims"
    using free by fastforce
  then show "set claims' = set claims \<union> (\<lambda>p. (p, ?v)) ` set ps"
    using fold_bt_insert_spec [OF assms(2), of ?v ps] by (simp add: claims')
  show "\<And>p q e. p \<in> set ps \<Longrightarrow> (q, e) \<in> set claims \<Longrightarrow> \<not> paths_overlap q p"
    using free by blast
qed

lemma entries_of_insert_other:
  assumes "insert_claim claims t a ps = Inr claims'" and "bt_ordered claims" and "t' \<noteq> t"
  shows "entries_of t' claims' = entries_of t' claims"
  using insert_claim_spec [OF assms(1,2)] assms(2,3)
  by (intro bt_eq_setI) (auto simp: entries_of_def bt_ordered_filter)

lemma claim_for_token_inserted:
  assumes "insert_claim claims t a ps = Inr claims'" and "bt_ordered claims"
    and "t \<notin> ce_token ` snd ` set claims" and "sorted_wrt (<) ps" and "ps \<noteq> []"
  shows "claim_for_token claims' t = Some \<lparr>pc_token = t, pc_agent_id = a, pc_paths = ps\<rparr>"
proof -
  let ?es = "map (\<lambda>p. (p, \<lparr>ce_token = t, ce_agent_id = a\<rparr>)) ps"
  have "bt_ordered ?es" using assms(4) by (simp add: bt_ordered_def comp_def)
  then have "entries_of t claims' = ?es"
    using insert_claim_spec [OF assms(1,2)] assms(2,3)
    by (intro bt_eq_setI) (auto simp: entries_of_def bt_ordered_filter image_iff)
  with assms(5) show ?thesis
    by (cases ps) (simp_all add: claim_for_token_Some_iff comp_def)
qed

section \<open>The coordinator invariant\<close>

definition token_issued :: "u64 \<Rightarrow> claim_token \<Rightarrow> bool" where
  "token_issued next t \<longleftrightarrow> 0 < t \<and> (t < next \<or> next = -1)"

definition claims_wf :: "u64 \<Rightarrow> claim_table \<Rightarrow> bool" where
  "claims_wf next claims \<longleftrightarrow> bt_ordered claims \<and> antichain (fst ` set claims)
     \<and> (\<forall>p e. (p, e) \<in> set claims \<longrightarrow>
          normal_path p \<and> canonical_agent (ce_agent_id e) \<and> token_issued next (ce_token e))
     \<and> (\<forall>p e q f. (p, e) \<in> set claims \<longrightarrow> (q, f) \<in> set claims \<longrightarrow> ce_token e = ce_token f \<longrightarrow>
          ce_agent_id e = ce_agent_id f)"

definition binding_source :: "subordinate_binding \<Rightarrow> claim_token \<times> string \<times> string" where
  "binding_source b = (sb_parent_token b, sb_source_digest b, sb_worker_id b)"

definition binding_wf :: "u64 \<Rightarrow> subordinate_binding \<Rightarrow> bool" where
  "binding_wf next b \<longleftrightarrow> 0 < sb_child_token b \<and> 0 < sb_parent_token b
     \<and> sb_child_token b \<noteq> sb_parent_token b
     \<and> sb_child_token b < next \<and> sb_parent_token b < next
     \<and> canonical_agent (sb_worker_id b) \<and> canonical_paths (sb_paths b)
     \<and> valid_source_digest (sb_source_digest b)"

definition bindings_wf :: "u64 \<Rightarrow> subordinate_binding list \<Rightarrow> bool" where
  "bindings_wf next bs \<longleftrightarrow> distinct (map sb_child_token bs) \<and> distinct (map binding_source bs)
     \<and> (\<forall>b \<in> set bs. binding_wf next b)"

definition within_parent :: "path_claim \<Rightarrow> string \<Rightarrow> path list \<Rightarrow> bool" where
  "within_parent parent agent ps \<longleftrightarrow> agent \<noteq> pc_agent_id parent
     \<and> (\<forall>p \<in> set ps. \<exists>s \<in> set (pc_paths parent). prefix s p)
     \<and> (\<exists>s \<in> set (pc_paths parent). \<forall>p \<in> set ps. \<not> prefix p s)"

definition child_wf :: "claim_table \<Rightarrow> subordinate_binding list \<Rightarrow> path_claim \<Rightarrow> bool" where
  "child_wf claims bs child \<longleftrightarrow>
     (\<exists>b \<in> set bs. \<exists>parent. sb_child_token b = pc_token child \<and> sb_worker_id b = pc_agent_id child
        \<and> sb_paths b = pc_paths child \<and> claim_for_token claims (sb_parent_token b) = Some parent
        \<and> within_parent parent (pc_agent_id child) (pc_paths child))"

definition claims_apart :: "path_claim \<Rightarrow> path_claim \<Rightarrow> bool" where
  "claims_apart c d \<longleftrightarrow> pc_agent_id c \<noteq> pc_agent_id d
     \<and> (\<forall>p \<in> set (pc_paths c). \<forall>q \<in> set (pc_paths d). \<not> paths_overlap p q)"

definition children_wf ::
  "claim_table \<Rightarrow> subordinate_binding list \<Rightarrow> (claim_token, path_claim) btree_map \<Rightarrow> bool" where
  "children_wf claims bs subs \<longleftrightarrow> bt_ordered subs
     \<and> (\<forall>t c. (t, c) \<in> set subs \<longrightarrow> pc_token c = t \<and> child_wf claims bs c)
     \<and> (\<forall>t c u d. (t, c) \<in> set subs \<longrightarrow> (u, d) \<in> set subs \<longrightarrow> t \<noteq> u \<longrightarrow> claims_apart c d)"

definition bindings_apart :: "claim_table \<Rightarrow> subordinate_binding list \<Rightarrow> bool" where
  "bindings_apart claims bs \<longleftrightarrow> (\<forall>b \<in> set bs. sb_child_token b \<notin> ce_token ` snd ` set claims)"

definition sync_inv :: "inner \<Rightarrow> bool" where
  "sync_inv i \<longleftrightarrow> 0 < in_next_token i \<and> claims_wf (in_next_token i) (in_claims i)
     \<and> bindings_wf (in_next_token i) (in_subordinate_bindings i)
     \<and> bindings_apart (in_claims i) (in_subordinate_bindings i)
     \<and> children_wf (in_claims i) (in_subordinate_bindings i) (in_subordinate_claims i)"

lemma sync_inv_default: "sync_inv default_inner"
  by (simp add: sync_inv_def default_inner_def claims_wf_def bindings_wf_def children_wf_def
      antichain_def bindings_apart_def)

lemma claims_wfD:
  assumes "claims_wf next claims"
  shows "bt_ordered claims"
    and "antichain (fst ` set claims)"
    and "\<And>p e. (p, e) \<in> set claims \<Longrightarrow>
      normal_path p \<and> canonical_agent (ce_agent_id e) \<and> token_issued next (ce_token e)"
    and "\<And>p e q f. (p, e) \<in> set claims \<Longrightarrow> (q, f) \<in> set claims \<Longrightarrow> ce_token e = ce_token f \<Longrightarrow>
      ce_agent_id e = ce_agent_id f"
  using assms unfolding claims_wf_def by blast+

lemma token_issued_mono: "token_issued n t \<Longrightarrow> n \<le> m \<Longrightarrow> token_issued m t"
  by (auto simp: token_issued_def word_order.extremum_unique)

lemma token_issued_below: "token_issued n t \<Longrightarrow> n < m \<Longrightarrow> t < n"
  by (auto simp: token_issued_def)

lemma claims_wf_mono: "claims_wf n claims \<Longrightarrow> n \<le> m \<Longrightarrow> claims_wf m claims"
  unfolding claims_wf_def by (meson token_issued_mono)

lemma bindings_wf_mono: "bindings_wf n bs \<Longrightarrow> n \<le> m \<Longrightarrow> bindings_wf m bs"
  unfolding bindings_wf_def binding_wf_def by (meson less_le_trans)

lemma child_wf_cong:
  assumes "child_wf claims bs c"
    and "\<And>b. b \<in> set bs \<Longrightarrow> sb_child_token b = pc_token c \<Longrightarrow>
      claim_for_token claims' (sb_parent_token b) = claim_for_token claims (sb_parent_token b)"
  shows "child_wf claims' bs c"
  using assms unfolding child_wf_def by metis

lemma children_wfD:
  assumes "children_wf claims bs subs"
  shows "bt_ordered subs"
    and "\<And>t c. (t, c) \<in> set subs \<Longrightarrow> pc_token c = t"
    and "\<And>t c. (t, c) \<in> set subs \<Longrightarrow> child_wf claims bs c"
    and "\<And>t c u d. (t, c) \<in> set subs \<Longrightarrow> (u, d) \<in> set subs \<Longrightarrow> t \<noteq> u \<Longrightarrow> claims_apart c d"
  using assms unfolding children_wf_def by blast+

lemma children_wf_claims_cong:
  assumes "children_wf claims bs subs"
    and "\<And>b t c. b \<in> set bs \<Longrightarrow> (t, c) \<in> set subs \<Longrightarrow> sb_child_token b = t \<Longrightarrow>
      claim_for_token claims' (sb_parent_token b) = claim_for_token claims (sb_parent_token b)"
  shows "children_wf claims' bs subs"
  unfolding children_wf_def
proof (intro conjI allI impI)
  note old = children_wfD [OF assms(1)]
  show "bt_ordered subs" by (rule old)
  fix t c assume tc: "(t, c) \<in> set subs"
  show t: "pc_token c = t" using tc by (rule old)
  show "child_wf claims' bs c"
  proof (rule child_wf_cong)
    show "child_wf claims bs c" using tc by (rule old)
    fix b assume "b \<in> set bs" and "sb_child_token b = pc_token c"
    with tc t show "claim_for_token claims' (sb_parent_token b) =
        claim_for_token claims (sb_parent_token b)"
      by (intro assms(2)) simp_all
  qed
  fix u d assume "(u, d) \<in> set subs" and "t \<noteq> u"
  with tc show "claims_apart c d" by (rule old)
qed

lemma children_wf_subset:
  assumes "children_wf claims bs subs" and "bt_ordered subs'" and "set subs' \<subseteq> set subs"
  shows "children_wf claims bs subs'"
  using assms unfolding children_wf_def by blast

lemma children_wf_insert:
  assumes "children_wf claims bs subs" and "child_wf claims bs c"
    and "\<And>t d. (t, d) \<in> set subs \<Longrightarrow> claims_apart c d \<and> claims_apart d c"
    and "pc_token c \<notin> fst ` set subs"
  shows "children_wf claims bs (bt_insert (pc_token c) c subs)"
proof -
  note old = children_wfD [OF assms(1)]
  have "set (bt_insert (pc_token c) c subs) = insert (pc_token c, c) (set subs)"
    using assms(4) by (force simp: set_bt_insert [OF old(1)])
  then show ?thesis
    using assms(2,3) old unfolding children_wf_def
    by (auto simp: bt_ordered_insert)
qed

lemma child_parentE:
  assumes "sync_inv i" and "(t, c) \<in> set (in_subordinate_claims i)"
  obtains b parent where "b \<in> set (in_subordinate_bindings i)" and "sb_child_token b = t"
    and "claim_for_token (in_claims i) (sb_parent_token b) = Some parent"
    and "within_parent parent (pc_agent_id c) (pc_paths c)"
proof -
  have wf: "children_wf (in_claims i) (in_subordinate_bindings i) (in_subordinate_claims i)"
    using assms(1) by (simp add: sync_inv_def)
  have "pc_token c = t" and "child_wf (in_claims i) (in_subordinate_bindings i) c"
    using assms(2) by (rule children_wfD [OF wf])+
  with that show ?thesis unfolding child_wf_def by blast
qed

section \<open>Operations preserve the invariant\<close>

lemma insert_claim_wf:
  assumes wf: "claims_wf next claims" and ins: "insert_claim claims t a ps = Inr claims'"
    and a: "canonical_agent a" and ps: "canonical_paths ps"
    and t: "t \<notin> ce_token ` snd ` set claims" "token_issued next' t" and n: "next \<le> next'"
  shows "claims_wf next' claims'"
proof -
  note old = claims_wfD [OF wf]
  note spec = insert_claim_spec [OF ins old(1)]
  let ?v = "\<lparr>ce_token = t, ce_agent_id = a\<rparr>"
  have split: "(p, e) \<in> set claims \<or> p \<in> set ps \<and> e = ?v" if "(p, e) \<in> set claims'" for p e
    using that unfolding spec(2) by auto
  have keys: "fst ` set claims' = fst ` set claims \<union> set ps"
    unfolding spec(2) by (simp add: image_Un image_image)
  have other: "ce_token e \<noteq> t" if "(p, e) \<in> set claims" for p e
    using t(1) that by force
  show ?thesis
    unfolding claims_wf_def
  proof (intro conjI [OF spec(1)] conjI allI impI)
    show "antichain (fst ` set claims')"
      unfolding keys antichain_def
    proof (intro ballI impI)
      fix p q assume pq: "p \<in> fst ` set claims \<union> set ps" "q \<in> fst ` set claims \<union> set ps" "p \<noteq> q"
      have free: "\<not> paths_overlap x y" if "x \<in> fst ` set claims" "y \<in> set ps" for x y
        using that spec(3) by force
      have "antichain (set ps)" using ps by (simp add: canonical_paths_def)
      with pq free old(2) show "\<not> paths_overlap p q"
        unfolding antichain_def by (metis Un_iff paths_overlap_sym)
    qed
    fix p e assume pe: "(p, e) \<in> set claims'"
    have "\<forall>x \<in> set ps. normal_path x" using ps by (simp add: canonical_paths_def)
    with split [OF pe] old(3) [of p e] a t(2) token_issued_mono [OF _ n, of "ce_token e"]
    show "normal_path p" "canonical_agent (ce_agent_id e)" "token_issued next' (ce_token e)"
      by auto
    fix q f assume qf: "(q, f) \<in> set claims'" and tok: "ce_token e = ce_token f"
    from split [OF pe] split [OF qf] show "ce_agent_id e = ce_agent_id f"
      using other [of p e] other [of q f] old(4) [of p e q f] tok by auto
  qed
qed

lemma claim_locked_inv:
  assumes inv: "sync_inv i" and a: "canonical_agent a" and ps: "canonical_paths ps"
  shows "sync_inv (snd (claim_locked a ps i))"
proof (cases "checked_add (in_next_token i) 1")
  case None
  with inv show ?thesis by (simp add: claim_locked_def)
next
  case (Some next')
  let ?n = "in_next_token i"
  have n': "?n < next'" using checked_add_one_Some [OF Some] by simp
  have n: "0 < ?n" and cwf: "claims_wf ?n (in_claims i)"
    and bwf: "bindings_wf next' (in_subordinate_bindings i)"
    and chwf: "children_wf (in_claims i) (in_subordinate_bindings i) (in_subordinate_claims i)"
    using inv n' by (auto simp: sync_inv_def intro: bindings_wf_mono order.strict_implies_order)
  have n0: "0 < next'" using n n' by (rule less_trans)
  show ?thesis
  proof (cases "insert_claim (in_claims i) ?n a ps")
    case (Inl e)
    with Some n0 cwf bwf chwf n' inv show ?thesis
      by (auto simp: claim_locked_def Let_def sync_inv_def
          intro: claims_wf_mono order.strict_implies_order)
  next
    case (Inr claims')
    have ord: "bt_ordered (in_claims i)" using cwf by (simp add: claims_wf_def)
    have "children_wf claims' (in_subordinate_bindings i) (in_subordinate_claims i)"
    proof (rule children_wf_claims_cong [OF chwf])
      fix b t c assume "b \<in> set (in_subordinate_bindings i)"
      then have "sb_parent_token b \<noteq> ?n"
        using inv by (auto simp: sync_inv_def bindings_wf_def binding_wf_def)
      then show "claim_for_token claims' (sb_parent_token b) =
          claim_for_token (in_claims i) (sb_parent_token b)"
        by (intro claim_for_token_cong entries_of_insert_other [OF Inr ord])
    qed
    moreover have "bindings_apart claims' (in_subordinate_bindings i)"
      unfolding bindings_apart_def insert_claim_spec(2) [OF Inr ord]
    proof
      fix b assume b: "b \<in> set (in_subordinate_bindings i)"
      then have "sb_child_token b \<noteq> ?n"
        using inv by (auto simp: sync_inv_def bindings_wf_def binding_wf_def)
      moreover have "sb_child_token b \<notin> ce_token ` snd ` set (in_claims i)"
        using b inv by (auto simp: sync_inv_def bindings_apart_def)
      ultimately show "sb_child_token b \<notin> ce_token ` snd ` (set (in_claims i) \<union>
          (\<lambda>p. (p, \<lparr>ce_token = ?n, ce_agent_id = a\<rparr>)) ` set ps)"
        by (auto simp: image_iff)
    qed
    moreover have "claims_wf next' claims'"
    proof (rule insert_claim_wf [OF cwf Inr a ps])
      show "?n \<notin> ce_token ` snd ` set (in_claims i)"
        using claims_wfD(3) [OF cwf] token_issued_below [OF _ n'] by force
    qed (use n n' in \<open>auto simp: token_issued_def\<close>)
    ultimately show ?thesis
      using Some Inr n0 bwf
      by (simp add: claim_locked_def Let_def sync_inv_def)
  qed
qed

lemma validate_subordinate_scope_Inr_iff:
  "validate_subordinate_scope i parent w ps = Inr () \<longleftrightarrow>
    canonical_agent w \<and> canonical_paths ps \<and> within_parent parent w ps
    \<and> (\<forall>(t, c) \<in> set (in_subordinate_claims i). pc_agent_id c \<noteq> w
         \<and> (\<forall>p \<in> set (pc_paths c). \<forall>q \<in> set ps. \<not> paths_overlap p q))
    \<and> (\<forall>(p, e) \<in> set (in_claims i). ce_agent_id e \<noteq> w)"
proof (cases "canonical_agent w \<and> canonical_paths ps")
  case True
  then have "normalize_agent_id w = Inr w" and "normalize_claim_paths ps = Inr ps" and "ps \<noteq> []"
    by (simp_all add: canonical_agent_def normalize_claim_paths_fixed canonical_paths_def)
  then show ?thesis
    by (simp add: validate_subordinate_scope_def within_parent_def starts_with_def True
        list_all_iff list_ex_iff case_prod_unfold)
next
  case False
  then have "normalize_agent_id w \<noteq> Inr w \<or> normalize_claim_paths ps \<noteq> Inr ps"
    by (simp add: canonical_agent_def normalize_claim_paths_fixed)
  then have "validate_subordinate_scope i parent w ps \<noteq> Inr ()"
    by (auto simp: validate_subordinate_scope_def and_then_def split: sum.splits if_splits)
  with False show ?thesis by blast
qed

lemma validate_subordinate_scope_InrD:
  assumes "validate_subordinate_scope i parent w ps = Inr ()"
  shows "canonical_agent w" and "canonical_paths ps" and "within_parent parent w ps"
    and "\<And>t c. (t, c) \<in> set (in_subordinate_claims i) \<Longrightarrow>
      pc_agent_id c \<noteq> w \<and> (\<forall>p \<in> set (pc_paths c). \<forall>q \<in> set ps. \<not> paths_overlap p q)"
    and "\<And>p e. (p, e) \<in> set (in_claims i) \<Longrightarrow> ce_agent_id e \<noteq> w"
  using assms unfolding validate_subordinate_scope_Inr_iff by blast+

lemma subordinate_locked_InrE:
  assumes "subordinate_locked parent w ps digest i = (Inr c, i')"
  obtains next' where "checked_add (in_next_token i) 1 = Some next'"
    and "claim_for_token (in_claims i) (pc_token parent) = Some parent"
    and "validate_subordinate_scope i parent w ps = Inr ()" and "valid_source_digest digest"
    and "\<forall>b \<in> set (in_subordinate_bindings i). binding_source b \<noteq> (pc_token parent, digest, w)"
    and "c = \<lparr>pc_token = in_next_token i, pc_agent_id = w, pc_paths = ps\<rparr>"
    and "i' = i\<lparr>in_next_token := next',
       in_subordinate_claims := bt_insert (in_next_token i) c (in_subordinate_claims i),
       in_subordinate_bindings := in_subordinate_bindings i @
         [\<lparr>sb_child_token = in_next_token i, sb_parent_token = pc_token parent,
           sb_source_digest = digest, sb_worker_id = w, sb_paths = ps\<rparr>]\<rparr>"
  using assms
  by (auto simp: subordinate_locked_def Let_def list_ex_iff binding_source_def
      split: if_splits sum.splits option.splits)

lemma subordinate_locked_Inl: "subordinate_locked parent w ps digest i = (Inl e, i') \<Longrightarrow> i' = i"
  by (auto simp: subordinate_locked_def Let_def split: if_splits sum.splits option.splits)

lemma child_wf_append: "child_wf claims bs c \<Longrightarrow> child_wf claims (bs @ bs') c"
  unfolding child_wf_def by auto

lemma child_token_less:
  assumes "sync_inv i" and "(t, c) \<in> set (in_subordinate_claims i)"
  shows "0 < t" and "t < in_next_token i"
proof -
  obtain b where "b \<in> set (in_subordinate_bindings i)" "sb_child_token b = t"
    using child_parentE [OF assms] by metis
  then show "0 < t" "t < in_next_token i"
    using assms(1) by (auto simp: sync_inv_def bindings_wf_def binding_wf_def)
qed

lemma parent_token_issued:
  assumes "sync_inv i" and "claim_for_token (in_claims i) t = Some c"
  shows "token_issued (in_next_token i) t"
proof -
  obtain p e where pe: "(p, e) \<in> set (in_claims i)" "ce_token e = t"
    using claim_for_token_SomeD(3) [OF assms(2)] by blast
  have "claims_wf (in_next_token i) (in_claims i)" using assms(1) by (simp add: sync_inv_def)
  from claims_wfD(3) [OF this pe(1)] pe(2) show ?thesis by simp
qed

lemma subordinate_locked_inv:
  assumes inv: "sync_inv i" and r: "subordinate_locked parent w ps digest i = (Inr c, i')"
  shows "sync_inv i'"
proof -
  let ?n = "in_next_token i"
  from r obtain next' where add: "checked_add ?n 1 = Some next'"
    and parent: "claim_for_token (in_claims i) (pc_token parent) = Some parent"
    and val: "validate_subordinate_scope i parent w ps = Inr ()" and dig: "valid_source_digest digest"
    and fresh: "\<forall>b \<in> set (in_subordinate_bindings i). binding_source b \<noteq> (pc_token parent, digest, w)"
    and c: "c = \<lparr>pc_token = ?n, pc_agent_id = w, pc_paths = ps\<rparr>"
    and i': "i' = i\<lparr>in_next_token := next',
       in_subordinate_claims := bt_insert ?n c (in_subordinate_claims i),
       in_subordinate_bindings := in_subordinate_bindings i @
         [\<lparr>sb_child_token = ?n, sb_parent_token = pc_token parent,
           sb_source_digest = digest, sb_worker_id = w, sb_paths = ps\<rparr>]\<rparr>"
    by (rule subordinate_locked_InrE)
  let ?b = "\<lparr>sb_child_token = ?n, sb_parent_token = pc_token parent,
      sb_source_digest = digest, sb_worker_id = w, sb_paths = ps\<rparr>"
  have n': "?n < next'" using checked_add_one_Some [OF add] by simp
  have n: "0 < ?n" and cwf: "claims_wf ?n (in_claims i)"
    and bwf: "bindings_wf ?n (in_subordinate_bindings i)"
    and chwf: "children_wf (in_claims i) (in_subordinate_bindings i) (in_subordinate_claims i)"
    using inv by (auto simp: sync_inv_def)
  note v = validate_subordinate_scope_InrD [OF val]
  note old = children_wfD [OF chwf]
  have pt: "0 < pc_token parent" "pc_token parent < ?n" 
    using parent_token_issued [OF inv parent] token_issued_below [OF _ n']
    by (auto simp: token_issued_def)
  have bwf': "bindings_wf next' (in_subordinate_bindings i @ [?b])"
  proof -
    have "?n \<notin> sb_child_token ` set (in_subordinate_bindings i)"
      using bwf by (force simp: bindings_wf_def binding_wf_def)
    moreover have "binding_wf next' ?b"
      using n n' pt v dig less_trans [OF pt(2) n'] by (auto simp: binding_wf_def)
    moreover have "bindings_wf next' (in_subordinate_bindings i)"
      using bwf n' by (blast intro: bindings_wf_mono order.strict_implies_order)
    ultimately show ?thesis using fresh by (force simp: bindings_wf_def binding_source_def)
  qed
  have subs: "set (bt_insert ?n c (in_subordinate_claims i)) =
      insert (?n, c) (set (in_subordinate_claims i))"
    using child_token_less [OF inv] by (force simp: set_bt_insert [OF old(1)])
  have "?n \<notin> ce_token ` snd ` set (in_claims i)"
    using claims_wfD(3) [OF cwf] token_issued_below [OF _ n'] by force
  then have apart: "bindings_apart (in_claims i) (in_subordinate_bindings i @ [?b])"
    using inv by (simp add: sync_inv_def bindings_apart_def)
  have "child_wf (in_claims i) (in_subordinate_bindings i @ [?b]) c"
    using parent v(3) by (auto simp: child_wf_def c)
  moreover have "claims_apart c d \<and> claims_apart d c" if "(t, d) \<in> set (in_subordinate_claims i)" for t d
    using v(4) [OF that] by (auto simp: claims_apart_def c dest: paths_overlap_sym [THEN iffD1])
  ultimately have "children_wf (in_claims i) (in_subordinate_bindings i @ [?b])
      (bt_insert ?n c (in_subordinate_claims i))"
    unfolding children_wf_def subs using old
    by (auto simp: bt_ordered_insert c intro: child_wf_append)
  with n n' cwf bwf' apart show ?thesis
    using claims_wf_mono [OF cwf order.strict_implies_order [OF n']] less_trans [OF n n']
    by (simp add: sync_inv_def i')
qed

lemma claims_wf_subset:
  assumes "claims_wf next claims" and "bt_ordered claims'" and "set claims' \<subseteq> set claims"
  shows "claims_wf next claims'"
proof -
  show ?thesis
    unfolding claims_wf_def
  proof (intro conjI [OF assms(2)] conjI allI impI)
    show "antichain (fst ` set claims')"
      by (rule antichain_subset [OF claims_wfD(2) [OF assms(1)] image_mono [OF assms(3)]])
    fix p e assume "(p, e) \<in> set claims'"
    then have pe: "(p, e) \<in> set claims" using assms(3) by blast
    from claims_wfD(3) [OF assms(1) this]
    show "normal_path p" "canonical_agent (ce_agent_id e)" "token_issued next (ce_token e)"
      by simp_all
    fix q f assume "(q, f) \<in> set claims'" and "ce_token e = ce_token f"
    with assms(3) show "ce_agent_id e = ce_agent_id f"
      by (intro claims_wfD(4) [OF assms(1) pe]) auto
  qed
qed

lemma sync_invD:
  assumes "sync_inv i"
  shows "0 < in_next_token i" and "claims_wf (in_next_token i) (in_claims i)"
    and "bindings_wf (in_next_token i) (in_subordinate_bindings i)"
    and "children_wf (in_claims i) (in_subordinate_bindings i) (in_subordinate_claims i)"
    and "bt_ordered (in_claims i)" and "bt_ordered (in_subordinate_claims i)"
    and "bindings_apart (in_claims i) (in_subordinate_bindings i)"
  using assms claims_wfD(1) children_wfD(1) unfolding sync_inv_def by blast+

lemma sync_inv_restrict:
  assumes inv: "sync_inv i"
    and claims: "bt_ordered claims'" "set claims' \<subseteq> set (in_claims i)"
    and subs: "bt_ordered subs'" "set subs' \<subseteq> set (in_subordinate_claims i)"
    and parents: "\<And>b t c. b \<in> set (in_subordinate_bindings i) \<Longrightarrow> (t, c) \<in> set subs' \<Longrightarrow>
      sb_child_token b = t \<Longrightarrow> claim_for_token claims' (sb_parent_token b) =
        claim_for_token (in_claims i) (sb_parent_token b)"
  shows "sync_inv (i\<lparr>in_claims := claims', in_subordinate_claims := subs'\<rparr>)"
proof -
  have chwf: "children_wf (in_claims i) (in_subordinate_bindings i) subs'"
    by (rule children_wf_subset [OF sync_invD(4) [OF inv] subs])
  have "children_wf claims' (in_subordinate_bindings i) subs'"
    by (intro children_wf_claims_cong [OF chwf] parents)
  moreover have "bindings_apart claims' (in_subordinate_bindings i)"
    using sync_invD(7) [OF inv] claims(2) unfolding bindings_apart_def by blast
  ultimately show ?thesis
    using claims_wf_subset [OF sync_invD(2) [OF inv] claims] sync_invD [OF inv]
    by (simp add: sync_inv_def)
qed

lemma release_locked_inv:
  assumes inv: "sync_inv i"
  shows "sync_inv (snd (release_locked token i))"
proof (cases "\<exists>b \<in> set (in_subordinate_bindings i). sb_parent_token b = token
    \<and> bt_get (in_subordinate_claims i) (sb_child_token b) \<noteq> None")
  case True
  with inv show ?thesis by (simp add: release_locked_def list_ex_iff)
next
  case False
  note i = sync_invD [OF inv]
  have parent: "sb_parent_token b \<noteq> token"
    if "b \<in> set (in_subordinate_bindings i)" "(sb_child_token b, c) \<in> set (in_subordinate_claims i)"
    for b c
    using False that bt_get_Some_mem [OF i(6) that(2)] by fastforce
  have "sync_inv (i\<lparr>in_claims := in_claims i,
      in_subordinate_claims := bt_remove token (in_subordinate_claims i)\<rparr>)"
    by (rule sync_inv_restrict [OF inv])
      (auto simp: i bt_remove_def bt_ordered_retain set_bt_retain)
  moreover have "sync_inv (i\<lparr>in_claims := bt_retain (\<lambda>_ entry. ce_token entry \<noteq> token) (in_claims i),
      in_subordinate_claims := in_subordinate_claims i\<rparr>)"
  proof (rule sync_inv_restrict [OF inv])
    fix b t c assume "b \<in> set (in_subordinate_bindings i)" "(t, c) \<in> set (in_subordinate_claims i)"
      "sb_child_token b = t"
    then have "sb_parent_token b \<noteq> token" using parent by blast
    then show "claim_for_token (bt_retain (\<lambda>_ entry. ce_token entry \<noteq> token) (in_claims i))
        (sb_parent_token b) = claim_for_token (in_claims i) (sb_parent_token b)"
      by (intro claim_for_token_cong)
        (auto simp: entries_of_def bt_retain_def intro!: filter_cong)
  qed (auto simp: i bt_ordered_retain set_bt_retain)
  ultimately show ?thesis
    using inv False by (auto simp: release_locked_def list_ex_iff split: option.splits)
qed

lemma release_by_agent_locked_inv:
  assumes inv: "sync_inv i"
  shows "sync_inv (snd (release_by_agent_locked a i))"
proof (cases "\<exists>b \<in> set (in_subordinate_bindings i).
    (\<exists>p e. (p, e) \<in> set (in_claims i) \<and> ce_agent_id e = a \<and> sb_parent_token b = ce_token e)
    \<and> bt_get (in_subordinate_claims i) (sb_child_token b) \<noteq> None")
  case True
  then have "snd (release_by_agent_locked a i) = i"
    by (fastforce simp: release_by_agent_locked_def Let_def list_ex_iff)
  with inv show ?thesis by simp
next
  case False
  note i = sync_invD [OF inv]
  let ?claims = "bt_retain (\<lambda>_ entry. ce_agent_id entry \<noteq> a) (in_claims i)"
  let ?subs = "bt_retain (\<lambda>_ claim. pc_agent_id claim \<noteq> a) (in_subordinate_claims i)"
  have "snd (release_by_agent_locked a i) = i\<lparr>in_claims := ?claims, in_subordinate_claims := ?subs\<rparr>"
    using False by (fastforce simp: release_by_agent_locked_def Let_def list_ex_iff)
  moreover have "sync_inv (i\<lparr>in_claims := ?claims, in_subordinate_claims := ?subs\<rparr>)"
  proof (rule sync_inv_restrict [OF inv])
    fix b t c assume b: "b \<in> set (in_subordinate_bindings i)" "(t, c) \<in> set ?subs"
      "sb_child_token b = t"
    then have "(sb_child_token b, c) \<in> set (in_subordinate_claims i)" by (simp add: set_bt_retain)
    from bt_get_Some_mem [OF i(6) this]
    have "ce_agent_id e \<noteq> a" if "(p, e) \<in> set (in_claims i)" "ce_token e = sb_parent_token b" for p e
      using False b(1) that by fastforce
    then show "claim_for_token ?claims (sb_parent_token b) =
        claim_for_token (in_claims i) (sb_parent_token b)"
      by (intro claim_for_token_cong)
        (auto simp: entries_of_def bt_retain_def intro!: filter_cong)
  qed (auto simp: i bt_ordered_retain set_bt_retain)
  ultimately show ?thesis by simp
qed

section \<open>Who may write\<close>

lemma claim_unique:
  assumes "sync_inv i" and "(p, e) \<in> set (in_claims i)" and "(q, f) \<in> set (in_claims i)"
    and "paths_overlap p q"
  shows "p = q \<and> e = f"
proof -
  note wf = claims_wfD [OF sync_invD(2) [OF assms(1)]]
  have "p \<in> fst ` set (in_claims i)" "q \<in> fst ` set (in_claims i)"
    using assms(2,3) by force+
  with wf(2) assms(4) have "p = q" unfolding antichain_def by blast
  with assms(2,3) show ?thesis
    using eq_key_imp_eq_value [OF bt_ordered_distinct [OF wf(1)]] by metis
qed

lemma child_unique:
  assumes "sync_inv i" and "(t, c) \<in> set (in_subordinate_claims i)"
    and "(u, d) \<in> set (in_subordinate_claims i)"
    and "p \<in> set (pc_paths c)" and "q \<in> set (pc_paths d)" and "paths_overlap p q"
  shows "t = u \<and> c = d"
proof -
  note wf = children_wfD [OF sync_invD(4) [OF assms(1)]]
  have "t = u" using wf(4) [OF assms(2,3)] assms(4-6) unfolding claims_apart_def by blast
  with assms(2,3) show ?thesis
    using eq_key_imp_eq_value [OF bt_ordered_distinct [OF wf(1)]] by metis
qed

lemma find_unique:
  assumes "x \<in> set xs" and "P x" and "\<And>y. y \<in> set xs \<Longrightarrow> P y \<Longrightarrow> y = x"
  shows "List.find P xs = Some x"
  using assms by (metis find_NoneD find_SomeD not_None_eq)

lemma find_entry_unique:
  assumes "(k, x) \<in> set m" and "P k x"
    and "\<And>l y. (l, y) \<in> set m \<Longrightarrow> P l y \<Longrightarrow> l = k \<and> y = x"
  shows "List.find (\<lambda>(k, x). P k x) m = Some (k, x)"
proof (rule find_unique)
  fix z assume z: "z \<in> set m" "case z of (k, x) \<Rightarrow> P k x"
  obtain l y where ly: "z = (l, y)" by force
  with z have "(l, y) \<in> set m" and "P l y" by simp_all
  then show "z = (k, x)" using assms(3) unfolding ly by blast
qed (use assms(1,2) in simp_all)

lemma child_only:
  assumes "sync_inv i" and "(t, c) \<in> set (in_subordinate_claims i)" and "s \<in> set (pc_paths c)"
    and "prefix s p" and "(u, d) \<in> set (in_subordinate_claims i)"
    and "\<exists>r \<in> set (pc_paths d). paths_overlap p r"
  shows "u = t \<and> d = c"
proof -
  obtain r where r: "r \<in> set (pc_paths d)" "paths_overlap p r" using assms(6) by blast
  have "paths_overlap s r" using overlap_below [OF assms(4) r(2)] .
  with child_unique [OF assms(1,2,5,3) r(1)] show ?thesis by simp
qed

lemma child_found:
  assumes "sync_inv i" and "(t, c) \<in> set (in_subordinate_claims i)" and "s \<in> set (pc_paths c)"
    and "prefix s p"
  shows "List.find (\<lambda>(_, claim). list_ex (\<lambda>scope. paths_overlap p scope) (pc_paths claim))
      (in_subordinate_claims i) = Some (t, c)"
    and "List.find (\<lambda>(_, claim). list_ex (\<lambda>scope. path_is_covered_by_claim p scope) (pc_paths claim))
      (in_subordinate_claims i) = Some (t, c)"
proof -
  note only = child_only [OF assms]
  have "paths_overlap p s" using assms(4) by (simp add: overlap_iff_prefix)
  with assms(3) show "List.find (\<lambda>(_, claim). list_ex (\<lambda>scope. paths_overlap p scope) (pc_paths claim))
      (in_subordinate_claims i) = Some (t, c)"
    by (intro find_entry_unique [OF assms(2)] only) (auto simp: list_ex_iff)
  have "\<exists>r \<in> set (pc_paths d). paths_overlap p r"
    if "list_ex (\<lambda>scope. path_is_covered_by_claim p scope) (pc_paths d)" for d
    using that by (auto simp: list_ex_iff covered_iff_prefix overlap_iff_prefix)
  with assms(3,4)
  show "List.find (\<lambda>(_, claim). list_ex (\<lambda>scope. path_is_covered_by_claim p scope) (pc_paths claim))
      (in_subordinate_claims i) = Some (t, c)"
    by (intro find_entry_unique [OF assms(2)] only) (auto simp: list_ex_iff covered_iff_prefix)
qed

text \<open>Writing is decided by the Worker claim that covers the path, or else by the ordinary claim
  that covers it, provided no Worker claim overlaps it.\<close>

lemma may_write_in_iff:
  assumes "sync_inv i"
  shows "may_write_in i a p \<longleftrightarrow>
    (\<exists>(t, c) \<in> set (in_subordinate_claims i). pc_agent_id c = a \<and> (\<exists>s \<in> set (pc_paths c). prefix s p))
    \<or> (\<forall>(t, c) \<in> set (in_subordinate_claims i). \<forall>s \<in> set (pc_paths c). \<not> paths_overlap p s)
      \<and> (\<exists>(s, e) \<in> set (in_claims i). ce_agent_id e = a \<and> prefix s p)"
    (is "_ \<longleftrightarrow> ?child \<or> ?free \<and> ?own")
proof (cases "List.find (\<lambda>(_, claim). list_ex (\<lambda>scope. paths_overlap p scope) (pc_paths claim))
      (in_subordinate_claims i)")
  case None
  have free: ?free using find_NoneD [OF None] by (auto simp: list_ex_iff)
  then have "\<not> ?child" by (auto simp: overlap_iff_prefix)
  with None free show ?thesis
    by (auto simp: may_write_in_def list_ex_iff covered_iff_prefix)
next
  case (Some tc)
  obtain t c where tc: "tc = (t, c)" by force
  have mem: "(t, c) \<in> set (in_subordinate_claims i)" and ov: "\<exists>s \<in> set (pc_paths c). paths_overlap p s"
    using find_SomeD [OF Some] by (auto simp: tc list_ex_iff)
  then have not_free: "\<not> ?free" by auto
  have "?child \<longleftrightarrow> pc_agent_id c = a \<and> (\<exists>s \<in> set (pc_paths c). prefix s p)"
  proof
    assume ?child
    then obtain u d s where d: "(u, d) \<in> set (in_subordinate_claims i)" "pc_agent_id d = a"
      "s \<in> set (pc_paths d)" "prefix s p" by blast
    with child_found(1) [OF assms d(1,3,4)] Some tc
    show "pc_agent_id c = a \<and> (\<exists>s \<in> set (pc_paths c). prefix s p)" by auto
  qed (use mem in auto)
  then have "?child \<or> ?free \<and> ?own \<longleftrightarrow> pc_agent_id c = a \<and> (\<exists>s \<in> set (pc_paths c). prefix s p)"
    using not_free by blast
  then show ?thesis
    by (simp only: may_write_in_def Some tc) (simp add: list_ex_iff covered_iff_prefix)
qed

lemma may_write_owner:
  assumes inv: "sync_inv i" and "may_write_in i a p"
  shows "owner_in i p = Some a"
proof -
  from assms(2) consider
    (child) t c s where "(t, c) \<in> set (in_subordinate_claims i)" "pc_agent_id c = a"
      "s \<in> set (pc_paths c)" "prefix s p"
  | (own) s e where "\<forall>(t, c) \<in> set (in_subordinate_claims i). \<forall>s \<in> set (pc_paths c). \<not> paths_overlap p s"
      "(s, e) \<in> set (in_claims i)" "ce_agent_id e = a" "prefix s p"
    unfolding may_write_in_iff [OF inv] by blast
  then show ?thesis
  proof cases
    case child
    with child_found(2) [OF inv] show ?thesis by (simp add: owner_in_def)
  next
    case own
    have "List.find (\<lambda>(_, claim). list_ex (\<lambda>scope. path_is_covered_by_claim p scope) (pc_paths claim))
      (in_subordinate_claims i) = None"
      using own(1) by (auto simp: find_None_iff list_ex_iff covered_iff_prefix overlap_iff_prefix)
    moreover have "List.find (\<lambda>(claimed, _). path_is_covered_by_claim p claimed) (in_claims i) = Some (s, e)"
      unfolding covered_iff_prefix
    proof (rule find_entry_unique [OF own(2)])
      show "prefix s p" by (rule own)
      fix q f assume "(q, f) \<in> set (in_claims i)" and "prefix q p"
      with own show "q = s \<and> f = e"
        by (intro claim_unique [OF inv] prefix_common_overlap)
    qed
    ultimately show ?thesis using own(3) by (simp add: owner_in_def)
  qed
qed

lemma may_write_exclusive:
  "sync_inv i \<Longrightarrow> may_write_in i a p \<Longrightarrow> may_write_in i b p \<Longrightarrow> a = b"
  by (metis may_write_owner option.inject)

lemma child_may_write:
  "sync_inv i \<Longrightarrow> (t, c) \<in> set (in_subordinate_claims i) \<Longrightarrow> s \<in> set (pc_paths c) \<Longrightarrow> prefix s p \<Longrightarrow>
    may_write_in i (pc_agent_id c) p"
  by (auto simp: may_write_in_iff)

text \<open>Every path of a Worker claim lies under a claimed path, so a request that avoids the claim
  table avoids the Worker claims too.\<close>

lemma child_under_claim:
  assumes "sync_inv i" and "(t, c) \<in> set (in_subordinate_claims i)" and "p \<in> set (pc_paths c)"
  obtains s e where "(s, e) \<in> set (in_claims i)" and "prefix s p"
proof -
  obtain b :: subordinate_binding and parent
    where "claim_for_token (in_claims i) (sb_parent_token b) = Some parent"
      "within_parent parent (pc_agent_id c) (pc_paths c)"
    by (rule child_parentE [OF assms(1,2)]) blast
  with assms(3) that show ?thesis
    unfolding within_parent_def using claim_for_token_SomeD(2) by blast
qed

lemma free_of_children:
  assumes "sync_inv i" and "\<And>q e. (q, e) \<in> set (in_claims i) \<Longrightarrow> \<not> paths_overlap q p"
    and "(t, c) \<in> set (in_subordinate_claims i)" and "s \<in> set (pc_paths c)"
  shows "\<not> paths_overlap s p"
proof -
  obtain q e where "(q, e) \<in> set (in_claims i)" "prefix q s"
    using child_under_claim [OF assms(1,3,4)] .
  with assms(2) overlap_below show ?thesis by blast
qed

end
