(* ===== verification/Claim_Restore.thy ===== *)
theory Claim_Restore
  imports Claim_Safety
begin

text \<open>
  Restoring the coordinator from a stored snapshot (\<^verbatim>\<open>from_snapshot\<close> and
  \<^verbatim>\<open>from_snapshot_with_subordinates\<close> of \<^verbatim>\<open>src/src/sync.rs\<close>): an accepted
  snapshot yields a state that satisfies the invariant, and the snapshot of a state in which no
  agent holds both an ordinary and a Worker claim restores exactly that state.
\<close>

section \<open>Restoring a snapshot establishes the invariant\<close>

definition restored_wf :: "claim_token set \<Rightarrow> claim_table \<times> claim_token list \<times> u64 \<Rightarrow> bool" where
  "restored_wf C st = (case st of (claims, seen, max_token) \<Rightarrow>
     claims_wf (-1) claims \<and> ce_token ` snd ` set claims \<subseteq> set seen
     \<and> (\<forall>t \<in> set seen. t \<le> max_token \<and> t \<notin> C))"

lemma restore_claim_wf:
  assumes "restored_wf C st" and "restore_claim claim st = Inr st'" and "pc_token claim \<notin> C"
  shows "restored_wf C st'"
proof -
  obtain claims seen mx where st: "st = (claims, seen, mx)" by (metis prod_cases3)
  let ?t = "pc_token claim"
  from assms(2) obtain a ps claims' where t: "?t \<noteq> 0" "?t \<notin> set seen"
    and a: "normalize_agent_id (pc_agent_id claim) = Inr a"
    and ps: "normalize_claim_paths (pc_paths claim) = Inr ps"
    and ins: "insert_claim claims ?t a ps = Inr claims'"
    and st': "st' = (claims', ?t # seen, max mx ?t)"
    by (auto simp: restore_claim_def st Let_def result_iffs split: if_splits)
  have wf: "claims_wf (-1) claims" and seen: "ce_token ` snd ` set claims \<subseteq> set seen"
    and le: "\<forall>t \<in> set seen. t \<le> mx \<and> t \<notin> C"
    using assms(1) by (auto simp: restored_wf_def st)
  have "claims_wf (-1) claims'"
    using t seen a ps by (intro insert_claim_wf [OF wf ins])
      (auto simp: token_issued_def word_gt_0 normalize_agent_id_canonical
        normalize_claim_paths_canonical)
  moreover have "ce_token ` snd ` set claims' \<subseteq> set (?t # seen)"
    unfolding insert_claim_spec(2) [OF ins claims_wfD(1) [OF wf]] using seen by auto
  ultimately show ?thesis
    using le assms(3) by (auto simp: restored_wf_def st' intro: max.coboundedI1)
qed

lemma restored_fold_wf:
  assumes "fold_result restore_claim claims ([], [], 0) = Inr st"
    and "\<forall>c \<in> set claims. pc_token c \<notin> C"
  shows "restored_wf C st"
  using assms(1)
proof (rule fold_result_invariant)
  show "restored_wf C ([], [], 0)"
    by (simp add: restored_wf_def claims_wf_def antichain_def)
qed (use assms(2) in \<open>auto intro: restore_claim_wf\<close>)

lemma claims_wf_issued:
  assumes "claims_wf n claims" and "\<And>p e. (p, e) \<in> set claims \<Longrightarrow> token_issued m (ce_token e)"
  shows "claims_wf m claims"
  unfolding claims_wf_def
proof (intro conjI allI impI)
  note old = claims_wfD [OF assms(1)]
  show "bt_ordered claims" "antichain (fst ` set claims)" by (rule old)+
  fix p e assume pe: "(p, e) \<in> set claims"
  from old(3) [OF pe] assms(2) [OF pe]
  show "normal_path p" "canonical_agent (ce_agent_id e)" "token_issued m (ce_token e)" by simp_all
  fix q f assume "(q, f) \<in> set claims" "ce_token e = ce_token f"
  then show "ce_agent_id e = ce_agent_id f" by (rule old(4) [OF pe])
qed

lemma le_issued:
  assumes "0 < t" and "t \<le> mx" and "saturating_add mx 1 \<le> m"
  shows "token_issued m t"
proof (cases "mx = -1")
  case True
  then have "saturating_add mx 1 = (-1 :: u64)"
    by (simp add: word_unat_eq_iff unat_saturating_add unsigned_minus_1_eq_mask mask_eq_exp_minus_1)
  with assms show ?thesis by (simp add: token_issued_def word_order.extremum_unique)
next
  case False
  then have "unat mx \<noteq> 2 ^ 64 - 1"
    by (simp add: word_unat_eq_iff unsigned_minus_1_eq_mask mask_eq_exp_minus_1)
  moreover have "unat mx < 2 ^ 64" using unat_less_exp [of mx] by simp
  ultimately have "unat (saturating_add mx 1) = unat mx + 1"
    by (simp add: unat_saturating_add)
  then have "mx < saturating_add mx 1" by (simp add: word_less_nat_alt)
  with assms show ?thesis
    by (meson token_issued_def le_less_trans less_le_trans)
qed

lemma from_snapshot_spec:
  assumes "from_snapshot snap = Inr c" and "\<forall>x \<in> set (ss_claims snap). pc_token x \<notin> C"
  shows "0 < in_next_token (sc_inner c)"
    and "claims_wf (in_next_token (sc_inner c)) (in_claims (sc_inner c))"
    and "ce_token ` snd ` set (in_claims (sc_inner c)) \<inter> C = {}"
    and "ss_next_token snap \<le> in_next_token (sc_inner c)"
    and "in_subordinate_claims (sc_inner c) = []" and "in_subordinate_bindings (sc_inner c) = []"
    and "\<not> sc_poisoned c"
proof -
  from assms(1) obtain claims seen mx
    where st: "fold_result restore_claim (ss_claims snap) ([], [], 0) = Inr (claims, seen, mx)"
      and c: "c = \<lparr>sc_inner = default_inner\<lparr>in_claims := claims,
        in_next_token := max (max (ss_next_token snap) (saturating_add mx 1)) 1\<rparr>, sc_poisoned = False\<rparr>"
    by (auto simp: from_snapshot_def result_iffs)
  let ?n = "max (max (ss_next_token snap) (saturating_add mx 1)) 1"
  have wf: "claims_wf (-1) claims" and seen: "ce_token ` snd ` set claims \<subseteq> set seen"
    and le: "\<forall>t \<in> set seen. t \<le> mx \<and> t \<notin> C"
    using restored_fold_wf [OF st assms(2)] by (auto simp: restored_wf_def)
  show "0 < in_next_token (sc_inner c)" "ss_next_token snap \<le> in_next_token (sc_inner c)"
    "\<not> sc_poisoned c"
    by (simp_all add: c less_max_iff_disj le_max_iff_disj)
  show "in_subordinate_claims (sc_inner c) = []" and "in_subordinate_bindings (sc_inner c) = []"
    by (simp_all add: c default_inner_def)
  show "ce_token ` snd ` set (in_claims (sc_inner c)) \<inter> C = {}"
    using seen le by (auto simp: c)
  have "token_issued ?n (ce_token e)" if pe: "(p, e) \<in> set claims" for p e
  proof (rule le_issued)
    show "0 < ce_token e" using claims_wfD(3) [OF wf pe] by (simp add: token_issued_def)
    have "ce_token e \<in> set seen" using seen pe by force
    then show "ce_token e \<le> mx" using le by blast
    show "saturating_add mx 1 \<le> ?n" by (simp add: le_max_iff_disj)
  qed
  with wf show "claims_wf (in_next_token (sc_inner c)) (in_claims (sc_inner c))"
    by (simp add: c claims_wf_issued)
qed

lemma check_binding_InrD:
  assumes "check_binding n b (ct, src) = Inr st"
  shows "binding_wf n b" and "sb_child_token b \<notin> set ct" and "binding_source b \<notin> set src"
    and "st = (sb_child_token b # ct, binding_source b # src)"
  using assms
  by (auto simp: check_binding_def Let_def result_iffs binding_wf_def binding_source_def
      canonical_agent_def normalize_claim_paths_fixed word_gt_0 split: if_splits)

lemma check_binding_InrI:
  assumes "binding_wf n b" and "sb_child_token b \<notin> set ct" and "binding_source b \<notin> set src"
  shows "check_binding n b (ct, src) = Inr (sb_child_token b # ct, binding_source b # src)"
  using assms
  by (auto simp: check_binding_def Let_def result_iffs binding_wf_def binding_source_def
      canonical_agent_def canonical_normalize_id)

lemma check_bindings_Inr_iff:
  "fold_result (check_binding n) bs (ct, src) = Inr st \<longleftrightarrow>
    bindings_wf n bs \<and> set ct \<inter> sb_child_token ` set bs = {} \<and> set src \<inter> binding_source ` set bs = {}
    \<and> st = (rev (map sb_child_token bs) @ ct, rev (map binding_source bs) @ src)"
proof (induction bs arbitrary: ct src)
  case Nil
  then show ?case by (auto simp: bindings_wf_def)
next
  case (Cons b bs)
  show ?case
  proof (cases "binding_wf n b \<and> sb_child_token b \<notin> set ct \<and> binding_source b \<notin> set src")
    case True
    then show ?thesis
      by (simp add: check_binding_InrI Cons.IH) (auto simp: bindings_wf_def)
  next
    case False
    have "\<nexists>st. check_binding n b (ct, src) = Inr st"
      using False check_binding_InrD by metis
    then have "fold_result (check_binding n) (b # bs) (ct, src) \<noteq> Inr st"
      by (auto simp: result_iffs)
    with False show ?thesis by (auto simp: bindings_wf_def)
  qed
qed

lemma restore_child_InrD:
  assumes "restore_child bs child i = Inr i'"
  obtains b parent where "b \<in> set bs" and "sb_child_token b = pc_token child"
    and "claim_for_token (in_claims i) (sb_parent_token b) = Some parent"
    and "validate_subordinate_scope i parent (pc_agent_id child) (pc_paths child) = Inr ()"
    and "sb_worker_id b = pc_agent_id child" and "sb_paths b = pc_paths child"
    and "bt_get (in_subordinate_claims i) (pc_token child) = None"
    and "i' = i\<lparr>in_subordinate_claims :=
      bt_insert (pc_token child) child (in_subordinate_claims i)\<rparr>"
  using assms
  by (auto simp: restore_child_def result_iffs split: if_splits dest!: find_SomeD)

lemma restore_child_wf:
  assumes "restore_child bs child i = Inr i'" and "children_wf (in_claims i) bs (in_subordinate_claims i)"
  shows "children_wf (in_claims i') bs (in_subordinate_claims i')"
    and "in_claims i' = in_claims i" and "in_next_token i' = in_next_token i"
proof -
  from assms(1) obtain b parent where b: "b \<in> set bs" "sb_child_token b = pc_token child"
    and parent: "claim_for_token (in_claims i) (sb_parent_token b) = Some parent"
    and val: "validate_subordinate_scope i parent (pc_agent_id child) (pc_paths child) = Inr ()"
    and eq: "sb_worker_id b = pc_agent_id child" "sb_paths b = pc_paths child"
    and fresh: "bt_get (in_subordinate_claims i) (pc_token child) = None"
    and i': "i' = i\<lparr>in_subordinate_claims :=
      bt_insert (pc_token child) child (in_subordinate_claims i)\<rparr>"
    by (rule restore_child_InrD)
  show "in_claims i' = in_claims i" "in_next_token i' = in_next_token i" by (simp_all add: i')
  note v = validate_subordinate_scope_InrD [OF val]
  have "child_wf (in_claims i) bs child"
    unfolding child_wf_def using b parent eq v(3) by metis
  moreover have "claims_apart child d \<and> claims_apart d child"
    if "(t, d) \<in> set (in_subordinate_claims i)" for t d
    using v(4) [OF that] unfolding claims_apart_def by (metis paths_overlap_sym)
  ultimately show "children_wf (in_claims i') bs (in_subordinate_claims i')"
    using children_wf_insert [OF assms(2), of child] fresh by (simp add: i' bt_get_None_iff)
qed

lemma from_snapshot_with_subordinates_inv:
  assumes "from_snapshot_with_subordinates snap bs = Inr c"
  shows "sync_inv (sc_inner c)" and "\<not> sc_poisoned c"
proof -
  from assms obtain ct src d i where
    bs: "fold_result (check_binding (ss_next_token snap)) bs ([], []) = Inr (ct, src)"
    and d: "from_snapshot (snap\<lparr>ss_claims := filter (\<lambda>claim. pc_token claim \<notin> set ct) (ss_claims snap)\<rparr>) = Inr d"
    and i: "fold_result (restore_child bs) (filter (\<lambda>claim. pc_token claim \<in> set ct) (ss_claims snap))
      (sc_inner d) = Inr i"
    and c: "c = d\<lparr>sc_inner := i\<lparr>in_subordinate_bindings := bs\<rparr>\<rparr>"
    by (auto simp: from_snapshot_with_subordinates_def Let_def result_iffs)
  have ct: "set ct = sb_child_token ` set bs" and wf: "bindings_wf (ss_next_token snap) bs"
    using bs by (auto simp: check_bindings_Inr_iff)
  note spec = from_snapshot_spec [OF d, of "set ct", simplified]
  have "children_wf (in_claims i) bs (in_subordinate_claims i)
    \<and> in_claims i = in_claims (sc_inner d) \<and> in_next_token i = in_next_token (sc_inner d)"
    using i
  proof (rule fold_result_invariant)
    show "children_wf (in_claims (sc_inner d)) bs (in_subordinate_claims (sc_inner d)) \<and>
      in_claims (sc_inner d) = in_claims (sc_inner d) \<and>
      in_next_token (sc_inner d) = in_next_token (sc_inner d)"
      by (simp add: spec children_wf_def)
  qed (use restore_child_wf in metis)
  moreover have "bindings_wf (in_next_token (sc_inner d)) bs"
    using wf spec(4) by (rule bindings_wf_mono)
  ultimately show "sync_inv (sc_inner c)"
    using spec(1-3) ct by (auto simp: sync_inv_def c bindings_apart_def)
  show "\<not> sc_poisoned c" using spec(7) by (simp add: c)
qed

section \<open>Snapshot round trip\<close>

definition claim_ok :: "path_claim \<Rightarrow> bool" where
  "claim_ok g \<longleftrightarrow> pc_token g \<noteq> 0 \<and> canonical_agent (pc_agent_id g) \<and> canonical_paths (pc_paths g)"

definition paths_apart :: "path_claim \<Rightarrow> path_claim \<Rightarrow> bool" where
  "paths_apart g h \<longleftrightarrow> (\<forall>p \<in> set (pc_paths g). \<forall>q \<in> set (pc_paths h). \<not> paths_overlap p q)"

definition claim_entries :: "path_claim \<Rightarrow> (path \<times> claim_entry) set" where
  "claim_entries g =
     (\<lambda>p. (p, \<lparr>ce_token = pc_token g, ce_agent_id = pc_agent_id g\<rparr>)) ` set (pc_paths g)"

lemma restore_claim_InrI:
  assumes "claim_ok g" and "bt_ordered tbl" and "pc_token g \<notin> set seen"
    and "\<And>p q e. p \<in> set (pc_paths g) \<Longrightarrow> (q, e) \<in> set tbl \<Longrightarrow> \<not> paths_overlap q p"
  obtains tbl' where "restore_claim g (tbl, seen, mx) = Inr (tbl', pc_token g # seen, max mx (pc_token g))"
    and "bt_ordered tbl'" and "set tbl' = set tbl \<union> claim_entries g"
proof -
  let ?tbl = "fold (\<lambda>path. bt_insert path \<lparr>ce_token = pc_token g, ce_agent_id = pc_agent_id g\<rparr>)
    (pc_paths g) tbl"
  have "check_conflicts tbl (pc_paths g) = Inr ()"
    unfolding check_conflicts_Inr_iff using assms(4) by blast
  then have ins: "insert_claim tbl (pc_token g) (pc_agent_id g) (pc_paths g) = Inr ?tbl"
    by (simp add: insert_claim_def)
  have "normalize_claim_paths (pc_paths g) = Inr (pc_paths g)"
    "normalize_agent_id (pc_agent_id g) = Inr (pc_agent_id g)" "pc_token g \<noteq> 0"
    using assms(1) by (simp_all add: claim_ok_def canonical_normalize_id canonical_agent_def)
  with assms(3) ins have "restore_claim g (tbl, seen, mx) = Inr (?tbl, pc_token g # seen, max mx (pc_token g))"
    by (simp add: restore_claim_def Let_def)
  then show thesis
    using insert_claim_spec [OF ins assms(2)] by (intro that) (auto simp: claim_entries_def)
qed

lemma restore_claims_Inr:
  assumes "\<forall>g \<in> set gs. claim_ok g" and "bt_ordered tbl" and "distinct (map pc_token gs)"
    and "set seen \<inter> pc_token ` set gs = {}" and "sorted_wrt paths_apart gs"
    and "\<And>g p q e. g \<in> set gs \<Longrightarrow> p \<in> set (pc_paths g) \<Longrightarrow> (q, e) \<in> set tbl \<Longrightarrow> \<not> paths_overlap q p"
  shows "\<exists>tbl' seen'. fold_result restore_claim gs (tbl, seen, mx) =
      Inr (tbl', seen', fold max (map pc_token gs) mx)
    \<and> bt_ordered tbl' \<and> set tbl' = set tbl \<union> \<Union> (claim_entries ` set gs)"
  using assms
proof (induction gs arbitrary: tbl seen mx)
  case Nil
  then show ?case by simp
next
  case (Cons g gs)
  have free: "\<not> paths_overlap q p" if "p \<in> set (pc_paths g)" "(q, e) \<in> set tbl" for p q e
    by (rule Cons.prems(6) [OF _ that]) simp
  have g: "claim_ok g" "pc_token g \<notin> set seen" using Cons.prems(1,4) by simp_all
  obtain tbl1 where step: "restore_claim g (tbl, seen, mx) =
      Inr (tbl1, pc_token g # seen, max mx (pc_token g))"
    and ord: "bt_ordered tbl1" and set1: "set tbl1 = set tbl \<union> claim_entries g"
    by (rule restore_claim_InrI [OF g(1) Cons.prems(2) g(2) free])
  have "\<not> paths_overlap q p" if "h \<in> set gs" "p \<in> set (pc_paths h)" "(q, e) \<in> set tbl1" for h p q e
  proof (cases "(q, e) \<in> set tbl")
    case True
    then show ?thesis using Cons.prems(6) that by (meson list.set_intros(2))
  next
    case False
    with that(3) have "q \<in> set (pc_paths g)" unfolding set1 by (auto simp: claim_entries_def)
    with that Cons.prems(5) show ?thesis by (auto simp: paths_apart_def)
  qed
  with Cons.IH [OF _ ord, of "pc_token g # seen" "max mx (pc_token g)"] Cons.prems(1,3-5)
  show ?case by (auto simp: step set1 max.commute Un_assoc)
qed

lemma fold_max_cases: "fold max xs m = m \<or> fold max xs m \<in> set xs" for m :: "'a::linorder"
proof (induction xs arbitrary: m)
  case (Cons x xs)
  from Cons.IH [of "max x m"] show ?case by (auto simp: max_def split: if_splits)
qed simp

lemma issued_next:
  assumes "0 < n" and "m = 0 \<or> token_issued n m"
  shows "max (max n (saturating_add m 1)) 1 = n"
proof -
  have "saturating_add m 1 \<le> n"
  proof (cases "n = -1")
    case False
    with assms have "unat m < unat n" by (auto simp: token_issued_def word_less_nat_alt)
    moreover have "unat n < 2 ^ 64" using unat_less_exp [of n] by simp
    ultimately show ?thesis by (simp add: word_le_nat_alt unat_saturating_add)
  qed simp
  moreover have "1 \<le> n" using assms(1) by (simp add: word_le_nat_alt word_less_nat_alt)
  ultimately show ?thesis by (simp add: max_def)
qed

lemma grouped_claim:
  assumes inv: "sync_inv i" and g: "claim_for_token (in_claims i) t = Some g"
  shows "claim_ok g" and "pc_token g = t"
    and "claim_entries g = {(p, e) \<in> set (in_claims i). ce_token e = t}"
proof -
  note cwf = sync_invD(2) [OF inv]
  note wf = claims_wfD [OF cwf]
  note d = claim_for_token_SomeD [OF g]
  from d(3) obtain p e where pe: "(p, e) \<in> set (in_claims i)" "ce_token e = t" "pc_agent_id g = ce_agent_id e"
    by blast
  show t: "pc_token g = t" by (rule d)
  have mem: "normal_path q" "q \<in> fst ` set (in_claims i)" if q: "q \<in> set (pc_paths g)" for q
  proof -
    obtain f where qf: "(q, f) \<in> set (in_claims i)" using q unfolding d(2) by blast
    show "normal_path q" using wf(3) [OF qf] by simp
    show "q \<in> fst ` set (in_claims i)" using qf by force
  qed
  from g have "pc_paths g = map fst (entries_of t (in_claims i))"
    by (auto simp: claim_for_token_Some_iff)
  then have "sorted_wrt (<) (pc_paths g)"
    using bt_ordered_filter [OF wf(1)] by (simp add: entries_of_def bt_ordered_def)
  moreover have "antichain (set (pc_paths g))"
    using mem(2) by (intro antichain_subset [OF wf(2)]) blast
  ultimately show "claim_ok g"
    using d(4) mem(1) wf(3) [OF pe(1)] pe(2,3) t
    by (auto simp: claim_ok_def canonical_paths_def token_issued_def)
  let ?v = "\<lparr>ce_token = t, ce_agent_id = pc_agent_id g\<rparr>"
  have agent: "f = ?v" if "(q, f) \<in> set (in_claims i)" "ce_token f = t" for q f
  proof -
    have "ce_agent_id f = pc_agent_id g" using wf(4) [OF that(1) pe(1)] that(2) pe(2,3) by simp
    with that(2) show ?thesis by (cases f) simp
  qed
  have "(q, f) \<in> claim_entries g \<longleftrightarrow> (q, f) \<in> set (in_claims i) \<and> ce_token f = t" for q f
  proof -
    have "(q, f) \<in> claim_entries g \<longleftrightarrow> f = ?v \<and> (\<exists>h. (q, h) \<in> set (in_claims i) \<and> ce_token h = t)"
      unfolding claim_entries_def t image_iff d(2) by blast
    also have "\<dots> \<longleftrightarrow> (q, f) \<in> set (in_claims i) \<and> ce_token f = t"
      using agent [of q] by (metis claim_entry.select_convs(1))
    finally show ?thesis .
  qed
  then show "claim_entries g = {(p, e) \<in> set (in_claims i). ce_token e = t}" by blast
qed

lemma group_claims_mem:
  "(t, g) \<in> set (group_claims claims) \<longleftrightarrow> claim_for_token claims t = Some g"
  by (simp add: claim_for_token_def bt_get_Some_iff bt_ordered_group_claims)

lemma grouped_lookup:
  assumes inv: "sync_inv i" and g: "g \<in> set (map snd (group_claims (in_claims i)))"
  shows "claim_for_token (in_claims i) (pc_token g) = Some g"
proof -
  obtain t where t: "claim_for_token (in_claims i) t = Some g"
    using g group_claims_mem by fastforce
  then show ?thesis using grouped_claim(2) [OF inv t] by simp
qed

lemma grouped_apart:
  assumes inv: "sync_inv i" and g: "claim_for_token (in_claims i) t = Some g"
    and h: "claim_for_token (in_claims i) u = Some h" and "t \<noteq> u"
  shows "paths_apart g h"
  unfolding paths_apart_def
proof (intro ballI notI)
  fix p q assume pq: "p \<in> set (pc_paths g)" "q \<in> set (pc_paths h)" "paths_overlap p q"
  obtain e where e: "(p, e) \<in> set (in_claims i)" "ce_token e = t"
    using pq(1) unfolding claim_for_token_SomeD(2) [OF g] by blast
  obtain f where f: "(q, f) \<in> set (in_claims i)" "ce_token f = u"
    using pq(2) unfolding claim_for_token_SomeD(2) [OF h] by blast
  from claim_unique [OF inv e(1) f(1) pq(3)] e(2) f(2) assms(4) show False by simp
qed

lemma grouped_entries:
  assumes inv: "sync_inv i"
  shows "\<Union> (claim_entries ` set (map snd (group_claims (in_claims i)))) = set (in_claims i)"
proof (intro equalityI subsetI)
  fix pe assume "pe \<in> \<Union> (claim_entries ` set (map snd (group_claims (in_claims i))))"
  then obtain g where g: "g \<in> set (map snd (group_claims (in_claims i)))" "pe \<in> claim_entries g"
    by blast
  then show "pe \<in> set (in_claims i)"
    using grouped_claim(3) [OF inv grouped_lookup [OF inv g(1)]] by auto
next
  fix pe assume pe: "pe \<in> set (in_claims i)"
  obtain p e where eq: "pe = (p, e)" by force
  obtain g where g: "claim_for_token (in_claims i) (ce_token e) = Some g"
    using pe claim_for_token_None_iff [of "in_claims i" "ce_token e"] by (force simp: eq)
  then have "g \<in> set (map snd (group_claims (in_claims i)))" using group_claims_mem by force
  moreover have "pe \<in> claim_entries g" using grouped_claim(3) [OF inv g] pe eq by blast
  ultimately show "pe \<in> \<Union> (claim_entries ` set (map snd (group_claims (in_claims i))))" by blast
qed

lemma restore_grouped:
  assumes inv: "sync_inv i"
  obtains seen mx where "fold_result restore_claim (map snd (group_claims (in_claims i))) ([], [], 0) =
      Inr (in_claims i, seen, mx)"
    and "max (max (in_next_token i) (saturating_add mx 1)) 1 = in_next_token i"
proof -
  let ?G = "group_claims (in_claims i)"
  let ?gs = "map snd ?G"
  let ?mx = "fold max (map pc_token ?gs) 0"
  note look = grouped_lookup [OF inv]
  have tokens: "map pc_token ?gs = map fst ?G"
    using grouped_claim(2) [OF inv] group_claims_mem [of _ _ "in_claims i"]
    by (auto simp: comp_def)
  have dist: "distinct (map pc_token ?gs)"
    unfolding tokens by (rule bt_ordered_distinct [OF bt_ordered_group_claims])
  have "sorted_wrt paths_apart ?gs"
    unfolding sorted_wrt_iff_nth_less
  proof (intro allI impI)
    fix m n assume "m < n" "n < length ?gs"
    with dist have "pc_token (?gs ! m) \<noteq> pc_token (?gs ! n)"
      by (simp add: distinct_conv_nth nth_map del: map_map)
    with \<open>m < n\<close> \<open>n < length ?gs\<close> show "paths_apart (?gs ! m) (?gs ! n)"
      by (intro grouped_apart [OF inv look look]) (simp_all del: nth_map set_map add: nth_mem)
  qed
  then obtain tbl seen where
    fold: "fold_result restore_claim ?gs ([], [], 0) = Inr (tbl, seen, ?mx)"
    and tbl: "bt_ordered tbl" "set tbl = \<Union> (claim_entries ` set ?gs)"
    using restore_claims_Inr [of ?gs "[]" "[]" 0] dist grouped_claim(1) [OF inv look]
    by (auto simp del: map_map set_map)
  have "tbl = in_claims i"
    using tbl sync_invD(5) [OF inv] grouped_entries [OF inv] by (intro bt_eq_setI) simp_all
  moreover have "?mx = 0 \<or> token_issued (in_next_token i) ?mx"
    using fold_max_cases [of "map pc_token ?gs" 0] look parent_token_issued [OF inv] by force
  ultimately show thesis using fold that issued_next [OF sync_invD(1) [OF inv]] by blast
qed

definition no_double_role :: "inner \<Rightarrow> bool" where
  "no_double_role i \<longleftrightarrow>
     (\<forall>t c p e. (t, c) \<in> set (in_subordinate_claims i) \<longrightarrow> (p, e) \<in> set (in_claims i) \<longrightarrow>
        ce_agent_id e \<noteq> pc_agent_id c)"

lemma restore_child_InrI:
  assumes bs: "bindings_wf n bs" and wf: "child_wf (in_claims i) bs c"
    and apart: "\<And>t d. (t, d) \<in> set (in_subordinate_claims i) \<Longrightarrow> claims_apart d c"
    and single: "\<And>p e. (p, e) \<in> set (in_claims i) \<Longrightarrow> ce_agent_id e \<noteq> pc_agent_id c"
    and fresh: "pc_token c \<notin> fst ` set (in_subordinate_claims i)"
  shows "restore_child bs c i =
    Inr (i\<lparr>in_subordinate_claims := bt_insert (pc_token c) c (in_subordinate_claims i)\<rparr>)"
proof -
  obtain b parent where b: "b \<in> set bs" "sb_child_token b = pc_token c"
    "sb_worker_id b = pc_agent_id c" "sb_paths b = pc_paths c"
    and parent: "claim_for_token (in_claims i) (sb_parent_token b) = Some parent"
    "within_parent parent (pc_agent_id c) (pc_paths c)"
    using wf unfolding child_wf_def by blast
  have "b' = b" if "b' \<in> set bs" "sb_child_token b' = pc_token c" for b'
  proof -
    have "inj_on sb_child_token (set bs)" using bs by (simp add: bindings_wf_def distinct_map)
    from inj_onD [OF this _ that(1) b(1)] that(2) b(2) show ?thesis by simp
  qed
  then have find: "List.find (\<lambda>b. sb_child_token b = pc_token c) bs = Some b"
    using b by (intro find_unique)
  have canon: "canonical_agent (pc_agent_id c)" "canonical_paths (pc_paths c)"
    using bs b unfolding bindings_wf_def binding_wf_def by metis+
  have "validate_subordinate_scope i parent (pc_agent_id c) (pc_paths c) = Inr ()"
    unfolding validate_subordinate_scope_Inr_iff
    using canon parent(2) apart single by (auto simp: claims_apart_def)
  moreover have "bt_get (in_subordinate_claims i) (pc_token c) = None"
    using fresh by (simp add: bt_get_None_iff)
  ultimately show ?thesis
    by (simp add: restore_child_def find parent b canonical_normalize_id canon)
qed

lemma restore_children_Inr:
  assumes bs: "bindings_wf n bs" and wf: "\<forall>(t, c) \<in> set xs. child_wf (in_claims i) bs c \<and> pc_token c = t"
    and single: "\<And>t c p e. (t, c) \<in> set xs \<Longrightarrow> (p, e) \<in> set (in_claims i) \<Longrightarrow> ce_agent_id e \<noteq> pc_agent_id c"
    and "\<And>t c u d. (t, c) \<in> set xs \<Longrightarrow> (u, d) \<in> set ys \<Longrightarrow> claims_apart d c"
    and "sorted_wrt (\<lambda>(t, c) (u, d). claims_apart c d) xs"
    and "bt_ordered ys" and "fst ` set ys \<inter> fst ` set xs = {}" and "distinct (map fst xs)"
  shows "fold_result (restore_child bs) (map snd xs) (i\<lparr>in_subordinate_claims := ys\<rparr>) =
    Inr (i\<lparr>in_subordinate_claims := fold (\<lambda>(k, v). bt_insert k v) xs ys\<rparr>)"
  using assms(2-)
proof (induction xs arbitrary: ys)
  case Nil
  then show ?case by simp
next
  case (Cons tc xs)
  obtain t c where tc: "tc = (t, c)" by force
  have t: "pc_token c = t" "child_wf (in_claims i) bs c" using Cons.prems(1) by (simp_all add: tc)
  let ?i = "i\<lparr>in_subordinate_claims := ys\<rparr>"
  have step: "restore_child bs c ?i = Inr (i\<lparr>in_subordinate_claims := bt_insert t c ys\<rparr>)"
  proof -
    have "restore_child bs c ?i = Inr (?i\<lparr>in_subordinate_claims :=
        bt_insert (pc_token c) c (in_subordinate_claims ?i)\<rparr>)"
    proof (rule restore_child_InrI [OF bs])
      show "claims_apart d c" if "(u, d) \<in> set (in_subordinate_claims ?i)" for u d
        by (rule Cons.prems(3) [of t c u d]) (use that in \<open>simp_all add: tc\<close>)
      show "ce_agent_id e \<noteq> pc_agent_id c" if "(p, e) \<in> set (in_claims ?i)" for p e
        by (rule Cons.prems(2) [of t c p e]) (use that in \<open>simp_all add: tc\<close>)
    qed (use t Cons.prems(6) in \<open>simp_all add: tc\<close>)
    then show ?thesis by (simp add: t)
  qed
  have "fold_result (restore_child bs) (map snd xs) (i\<lparr>in_subordinate_claims := bt_insert t c ys\<rparr>) =
    Inr (i\<lparr>in_subordinate_claims := fold (\<lambda>(k, v). bt_insert k v) xs (bt_insert t c ys)\<rparr>)"
  proof (rule Cons.IH)
    show "bt_ordered (bt_insert t c ys)" using Cons.prems(5) by (rule bt_ordered_insert)
    show "claims_apart d e" if "(v, e) \<in> set xs" "(u, d) \<in> set (bt_insert t c ys)" for u d v e
      using that Cons.prems(3,4) unfolding set_bt_insert [OF Cons.prems(5)] tc by fastforce
    show "fst ` set (bt_insert t c ys) \<inter> fst ` set xs = {}"
      using Cons.prems(6,7) by (auto simp: fst_set_bt_insert tc)
    show "ce_agent_id e \<noteq> pc_agent_id c" if "(t, c) \<in> set xs" "(p, e) \<in> set (in_claims i)" for t c p e
      using Cons.prems(2) that by (meson list.set_intros(2))
  qed (use Cons.prems in \<open>auto simp: tc\<close>)
  then show ?case by (simp add: tc step)
qed

lemma all_claims_split:
  assumes inv: "sync_inv i" and T: "T = sb_child_token ` set (in_subordinate_bindings i)"
  shows "filter (\<lambda>c. pc_token c \<in> T) (all_claims i) = map snd (in_subordinate_claims i)"
    and "filter (\<lambda>c. pc_token c \<notin> T) (all_claims i) = map snd (group_claims (in_claims i))"
proof -
  let ?S = "in_subordinate_claims i" and ?G = "group_claims (in_claims i)"
  let ?M = "fold (\<lambda>(k, v). bt_insert k v) ?S ?G"
  note i = sync_invD [OF inv]
  have ordM: "bt_ordered ?M" by (rule bt.wf_fold_insert [OF bt_ordered_group_claims])
  have get: "bt_get ?M = bt_get ?G ++ bt_get ?S"
    using bt.get_fold_insert [OF bt_ordered_group_claims bt_ordered_distinct [OF i(6)], of "in_claims i"]
    by (simp add: bt_get_def [of ?S] fun_eq_iff map_add_def split: option.splits)
  have inT: "pc_token c = t \<and> t \<in> T" if "(t, c) \<in> set ?S" for t c
    using that child_parentE [OF inv that] children_wfD(2) [OF i(4)] T by blast
  have outT: "pc_token g = t \<and> t \<notin> T" if "(t, g) \<in> set ?G" for t g
  proof -
    have g: "claim_for_token (in_claims i) t = Some g" using that by (simp add: group_claims_mem)
    then have "t \<in> ce_token ` snd ` set (in_claims i)"
      using claim_for_token_None_iff [of "in_claims i" t] by auto
    with i(7) T have "t \<notin> T" unfolding bindings_apart_def by blast
    with grouped_claim(2) [OF inv g] show ?thesis by simp
  qed
  have mem: "(t, c) \<in> set ?M \<longleftrightarrow> (t, c) \<in> set ?S \<or> (t, c) \<in> set ?G" for t c
  proof -
    have "bt_get ?S t = None" if "(t, c) \<in> set ?G"
      using outT [OF that] inT unfolding bt_get_None_iff by fastforce
    then show ?thesis
      unfolding bt_get_Some_iff [OF ordM, symmetric] bt_get_Some_iff [OF i(6), symmetric]
        bt_get_Some_iff [OF bt_ordered_group_claims, symmetric] get map_add_Some_iff
      by blast
  qed
  have "filter (\<lambda>(t, c). pc_token c \<in> T) ?M = ?S"
    using inT outT mem by (intro bt_eq_setI bt_ordered_filter ordM i(6)) auto
  then show "filter (\<lambda>c. pc_token c \<in> T) (all_claims i) = map snd ?S"
    by (simp add: all_claims_def filter_map comp_def case_prod_unfold)
  have "filter (\<lambda>(t, c). pc_token c \<notin> T) ?M = ?G"
    using inT outT mem by (intro bt_eq_setI bt_ordered_filter ordM bt_ordered_group_claims) auto
  then show "filter (\<lambda>c. pc_token c \<notin> T) (all_claims i) = map snd ?G"
    by (simp add: all_claims_def filter_map comp_def case_prod_unfold)
qed

lemma snapshot_restores:
  assumes inv: "sync_inv i" and single: "no_double_role i"
  shows "from_snapshot_with_subordinates
      \<lparr>ss_next_token = in_next_token i, ss_claims = all_claims i\<rparr> (in_subordinate_bindings i) =
    Inr \<lparr>sc_inner = i, sc_poisoned = False\<rparr>"
proof -
  note i = sync_invD [OF inv]
  let ?bs = "in_subordinate_bindings i" and ?S = "in_subordinate_claims i"
  let ?ct = "rev (map sb_child_token ?bs)"
  obtain seen mx where fold: "fold_result restore_claim (map snd (group_claims (in_claims i))) ([], [], 0) =
      Inr (in_claims i, seen, mx)"
    and mx: "max (max (in_next_token i) (saturating_add mx 1)) 1 = in_next_token i"
    by (rule restore_grouped [OF inv])
  let ?i0 = "i\<lparr>in_subordinate_bindings := []\<rparr>"
  have bs: "fold_result (check_binding (in_next_token i)) ?bs ([], []) =
      Inr (?ct, rev (map binding_source ?bs))"
    using i(3) by (simp add: check_bindings_Inr_iff)
  have split: "filter (\<lambda>c. pc_token c \<in> set ?ct) (all_claims i) = map snd ?S"
    "filter (\<lambda>c. pc_token c \<notin> set ?ct) (all_claims i) = map snd (group_claims (in_claims i))"
    using all_claims_split [OF inv] by simp_all
  have "sorted_wrt (\<lambda>(t, c) (u, d). claims_apart c d) ?S"
  proof (rule sorted_wrt_mono_rel)
    show "sorted_wrt (\<lambda>x y. fst x < fst y) ?S" using i(6) by (simp add: bt_ordered_def sorted_wrt_map)
    fix x y assume "x \<in> set ?S" "y \<in> set ?S" "fst x < fst y"
    then show "(case x of (t, c) \<Rightarrow> \<lambda>(u, d). claims_apart c d) y"
      using children_wfD(4) [OF i(4), of "fst x" "snd x" "fst y" "snd y"]
      by (simp add: case_prod_unfold)
  qed
  then have "fold_result (restore_child ?bs) (map snd ?S) (?i0\<lparr>in_subordinate_claims := []\<rparr>) =
      Inr (?i0\<lparr>in_subordinate_claims := fold (\<lambda>(k, v). bt_insert k v) ?S []\<rparr>)"
    using children_wfD [OF i(4)] single bt_ordered_distinct [OF i(6)]
    by (intro restore_children_Inr [OF i(3)]) (auto simp: no_double_role_def)
  moreover have "fold (\<lambda>(k, v). bt_insert k v) ?S [] = ?S"
    by (rule bt.fold_insert_eqI [OF i(6) bt_ordered_distinct [OF i(6)]]) (simp add: bt_get_def fun_eq_iff)
  moreover have "default_inner\<lparr>in_claims := in_claims i, in_next_token := in_next_token i\<rparr> =
      ?i0\<lparr>in_subordinate_claims := []\<rparr>"
    by (cases i) (simp add: default_inner_def)
  ultimately show ?thesis
    by (simp add: from_snapshot_with_subordinates_def from_snapshot_def bs Let_def split fold mx
        del: set_rev set_map)
qed

end
