(* ===== verification/Claim_Coordinator.thy ===== *)
theory Claim_Coordinator
  imports Claim_Restore
begin

text \<open>
  The coordinator of \<^verbatim>\<open>src/src/sync.rs\<close> as its callers see it: the set of active claims
  is the abstract state, every operation acts on it as the contract says, and whatever sequence
  of operations and restores led to a state, at most one agent may write a path.
\<close>

section \<open>The active claims\<close>

definition active_claims :: "inner \<Rightarrow> path_claim set" where
  "active_claims i = set (all_claims i)"

lemma snd_keyed_iff:
  assumes "\<And>k v. (k, v) \<in> set m \<Longrightarrow> f v = k"
  shows "v \<in> snd ` set m \<longleftrightarrow> (f v, v) \<in> set m"
proof
  assume "v \<in> snd ` set m"
  then obtain k where k: "(k, v) \<in> set m" by auto
  with assms [OF k] show "(f v, v) \<in> set m" by simp
qed force

lemma active_claims_iff:
  assumes "sync_inv i"
  shows "c \<in> active_claims i \<longleftrightarrow>
    claim_for_token (in_claims i) (pc_token c) = Some c
    \<or> (pc_token c, c) \<in> set (in_subordinate_claims i)"
proof -
  let ?T = "sb_child_token ` set (in_subordinate_bindings i)"
  have "c \<in> active_claims i \<longleftrightarrow>
      c \<in> set (filter (\<lambda>c. pc_token c \<in> ?T) (all_claims i)) \<or>
      c \<in> set (filter (\<lambda>c. pc_token c \<notin> ?T) (all_claims i))"
    by (auto simp: active_claims_def)
  also have "\<dots> \<longleftrightarrow> c \<in> snd ` set (in_subordinate_claims i) \<or> c \<in> snd ` set (group_claims (in_claims i))"
    unfolding all_claims_split [OF assms refl] by simp
  also have "c \<in> snd ` set (in_subordinate_claims i) \<longleftrightarrow> (pc_token c, c) \<in> set (in_subordinate_claims i)"
    by (rule snd_keyed_iff [OF children_wfD(2) [OF sync_invD(4) [OF assms]]])
  also have "c \<in> snd ` set (group_claims (in_claims i)) \<longleftrightarrow>
      claim_for_token (in_claims i) (pc_token c) = Some c"
    unfolding group_claims_mem [symmetric]
    by (rule snd_keyed_iff) (simp add: group_claims_mem grouped_claim(2) [OF assms])
  finally show ?thesis by blast
qed

lemma active_token_issued:
  assumes "sync_inv i" and "c \<in> active_claims i"
  shows "token_issued (in_next_token i) (pc_token c)"
  using assms parent_token_issued child_token_less
  by (auto simp: active_claims_iff token_issued_def)

lemma child_not_grouped:
  assumes "sync_inv i" and "(t, x) \<in> set (in_subordinate_claims i)"
  shows "claim_for_token (in_claims i) t = None"
proof -
  obtain b where "b \<in> set (in_subordinate_bindings i)" "sb_child_token b = t"
    by (rule child_parentE [OF assms])
  with sync_invD(7) [OF assms(1)] show ?thesis
    by (auto simp: claim_for_token_None_iff bindings_apart_def)
qed

lemma active_token_unique:
  assumes "sync_inv i" and "c \<in> active_claims i" and "d \<in> active_claims i" and "pc_token c = pc_token d"
  shows "c = d"
proof -
  note excl = child_not_grouped [OF assms(1)]
  consider (both) "claim_for_token (in_claims i) (pc_token c) = Some c"
      "claim_for_token (in_claims i) (pc_token d) = Some d"
    | (subs) "(pc_token c, c) \<in> set (in_subordinate_claims i)"
      "(pc_token d, d) \<in> set (in_subordinate_claims i)"
    using assms(2-4) excl [of "pc_token c" c] excl [of "pc_token d" d]
    unfolding active_claims_iff [OF assms(1)] by fastforce
  then show ?thesis
  proof cases
    case both
    then show ?thesis unfolding assms(4) by (metis option.inject)
  next
    case subs
    from eq_key_imp_eq_value [OF bt_ordered_distinct [OF sync_invD(6) [OF assms(1)]] this(1)]
      subs(2) assms(4) show ?thesis by simp
  qed
qed

text \<open>A successful claim adds exactly the returned claim, under a token that no active claim has.\<close>

lemma claim_locked_cases:
  obtains (exhausted) "in_next_token i = -1" and "claim_locked a ps i = (Inl TokenExhausted, i)"
  | (conflict) q f p where "in_next_token i \<noteq> -1" and "p \<in> set ps" and "(q, f) \<in> set (in_claims i)"
      and "paths_overlap q p"
      and "claim_locked a ps i =
        (Inl (Conflict q (ce_agent_id f)), i\<lparr>in_next_token := in_next_token i + 1\<rparr>)"
  | (granted) claims' where "in_next_token i \<noteq> -1"
      and "insert_claim (in_claims i) (in_next_token i) a ps = Inr claims'"
      and "claim_locked a ps i =
        (Inr \<lparr>pc_token = in_next_token i, pc_agent_id = a, pc_paths = ps\<rparr>,
         i\<lparr>in_next_token := in_next_token i + 1, in_claims := claims'\<rparr>)"
proof (cases "in_next_token i = -1")
  case True
  then have "checked_add (in_next_token i) 1 = None" by (simp add: checked_add_one)
  with True show ?thesis by (intro exhausted) (simp_all add: claim_locked_def)
next
  case False
  then have add: "checked_add (in_next_token i) 1 = Some (in_next_token i + 1)"
    by (simp add: checked_add_one)
  show ?thesis
  proof (cases "insert_claim (in_claims i) (in_next_token i) a ps")
    case (Inl e)
    then have "check_conflicts (in_claims i) ps = Inl e"
      by (simp add: insert_claim_def and_then_Inl_iff)
    then obtain p q f where "p \<in> set ps" "(q, f) \<in> set (in_claims i)" "paths_overlap q p"
      "e = Conflict q (ce_agent_id f)" by (rule check_conflicts_InlD)
    with Inl add False show ?thesis by (intro conflict) (simp_all add: claim_locked_def Let_def)
  next
    case (Inr claims')
    with add False show ?thesis by (intro granted) (simp_all add: claim_locked_def Let_def)
  qed
qed

lemma claim_granted_active:
  assumes inv: "sync_inv i" and a: "canonical_agent a" and ps: "canonical_paths ps"
    and r: "claim_locked a ps i = (Inr c, i')"
  shows "active_claims i' = insert c (active_claims i)" and "pc_token c = in_next_token i"
    and "pc_token c < in_next_token i'" and "\<forall>d \<in> active_claims i. pc_token d < pc_token c"
proof -
  let ?n = "in_next_token i"
  obtain claims' where n: "?n \<noteq> -1"
    and ins: "insert_claim (in_claims i) ?n a ps = Inr claims'"
    and c: "c = \<lparr>pc_token = ?n, pc_agent_id = a, pc_paths = ps\<rparr>"
    and i': "i' = i\<lparr>in_next_token := ?n + 1, in_claims := claims'\<rparr>"
    by (rule claim_locked_cases [of i a ps]) (use r in auto)
  note cwf = sync_invD(2) [OF inv]
  have inv': "sync_inv i'" using claim_locked_inv [OF inv a ps] r by simp
  show "pc_token c = ?n" by (simp add: c)
  show "pc_token c < in_next_token i'" using checked_add_one [of ?n] checked_add_one_Some [of ?n] n
    by (simp add: c i')
  show older: "\<forall>d \<in> active_claims i. pc_token d < pc_token c"
    using active_token_issued [OF inv] n by (auto simp: token_issued_def c)
  have fresh: "?n \<notin> ce_token ` snd ` set (in_claims i)"
    using claims_wfD(3) [OF cwf] n by (force simp: token_issued_def)
  have new: "claim_for_token claims' ?n = Some c"
    unfolding c using ps
    by (intro claim_for_token_inserted [OF ins sync_invD(5) [OF inv] fresh])
      (auto simp: canonical_paths_def)
  have old: "claim_for_token claims' t = claim_for_token (in_claims i) t" if "t \<noteq> ?n" for t
    using that by (intro claim_for_token_cong entries_of_insert_other [OF ins sync_invD(5) [OF inv]])
  have none: "claim_for_token (in_claims i) ?n = None"
    using fresh by (simp add: claim_for_token_None_iff)
  have "d \<in> active_claims i' \<longleftrightarrow> d = c \<or> d \<in> active_claims i" for d
  proof (cases "pc_token d = ?n")
    case True
    have "(?n, d) \<notin> set (in_subordinate_claims i)" using child_token_less(2) [OF inv] by blast
    with True new none show ?thesis
      unfolding active_claims_iff [OF inv] active_claims_iff [OF inv'] by (auto simp: i')
  next
    case False
    then show ?thesis
      unfolding active_claims_iff [OF inv] active_claims_iff [OF inv'] by (auto simp: i' old c)
  qed
  then show "active_claims i' = insert c (active_claims i)" by blast
qed

lemma subordinate_granted_active:
  assumes inv: "sync_inv i" and r: "subordinate_locked parent w ps digest i = (Inr c, i')"
  shows "active_claims i' = insert c (active_claims i)" and "pc_token c = in_next_token i"
    and "parent \<in> active_claims i"
proof -
  obtain next' where parent: "claim_for_token (in_claims i) (pc_token parent) = Some parent"
    and c: "c = \<lparr>pc_token = in_next_token i, pc_agent_id = w, pc_paths = ps\<rparr>"
    and subs: "in_subordinate_claims i' = bt_insert (in_next_token i) c (in_subordinate_claims i)"
    and claims: "in_claims i' = in_claims i"
    using r by (rule subordinate_locked_InrE) simp
  show "parent \<in> active_claims i" using parent by (simp add: active_claims_iff [OF inv])
  show "pc_token c = in_next_token i" by (simp add: c)
  have inv': "sync_inv i'" by (rule subordinate_locked_inv [OF inv r])
  have "in_next_token i \<notin> fst ` set (in_subordinate_claims i)"
    using child_token_less(2) [OF inv] by force
  then have "set (in_subordinate_claims i') = insert (in_next_token i, c) (set (in_subordinate_claims i))"
    unfolding subs set_bt_insert [OF sync_invD(6) [OF inv]] by force
  then show "active_claims i' = insert c (active_claims i)"
    using active_claims_iff [OF inv] active_claims_iff [OF inv'] claims c by auto
qed

lemma claim_for_token_retain:
  "claim_for_token (bt_retain (\<lambda>_ entry. ce_token entry \<noteq> token) claims) t =
    (if t = token then None else claim_for_token claims t)"
proof (cases "t = token")
  case True
  then show ?thesis by (auto simp: claim_for_token_None_iff set_bt_retain)
next
  case False
  then have "entries_of t (bt_retain (\<lambda>_ entry. ce_token entry \<noteq> token) claims) = entries_of t claims"
    by (auto simp: entries_of_def bt_retain_def intro!: filter_cong)
  with False show ?thesis by (simp add: claim_for_token_eq)
qed

lemma claim_for_token_retain_agent:
  assumes "claims_wf n claims"
  shows "claim_for_token (bt_retain (\<lambda>_ entry. ce_agent_id entry \<noteq> a) claims) t = Some c \<longleftrightarrow>
    claim_for_token claims t = Some c \<and> pc_agent_id c \<noteq> a"
proof (cases "\<exists>p e. (p, e) \<in> set claims \<and> ce_token e = t \<and> ce_agent_id e \<noteq> a")
  case True
  then obtain p e where pe: "(p, e) \<in> set claims" "ce_token e = t" "ce_agent_id e \<noteq> a" by blast
  have same: "ce_agent_id f \<noteq> a" if "(q, f) \<in> set claims" "ce_token f = t" for q f
    using claims_wfD(4) [OF assms that(1) pe(1)] that(2) pe(2,3) by simp
  then have "entries_of t (bt_retain (\<lambda>_ entry. ce_agent_id entry \<noteq> a) claims) = entries_of t claims"
    by (auto simp: entries_of_def bt_retain_def intro!: filter_cong)
  moreover have "pc_agent_id c \<noteq> a" if "claim_for_token claims t = Some c"
    using claim_for_token_SomeD(3) [OF that] same by force
  ultimately show ?thesis by (auto simp: claim_for_token_eq)
next
  case False
  then have "t \<notin> ce_token ` snd ` set (bt_retain (\<lambda>_ entry. ce_agent_id entry \<noteq> a) claims)"
    by (auto simp: set_bt_retain)
  then have "claim_for_token (bt_retain (\<lambda>_ entry. ce_agent_id entry \<noteq> a) claims) t = None"
    by (simp add: claim_for_token_None_iff)
  moreover have "pc_agent_id c = a" if "claim_for_token claims t = Some c"
    using claim_for_token_SomeD(3) [OF that] False by metis
  ultimately show ?thesis by auto
qed

lemma release_active:
  assumes inv: "sync_inv i" and r: "release_locked token i = (Inr c, i')"
  shows "active_claims i' = active_claims i - {c}" and "c \<in> active_claims i" and "pc_token c = token"
proof -
  have inv': "sync_inv i'" using release_locked_inv [OF inv, of token] r by simp
  consider (child) "bt_get (in_subordinate_claims i) token = Some c"
      "i' = i\<lparr>in_subordinate_claims := bt_remove token (in_subordinate_claims i)\<rparr>"
    | (own) "bt_get (in_subordinate_claims i) token = None"
      "claim_for_token (in_claims i) token = Some c"
      "i' = i\<lparr>in_claims := bt_retain (\<lambda>_ entry. ce_token entry \<noteq> token) (in_claims i)\<rparr>"
    using r by (auto simp: release_locked_def split: if_splits option.splits)
  then have "c \<in> active_claims i \<and> pc_token c = token \<and>
    (\<forall>d. d \<in> active_claims i' \<longleftrightarrow> d \<in> active_claims i \<and> pc_token d \<noteq> token)"
  proof cases
    case child
    have mem: "(token, c) \<in> set (in_subordinate_claims i)"
      using child(1) by (simp add: bt_get_Some_iff [OF sync_invD(6) [OF inv]])
    then have tok: "pc_token c = token" by (rule children_wfD(2) [OF sync_invD(4) [OF inv]])
    have act: "c \<in> active_claims i" using mem tok by (simp add: active_claims_iff [OF inv])
    have "claim_for_token (in_claims i) token = None"
      using child_not_grouped [OF inv mem] .
    with mem tok act show ?thesis
      unfolding active_claims_iff [OF inv] active_claims_iff [OF inv']
      by (auto simp: child(2) bt_remove_def set_bt_retain)
  next
    case own
    have tok: "pc_token c = token" by (rule claim_for_token_SomeD(1) [OF own(2)])
    have act: "c \<in> active_claims i" using own(2) tok by (simp add: active_claims_iff [OF inv])
    have "claim_for_token (bt_retain (\<lambda>_ entry. ce_token entry \<noteq> token) (in_claims i)) t =
        (if t = token then None else claim_for_token (in_claims i) t)" for t
      by (rule claim_for_token_retain)
    moreover have "(token, d) \<notin> set (in_subordinate_claims i)" for d
      using own(1) by (force simp: bt_get_None_iff)
    ultimately show ?thesis
      using act tok unfolding active_claims_iff [OF inv] active_claims_iff [OF inv']
      by (auto simp: own(3))
  qed
  then show "active_claims i' = active_claims i - {c}" and "c \<in> active_claims i" and "pc_token c = token"
    using active_token_unique [OF inv] by blast+
qed

lemma active_lookup:
  assumes inv: "sync_inv i"
  shows "(case bt_get (in_subordinate_claims i) t of
      Some claim \<Rightarrow> Some claim | None \<Rightarrow> claim_for_token (in_claims i) t) = Some c \<longleftrightarrow>
    c \<in> active_claims i \<and> pc_token c = t"
proof (cases "bt_get (in_subordinate_claims i) t")
  case None
  then have "(t, d) \<notin> set (in_subordinate_claims i)" for d by (force simp: bt_get_None_iff)
  with None show ?thesis
    using claim_for_token_SomeD(1) [of "in_claims i" t c] by (auto simp: active_claims_iff [OF inv])
next
  case (Some d)
  then have d: "(t, d) \<in> set (in_subordinate_claims i)"
    by (simp add: bt_get_Some_iff [OF sync_invD(6) [OF inv]])
  have tok: "pc_token d = t" using d by (rule children_wfD(2) [OF sync_invD(4) [OF inv]])
  have act: "d \<in> active_claims i" using d tok by (simp add: active_claims_iff [OF inv])
  have "d = c" if "c \<in> active_claims i" "pc_token c = t"
    using active_token_unique [OF inv act that(1)] tok that(2) by simp
  with Some tok act show ?thesis by auto
qed

lemma agent_token_iff:
  assumes inv: "sync_inv i" and c: "c \<in> active_claims i"
  shows "pc_token c \<in> set (map (\<lambda>(_, entry). ce_token entry)
      (filter (\<lambda>(_, entry). ce_agent_id entry = a) (in_claims i)) @
    map (\<lambda>(_, claim). pc_token claim)
      (filter (\<lambda>(_, claim). pc_agent_id claim = a) (in_subordinate_claims i))) \<longleftrightarrow> pc_agent_id c = a"
    (is "?l \<longleftrightarrow> _")
proof
  assume ?l
  then consider (own) p e where "(p, e) \<in> set (in_claims i)" "ce_agent_id e = a" "pc_token c = ce_token e"
    | (child) t d where "(t, d) \<in> set (in_subordinate_claims i)" "pc_agent_id d = a" "pc_token c = pc_token d"
    by auto
  then show "pc_agent_id c = a"
  proof cases
    case own
    then have "claim_for_token (in_claims i) (pc_token c) \<noteq> None"
      unfolding claim_for_token_None_iff by force
    then have "claim_for_token (in_claims i) (pc_token c) = Some c"
      using c child_not_grouped [OF inv, of "pc_token c" c] unfolding active_claims_iff [OF inv] by auto
    from claim_for_token_SomeD(3) [OF this] obtain q f where
      "(q, f) \<in> set (in_claims i)" "ce_token f = pc_token c" "pc_agent_id c = ce_agent_id f" by blast
    with own claims_wfD(4) [OF sync_invD(2) [OF inv]] show ?thesis by metis
  next
    case child
    then have "d \<in> active_claims i"
      using children_wfD(2) [OF sync_invD(4) [OF inv]] unfolding active_claims_iff [OF inv] by blast
    from active_token_unique [OF inv c this child(3)] child(2) show ?thesis by simp
  qed
next
  assume a: "pc_agent_id c = a"
  from c consider "claim_for_token (in_claims i) (pc_token c) = Some c"
    | "(pc_token c, c) \<in> set (in_subordinate_claims i)"
    unfolding active_claims_iff [OF inv] by blast
  then show ?l
  proof cases
    case 1
    from claim_for_token_SomeD(3) [OF this] a show ?thesis by force
  next
    case 2
    with a show ?thesis by force
  qed
qed

lemma release_by_agent_active:
  assumes inv: "sync_inv i" and r: "release_by_agent_locked a i = (Inr cs, i')"
  shows "active_claims i' = {c \<in> active_claims i. pc_agent_id c \<noteq> a}"
    and "set cs = {c \<in> active_claims i. pc_agent_id c = a}"
proof -
  note i = sync_invD [OF inv]
  let ?tokens = "map (\<lambda>(_, entry). ce_token entry)
      (filter (\<lambda>(_, entry). ce_agent_id entry = a) (in_claims i)) @
    map (\<lambda>(_, claim). pc_token claim)
      (filter (\<lambda>(_, claim). pc_agent_id claim = a) (in_subordinate_claims i))"
  let ?look = "\<lambda>token. case bt_get (in_subordinate_claims i) token of
      Some claim \<Rightarrow> Some claim | None \<Rightarrow> claim_for_token (in_claims i) token"
  have cs: "cs = List.map_filter ?look (btree_set ?tokens)"
    and i': "i' = i\<lparr>in_claims := bt_retain (\<lambda>_ entry. ce_agent_id entry \<noteq> a) (in_claims i),
      in_subordinate_claims := bt_retain (\<lambda>_ claim. pc_agent_id claim \<noteq> a) (in_subordinate_claims i)\<rparr>"
    using r by (auto simp: release_by_agent_locked_def Let_def split: if_splits)
  have inv': "sync_inv i'" using release_by_agent_locked_inv [OF inv, of a] r by simp
  show "active_claims i' = {c \<in> active_claims i. pc_agent_id c \<noteq> a}"
    using active_claims_iff [OF inv] active_claims_iff [OF inv']
    by (auto simp: i' claim_for_token_retain_agent [OF i(2)] set_bt_retain)
  have look: "?look t = Some c \<longleftrightarrow> c \<in> active_claims i \<and> pc_token c = t" for t c
    using active_lookup [OF inv] .
  have "c \<in> set cs \<longleftrightarrow> (\<exists>t \<in> set ?tokens. ?look t = Some c)" for c
    unfolding cs by (force simp: List.map_filter_def image_iff)
  also have "(\<exists>t \<in> set ?tokens. ?look t = Some c) \<longleftrightarrow>
      c \<in> active_claims i \<and> pc_token c \<in> set ?tokens" for c
    unfolding look by blast
  finally have mem: "c \<in> set cs \<longleftrightarrow> c \<in> active_claims i \<and> pc_token c \<in> set ?tokens" for c .
  have "pc_token c \<in> set ?tokens \<longleftrightarrow> pc_agent_id c = a" if "c \<in> active_claims i" for c
    by (rule agent_token_iff [OF inv that])
  with mem show "set cs = {c \<in> active_claims i. pc_agent_id c = a}" by blast
qed

section \<open>Reachable coordinators\<close>

text \<open>A coordinator starts empty or from a stored snapshot, then any operations run on it, each
  whether it succeeds or fails. A thread that panics while holding the lock poisons it.\<close>

inductive sync_reachable :: "sync_coordinator \<Rightarrow> bool" where
  new: "sync_reachable new_coordinator"
| restored: "from_snapshot_with_subordinates snap bindings = Inr c \<Longrightarrow> sync_reachable c"
| claimed: "sync_reachable c \<Longrightarrow> sync_reachable (snd (claim_paths agent paths c))"
| subordinate: "sync_reachable c \<Longrightarrow>
    sync_reachable (snd (claim_subordinate_paths parent worker paths digest c))"
| released: "sync_reachable c \<Longrightarrow> sync_reachable (snd (release token c))"
| released_by_agent: "sync_reachable c \<Longrightarrow> sync_reachable (snd (release_by_agent agent c))"
| poisoned: "sync_reachable c \<Longrightarrow> sync_reachable (c\<lparr>sc_poisoned := True\<rparr>)"

lemma with_lock_inv:
  assumes "sync_inv (sc_inner c)" and "\<And>i. sync_inv i \<Longrightarrow> sync_inv (snd (body i))"
  shows "sync_inv (sc_inner (snd (with_lock c body)))"
  using assms(1) assms(2) [of "sc_inner c"] by (auto simp: with_lock_def split: prod.splits)

lemma subordinate_locked_keeps:
  assumes "sync_inv i"
  shows "sync_inv (snd (subordinate_locked parent w ps digest i))"
proof (cases "subordinate_locked parent w ps digest i")
  case (Pair r i')
  with assms show ?thesis
    by (cases r) (auto dest: subordinate_locked_Inl subordinate_locked_inv)
qed

lemma sync_reachable_inv: "sync_reachable c \<Longrightarrow> sync_inv (sc_inner c)"
proof (induction rule: sync_reachable.induct)
  case new
  then show ?case by (simp add: new_coordinator_def sync_inv_default)
next
  case (restored snap bindings c)
  then show ?case by (rule from_snapshot_with_subordinates_inv)
next
  case (claimed c agent paths)
  then show ?case
    by (auto simp: claim_paths_def split: sum.split intro!: with_lock_inv claim_locked_inv
        dest: normalize_agent_id_canonical normalize_claim_paths_canonical)
next
  case (subordinate c parent worker paths digest)
  then show ?case
    unfolding claim_subordinate_paths_def by (intro with_lock_inv subordinate_locked_keeps)
next
  case (released c token)
  then show ?case unfolding release_def by (intro with_lock_inv release_locked_inv)
next
  case (released_by_agent c agent)
  then show ?case
    by (auto simp: release_by_agent_def intro: with_lock_inv release_by_agent_locked_inv
        split: sum.split)
qed simp

section \<open>Write authority\<close>

text \<open>The contract a component that guards writes relies on: whoever may write is the owner.\<close>

locale write_authority =
  fixes valid :: "'s \<Rightarrow> bool"
    and owner :: "'s \<Rightarrow> 'p \<Rightarrow> 'a option"
    and may_write :: "'s \<Rightarrow> 'a \<Rightarrow> 'p \<Rightarrow> bool"
  assumes writer_owns: "valid s \<Longrightarrow> may_write s a p \<Longrightarrow> owner s p = Some a"
begin

lemma writer_unique: "valid s \<Longrightarrow> may_write s a p \<Longrightarrow> may_write s b p \<Longrightarrow> a = b"
  by (metis writer_owns option.inject)

lemma unowned_not_written: "valid s \<Longrightarrow> owner s p = None \<Longrightarrow> \<not> may_write s a p"
  using writer_owns by fastforce

end

interpretation claims: write_authority sync_inv owner_in may_write_in
  by unfold_locales (rule may_write_owner)

lemma can_write_Inr_iff:
  "can_write c a p = Inr w \<longleftrightarrow>
    (\<exists>agent path. normalize_agent_id a = Inr agent \<and> normalize_repo_path p = Inr path
      \<and> \<not> sc_poisoned c \<and> w = may_write_in (sc_inner c) agent path)"
  by (auto simp: can_write_def lock_inner_def result_iffs split: if_splits)

lemma owner_of_Inr_iff:
  "owner_of c p = Inr a \<longleftrightarrow>
    (\<exists>path. normalize_repo_path p = Inr path \<and> \<not> sc_poisoned c \<and> a = owner_in (sc_inner c) path)"
  by (auto simp: owner_of_def lock_inner_def result_iffs split: if_splits)

lemma child_paths_antichain:
  assumes "sync_inv i" and "(t, c) \<in> set (in_subordinate_claims i)"
  shows "canonical_paths (pc_paths c)" and "canonical_agent (pc_agent_id c)"
proof -
  have "child_wf (in_claims i) (in_subordinate_bindings i) c"
    using assms(2) by (rule children_wfD(3) [OF sync_invD(4) [OF assms(1)]])
  then show "canonical_paths (pc_paths c)" and "canonical_agent (pc_agent_id c)"
    using sync_invD(3) [OF assms(1)] unfolding child_wf_def bindings_wf_def binding_wf_def by metis+
qed

lemma owner_may_write_iff:
  assumes inv: "sync_inv i"
  shows "may_write_in i a p \<longleftrightarrow> owner_in i p = Some a
    \<and> (\<forall>(t, c) \<in> set (in_subordinate_claims i). \<forall>s \<in> set (pc_paths c). \<not> strict_prefix p s)"
    (is "?w \<longleftrightarrow> ?o \<and> ?below")
proof
  assume w: ?w
  have "\<not> strict_prefix p s" if tc: "(t, c) \<in> set (in_subordinate_claims i)" "s \<in> set (pc_paths c)" for t c s
  proof
    assume ps: "strict_prefix p s"
    then have ov: "paths_overlap p s" by (auto simp: overlap_iff_prefix strict_prefix_def)
    with w tc obtain u d r where d: "(u, d) \<in> set (in_subordinate_claims i)" "r \<in> set (pc_paths d)" "prefix r p"
      unfolding may_write_in_iff [OF inv] by blast
    then have rs: "paths_overlap r s" using ov overlap_below by blast
    with child_unique [OF inv d(1) tc(1) d(2) tc(2)] have "d = c" by blast
    with d tc rs child_paths_antichain(1) [OF inv tc(1)] have "r = s"
      unfolding canonical_paths_def antichain_def by blast
    with d(3) ps show False by (auto simp: strict_prefix_def)
  qed
  with may_write_owner [OF inv w] show "?o \<and> ?below" by blast
next
  assume *: "?o \<and> ?below"
  show ?w
  proof (cases "\<exists>(t, c) \<in> set (in_subordinate_claims i). \<exists>s \<in> set (pc_paths c). prefix s p")
    case True
    then obtain t c s where tc: "(t, c) \<in> set (in_subordinate_claims i)" "s \<in> set (pc_paths c)" "prefix s p"
      by blast
    then have w: "may_write_in i (pc_agent_id c) p" by (rule child_may_write [OF inv])
    with may_write_owner [OF inv w] * show ?thesis by simp
  next
    case False
    with * have free: "\<forall>(t, c) \<in> set (in_subordinate_claims i). \<forall>s \<in> set (pc_paths c). \<not> paths_overlap p s"
      unfolding overlap_iff_prefix strict_prefix_def by fastforce
    have "List.find (\<lambda>(_, claim). list_ex (\<lambda>scope. path_is_covered_by_claim p scope) (pc_paths claim))
      (in_subordinate_claims i) = None"
      using False by (auto simp: find_None_iff list_ex_iff covered_iff_prefix)
    with * obtain s e where "(s, e) \<in> set (in_claims i)" "prefix s p" "ce_agent_id e = a"
      by (auto simp: owner_in_def covered_iff_prefix dest!: find_SomeD)
    with free show ?thesis unfolding may_write_in_iff [OF inv] by blast
  qed
qed

lemma active_overlap_iff:
  assumes inv: "sync_inv i"
  shows "(\<exists>cl \<in> active_claims i. \<exists>q \<in> set (pc_paths cl). paths_overlap q p) \<longleftrightarrow>
    (\<exists>(q, e) \<in> set (in_claims i). paths_overlap q p)"
    (is "?act \<longleftrightarrow> ?tab")
proof
  assume ?act
  then obtain cl q where cl: "cl \<in> active_claims i" "q \<in> set (pc_paths cl)" "paths_overlap q p" by blast
  show ?tab
  proof (rule ccontr)
    assume no: "\<not> ?tab"
    from cl(1) consider "claim_for_token (in_claims i) (pc_token cl) = Some cl"
      | "(pc_token cl, cl) \<in> set (in_subordinate_claims i)"
      unfolding active_claims_iff [OF inv] by blast
    then show False
    proof cases
      case 1
      with cl(2,3) no show False unfolding claim_for_token_SomeD(2) [OF 1] by blast
    next
      case 2
      with free_of_children [OF inv _ 2 cl(2), of p] cl(3) no show False by blast
    qed
  qed
next
  assume ?tab
  then obtain q e where qe: "(q, e) \<in> set (in_claims i)" "paths_overlap q p" by blast
  then obtain cl where cl: "claim_for_token (in_claims i) (ce_token e) = Some cl"
    using claim_for_token_None_iff [of "in_claims i" "ce_token e"] by force
  moreover have "pc_token cl = ce_token e" by (rule claim_for_token_SomeD(1) [OF cl])
  ultimately have "cl \<in> active_claims i" by (simp add: active_claims_iff [OF inv])
  moreover have "q \<in> set (pc_paths cl)" using qe(1) unfolding claim_for_token_SomeD(2) [OF cl] by blast
  ultimately show ?act using qe(2) by blast
qed

lemma claim_locked_outcome:
  assumes inv: "sync_inv i" and a: "canonical_agent a" and ps: "canonical_paths ps"
    and n: "in_next_token i \<noteq> -1"
  shows "if \<exists>cl \<in> active_claims i. \<exists>q \<in> set (pc_paths cl). \<exists>p \<in> set ps. paths_overlap q p
    then \<exists>q agent. fst (claim_locked a ps i) = Inl (Conflict q agent)
      \<and> (\<exists>cl \<in> active_claims i. pc_agent_id cl = agent \<and> q \<in> set (pc_paths cl))
      \<and> (\<exists>p \<in> set ps. paths_overlap q p)
      \<and> snd (claim_locked a ps i) = i\<lparr>in_next_token := in_next_token i + 1\<rparr>
    else fst (claim_locked a ps i) = Inr \<lparr>pc_token = in_next_token i, pc_agent_id = a, pc_paths = ps\<rparr>
      \<and> active_claims (snd (claim_locked a ps i)) =
        insert \<lparr>pc_token = in_next_token i, pc_agent_id = a, pc_paths = ps\<rparr> (active_claims i)"
proof (rule claim_locked_cases [of i a ps])
  fix q f p assume c: "p \<in> set ps" "(q, f) \<in> set (in_claims i)" "paths_overlap q p"
    "claim_locked a ps i = (Inl (Conflict q (ce_agent_id f)), i\<lparr>in_next_token := in_next_token i + 1\<rparr>)"
  obtain cl where cl: "claim_for_token (in_claims i) (ce_token f) = Some cl"
    using claim_for_token_None_iff [of "in_claims i" "ce_token f"] c(2) by force
  have "pc_token cl = ce_token f" by (rule claim_for_token_SomeD(1) [OF cl])
  then have act: "cl \<in> active_claims i" using cl by (simp add: active_claims_iff [OF inv])
  have q: "q \<in> set (pc_paths cl)" using c(2) unfolding claim_for_token_SomeD(2) [OF cl] by blast
  have "pc_agent_id cl = ce_agent_id f"
    using claim_for_token_SomeD(3) [OF cl] c(2) claims_wfD(4) [OF sync_invD(2) [OF inv]] by metis
  with act q c show ?thesis by auto
next
  fix claims' assume ins: "insert_claim (in_claims i) (in_next_token i) a ps = Inr claims'"
    and c: "claim_locked a ps i = (Inr \<lparr>pc_token = in_next_token i, pc_agent_id = a, pc_paths = ps\<rparr>,
      i\<lparr>in_next_token := in_next_token i + 1, in_claims := claims'\<rparr>)"
  have "\<not> paths_overlap q p" if "p \<in> set ps" "(q, e) \<in> set (in_claims i)" for p q e
    using insert_claim_spec(3) [OF ins sync_invD(5) [OF inv] that] .
  then have "\<not> (\<exists>cl \<in> active_claims i. \<exists>q \<in> set (pc_paths cl). paths_overlap q p)" if "p \<in> set ps" for p
    unfolding active_overlap_iff [OF inv] using that by blast
  moreover note claim_granted_active(1) [OF inv a ps c]
  ultimately show ?thesis unfolding c by auto
qed (use n in simp)

lemma granted_may_write:
  assumes inv: "sync_inv i" and a: "canonical_agent a" and ps: "canonical_paths ps"
    and r: "claim_locked a ps i = (Inr c, i')" and s: "s \<in> set ps" "prefix s p"
  shows "may_write_in i' a p"
proof (rule claim_locked_cases [of i a ps])
  fix claims' assume ins: "insert_claim (in_claims i) (in_next_token i) a ps = Inr claims'"
    and c: "claim_locked a ps i = (Inr \<lparr>pc_token = in_next_token i, pc_agent_id = a, pc_paths = ps\<rparr>,
      i\<lparr>in_next_token := in_next_token i + 1, in_claims := claims'\<rparr>)"
  note spec = insert_claim_spec [OF ins sync_invD(5) [OF inv]]
  have i': "in_claims i' = claims'" "in_subordinate_claims i' = in_subordinate_claims i"
    using r c by auto
  have inv': "sync_inv i'" using claim_locked_inv [OF inv a ps] r by simp
  have "(s, \<lparr>ce_token = in_next_token i, ce_agent_id = a\<rparr>) \<in> set (in_claims i')"
    unfolding i' spec(2) using s(1) by blast
  moreover have "\<not> paths_overlap p q"
    if "(t, d) \<in> set (in_subordinate_claims i)" "q \<in> set (pc_paths d)" for t d q
  proof -
    have "\<not> paths_overlap q s" by (rule free_of_children [OF inv _ that]) (rule spec(3) [OF s(1)])
    with overlap_below [OF s(2)] show ?thesis by (metis paths_overlap_sym)
  qed
  ultimately show ?thesis
    unfolding may_write_in_iff [OF inv'] i' using s(2) by force
qed (use r in auto)

lemma release_locked_Inl:
  assumes inv: "sync_inv i" and r: "release_locked token i = (Inl e, i')"
  shows "e = ActiveSubordinates \<and> (\<exists>b \<in> set (in_subordinate_bindings i).
        sb_parent_token b = token \<and> sb_child_token b \<in> pc_token ` active_claims i)
      \<or> e = UnknownToken token \<and> token \<notin> pc_token ` active_claims i"
proof (cases "\<exists>b \<in> set (in_subordinate_bindings i). sb_parent_token b = token
    \<and> bt_get (in_subordinate_claims i) (sb_child_token b) \<noteq> None")
  case True
  then obtain b d where b: "b \<in> set (in_subordinate_bindings i)" "sb_parent_token b = token"
    "bt_get (in_subordinate_claims i) (sb_child_token b) = Some d" by auto
  have "e = ActiveSubordinates" using r True by (auto simp: release_locked_def list_ex_iff split: if_splits)
  moreover have "d \<in> active_claims i \<and> pc_token d = sb_child_token b"
    using active_lookup [OF inv, of "sb_child_token b" d] b(3) by simp
  ultimately show ?thesis using b(1,2) by (metis image_eqI)
next
  case False
  then have none: "bt_get (in_subordinate_claims i) token = None"
    "claim_for_token (in_claims i) token = None" "e = UnknownToken token"
    using r by (auto simp: release_locked_def list_ex_iff split: if_splits option.splits)
  have "token \<notin> pc_token ` active_claims i"
    using active_lookup [OF inv, of token] none(1,2) by force
  with none(3) show ?thesis by blast
qed

section \<open>Properties\<close>

text \<open>A small history used in the examples below: an agent claims two directories and hands a
  file of one of them to a Worker.\<close>

definition lead_claim :: path_claim where
  "lead_claim = \<lparr>pc_token = 1, pc_agent_id = ''lead'',
     pc_paths = [[Normal ''docs''], [Normal ''src'']]\<rparr>"

definition after_claim :: sync_coordinator where
  "after_claim = snd (claim_paths ''lead'' [[Normal ''src''], [Normal ''docs'']] new_coordinator)"

definition after_handoff :: sync_coordinator where
  "after_handoff = snd (claim_subordinate_paths lead_claim ''worker'' [[Normal ''src'', Normal ''a.rs'']]
     (replicate 64 (CHR ''0'')) after_claim)"

definition after_double_role :: sync_coordinator where
  "after_double_role = snd (claim_paths ''worker'' [[Normal ''tests'']] after_handoff)"

lemma after_claim_reachable: "sync_reachable after_claim"
  unfolding after_claim_def by (intro sync_reachable.claimed sync_reachable.new)

lemma after_handoff_reachable: "sync_reachable after_handoff"
  unfolding after_handoff_def by (intro sync_reachable.subordinate after_claim_reachable)

text \<open>C1. Whatever snapshot a coordinator was restored from and whatever operations ran on it,
  also those that failed, its claimed paths are normalised and pairwise disjoint, every token is
  issued and belongs to one agent, and every active Worker claim is bound to an active claim it
  lies strictly within.\<close>

theorem reachable_invariant:
  assumes "sync_reachable c"
  shows "sync_inv (sc_inner c)"
  using assms by (rule sync_reachable_inv)

theorem reachable_invariant_witness:
  "sync_inv (sc_inner after_handoff) \<and> length (in_subordinate_claims (sc_inner after_handoff)) = 1"
proof
  show "sync_inv (sc_inner after_handoff)"
    by (rule reachable_invariant [OF after_handoff_reachable])
  show "length (in_subordinate_claims (sc_inner after_handoff)) = 1" by code_simp
qed

text \<open>C2. No two agents may write the same path: if \<open>can_write\<close> says yes to two agent names, they
  normalise to the same agent.\<close>

theorem writers_exclusive:
  assumes "sync_reachable c" and "can_write c a p = Inr True" and "can_write c b p = Inr True"
  shows "normalize_agent_id a = normalize_agent_id b"
  using assms claims.writer_unique [OF sync_reachable_inv [OF assms(1)]]
  by (auto simp: can_write_Inr_iff)

theorem writers_exclusive_witness:
  "can_write after_handoff ''worker'' [Normal ''src'', Normal ''a.rs''] = Inr True
   \<and> can_write after_handoff ''worker '' [CurDir, Normal ''src'', Normal ''a.rs''] = Inr True
   \<and> normalize_agent_id ''worker'' = normalize_agent_id ''worker ''"
proof -
  have 1: "can_write after_handoff ''worker'' [CurDir, Normal ''src'', Normal ''a.rs''] = Inr True"
    by code_simp
  have 2: "can_write after_handoff ''worker '' [CurDir, Normal ''src'', Normal ''a.rs''] = Inr True"
    by code_simp
  have 3: "can_write after_handoff ''worker'' [Normal ''src'', Normal ''a.rs''] = Inr True" by code_simp
  from writers_exclusive [OF after_handoff_reachable 1 2] 2 3 show ?thesis by simp
qed

text \<open>C3. \<open>can_write\<close> and \<open>owner_of\<close> agree: an agent may write a path exactly when it owns the path
  and no Worker claim lies strictly beneath it.\<close>

theorem writer_iff_owner:
  assumes "sync_reachable c" and "\<not> sc_poisoned c"
    and "normalize_agent_id a = Inr agent" and "normalize_repo_path p = Inr path"
  shows "can_write c a p = Inr (owner_of c p = Inr (Some agent)
    \<and> list_all (\<lambda>(_, claim). list_all (\<lambda>scope. \<not> strict_prefix path scope) (pc_paths claim))
        (in_subordinate_claims (sc_inner c)))"
  using assms owner_may_write_iff [OF sync_reachable_inv [OF assms(1)], of agent path]
  by (auto simp: can_write_Inr_iff owner_of_Inr_iff list_all_iff)

theorem writer_iff_owner_witness:
  "can_write after_handoff ''lead'' [Normal ''src''] = Inr False
   \<and> owner_of after_handoff [Normal ''src''] = Inr (Some ''lead'')
   \<and> can_write after_handoff ''lead'' [Normal ''src''] = Inr (owner_of after_handoff [Normal ''src''] = Inr (Some ''lead'')
      \<and> list_all (\<lambda>(_, claim). list_all (\<lambda>scope. \<not> strict_prefix [Normal ''src''] scope) (pc_paths claim))
        (in_subordinate_claims (sc_inner after_handoff)))"
proof -
  have 1: "\<not> sc_poisoned after_handoff" by code_simp
  have 2: "normalize_agent_id ''lead'' = Inr ''lead''" by code_simp
  have 3: "normalize_repo_path [Normal ''src''] = Inr [Normal ''src'']" by code_simp
  have 4: "can_write after_handoff ''lead'' [Normal ''src''] = Inr False" by code_simp
  have 5: "owner_of after_handoff [Normal ''src''] = Inr (Some ''lead'')" by code_simp
  from writer_iff_owner [OF after_handoff_reachable 1 2 3] 4 5 show ?thesis by blast
qed

text \<open>C4. What a well-formed request gets while tokens last: it is refused with a genuine conflict,
  an active claim of the reported agent that overlaps the request, and nothing but the token
  counter changes, if any active claim overlaps it; otherwise the active claims gain exactly the
  returned claim for the normalised paths.\<close>

theorem claim_paths_outcome:
  assumes "sync_reachable c" and "\<not> sc_poisoned c" and "in_next_token (sc_inner c) \<noteq> -1"
    and "normalize_agent_id a = Inr agent" and "normalize_claim_paths ps = Inr paths"
  shows "if \<exists>cl \<in> active_claims (sc_inner c). \<exists>q \<in> set (pc_paths cl). \<exists>p \<in> set paths. paths_overlap q p
    then \<exists>q holder. fst (claim_paths a ps c) = Inl (Conflict q holder)
      \<and> (\<exists>cl \<in> active_claims (sc_inner c). pc_agent_id cl = holder \<and> q \<in> set (pc_paths cl))
      \<and> (\<exists>p \<in> set paths. paths_overlap q p)
      \<and> sc_inner (snd (claim_paths a ps c)) =
          (sc_inner c)\<lparr>in_next_token := in_next_token (sc_inner c) + 1\<rparr>
    else fst (claim_paths a ps c) =
        Inr \<lparr>pc_token = in_next_token (sc_inner c), pc_agent_id = agent, pc_paths = paths\<rparr>
      \<and> active_claims (sc_inner (snd (claim_paths a ps c))) =
        insert \<lparr>pc_token = in_next_token (sc_inner c), pc_agent_id = agent, pc_paths = paths\<rparr>
          (active_claims (sc_inner c))"
  using claim_locked_outcome [OF sync_reachable_inv [OF assms(1)]
      normalize_agent_id_canonical [OF assms(4)] normalize_claim_paths_canonical [OF assms(5)] assms(3)]
    assms(2,4,5)
  by (auto simp: claim_paths_def with_lock_def case_prod_unfold split: if_splits)

theorem claim_paths_outcome_witness:
  "fst (claim_paths ''other'' [[Normal ''src'', Normal ''a.rs'', Normal ''x'']] after_handoff) =
     Inl (Conflict [Normal ''src''] ''lead'')
   \<and> (\<exists>cl \<in> active_claims (sc_inner after_handoff).
        pc_agent_id cl = ''lead'' \<and> [Normal ''src''] \<in> set (pc_paths cl))"
proof -
  let ?ps = "[[Normal ''src'', Normal ''a.rs'', Normal ''x'']]"
  have 1: "\<not> sc_poisoned after_handoff" by code_simp
  have 2: "in_next_token (sc_inner after_handoff) \<noteq> -1" by code_simp
  have 3: "normalize_agent_id ''other'' = Inr ''other''" by code_simp
  have 4: "normalize_claim_paths ?ps = Inr ?ps" by code_simp
  have 5: "fst (claim_paths ''other'' ?ps after_handoff) = Inl (Conflict [Normal ''src''] ''lead'')"
    by code_simp
  from claim_paths_outcome [OF after_handoff_reachable 1 2 3 4] 5 show ?thesis
    by (auto split: if_splits)
qed

text \<open>A successful claim carries the write right for every requested path.\<close>

theorem claim_then_write:
  assumes "sync_reachable c" and "claim_paths a ps c = (Inr claim, c')" and "p \<in> set ps"
  shows "can_write c' a p = Inr True"
proof -
  from assms(2) obtain agent paths where a: "normalize_agent_id a = Inr agent"
    and ps: "normalize_claim_paths ps = Inr paths"
    and r: "claim_locked agent paths (sc_inner c) = (Inr claim, sc_inner c')" and c': "\<not> sc_poisoned c'"
    by (auto simp: claim_paths_def with_lock_def split: sum.splits if_splits prod.splits)
  obtain n s where n: "normalize_repo_path p = Inr n" and s: "s \<in> set paths" "prefix s n"
    using normalize_claim_paths_covers [OF ps assms(3)] .
  have "may_write_in (sc_inner c') agent n"
    using granted_may_write [OF sync_reachable_inv [OF assms(1)] normalize_agent_id_canonical [OF a]
        normalize_claim_paths_canonical [OF ps] r s] .
  with a n c' show ?thesis by (auto simp: can_write_Inr_iff)
qed

theorem claim_then_write_witness:
  "can_write after_claim ''lead'' [Normal ''src''] = Inr True"
proof -
  have r: "claim_paths ''lead'' [[Normal ''src''], [Normal ''docs'']] new_coordinator =
      (Inr lead_claim, after_claim)"
    by code_simp
  show ?thesis by (rule claim_then_write [OF sync_reachable.new r]) simp
qed

text \<open>C5. A Worker claim isolates its scope: from the moment it is granted, every path under it can
  be written by the Worker and by no one else, the parent included; the Worker is not the parent
  and the scope leaves the parent something of its own.\<close>

theorem worker_isolation:
  assumes "sync_reachable c"
    and "claim_subordinate_paths parent worker ps digest c = (Inr claim, c')"
    and "s \<in> set ps" and "normalize_repo_path p = Inr path" and "prefix s path"
    and "normalize_agent_id b = Inr agent"
  shows "can_write c' b p = Inr (agent = worker) \<and> worker \<noteq> pc_agent_id parent
    \<and> (\<exists>q \<in> set (pc_paths parent). \<forall>r \<in> set ps. \<not> prefix r q)"
proof (intro conjI)
  have r: "subordinate_locked parent worker ps digest (sc_inner c) = (Inr claim, sc_inner c')"
    and c': "\<not> sc_poisoned c'"
    using assms(2) by (auto simp: claim_subordinate_paths_def with_lock_def split: if_splits prod.splits)
  note inv = sync_reachable_inv [OF assms(1)]
  have inv': "sync_inv (sc_inner c')" by (rule subordinate_locked_inv [OF inv r])
  obtain next' where val: "validate_subordinate_scope (sc_inner c) parent worker ps = Inr ()"
    and claim: "claim = \<lparr>pc_token = in_next_token (sc_inner c), pc_agent_id = worker, pc_paths = ps\<rparr>"
    and subs: "in_subordinate_claims (sc_inner c') =
      bt_insert (in_next_token (sc_inner c)) claim (in_subordinate_claims (sc_inner c))"
    using r by (rule subordinate_locked_InrE) simp
  show "worker \<noteq> pc_agent_id parent" "\<exists>q \<in> set (pc_paths parent). \<forall>r \<in> set ps. \<not> prefix r q"
    using validate_subordinate_scope_InrD(3) [OF val] by (auto simp: within_parent_def)
  have "(in_next_token (sc_inner c), claim) \<in> set (in_subordinate_claims (sc_inner c'))"
    by (simp add: subs set_bt_insert [OF sync_invD(6) [OF inv]])
  then have w: "may_write_in (sc_inner c') worker path"
    using child_may_write [OF inv' _ _ assms(5), of _ claim] assms(3) by (simp add: claim)
  then have "may_write_in (sc_inner c') agent path \<longleftrightarrow> agent = worker"
    using claims.writer_unique [OF inv'] by blast
  with c' assms(4,6) show "can_write c' b p = Inr (agent = worker)" by (auto simp: can_write_Inr_iff)
qed

theorem worker_isolation_witness:
  "can_write after_handoff ''worker'' [Normal ''src'', Normal ''a.rs''] = Inr True
   \<and> can_write after_handoff ''lead'' [Normal ''src'', Normal ''a.rs''] = Inr False"
proof -
  have r: "claim_subordinate_paths lead_claim ''worker'' [[Normal ''src'', Normal ''a.rs'']]
      (replicate 64 (CHR ''0'')) after_claim =
      (Inr \<lparr>pc_token = 2, pc_agent_id = ''worker'', pc_paths = [[Normal ''src'', Normal ''a.rs'']]\<rparr>,
       after_handoff)"
    by code_simp
  have p: "normalize_repo_path [Normal ''src'', Normal ''a.rs''] = Inr [Normal ''src'', Normal ''a.rs'']"
    by code_simp
  have w: "normalize_agent_id ''worker'' = Inr ''worker''" by code_simp
  have l: "normalize_agent_id ''lead'' = Inr ''lead''" by code_simp
  show ?thesis
    using worker_isolation [OF after_claim_reachable r _ p _ w]
      worker_isolation [OF after_claim_reachable r _ p _ l] by simp
qed



text \<open>Releasing an agent returns exactly its active claims and leaves exactly the claims of the
  other agents.\<close>

theorem release_by_agent_outcome:
  assumes "sync_reachable c" and "release_by_agent a c = (Inr released, c')"
    and "normalize_agent_id a = Inr agent"
  shows "set released = {claim \<in> active_claims (sc_inner c). pc_agent_id claim = agent}
    \<and> active_claims (sc_inner c') = {claim \<in> active_claims (sc_inner c). pc_agent_id claim \<noteq> agent}"
proof -
  have r: "release_by_agent_locked agent (sc_inner c) = (Inr released, sc_inner c')"
    using assms(2,3) by (auto simp: release_by_agent_def with_lock_def split: if_splits prod.splits)
  from release_by_agent_active [OF sync_reachable_inv [OF assms(1)] r] show ?thesis by simp
qed

theorem release_by_agent_outcome_witness:
  "\<exists>released c'. release_by_agent ''worker'' after_handoff = (Inr released, c')
     \<and> set released = {claim \<in> active_claims (sc_inner after_handoff). pc_agent_id claim = ''worker''}
     \<and> length released = 1"
proof -
  have r: "release_by_agent ''worker'' after_handoff =
      (Inr [\<lparr>pc_token = 2, pc_agent_id = ''worker'', pc_paths = [[Normal ''src'', Normal ''a.rs'']]\<rparr>],
       snd (release_by_agent ''worker'' after_handoff))"
    by code_simp
  have a: "normalize_agent_id ''worker'' = Inr ''worker''" by code_simp
  show ?thesis
    by (intro exI conjI, rule r, rule conjunct1 [OF release_by_agent_outcome [OF after_handoff_reachable r a]], simp)
qed

text \<open>C7. Saving and restoring is exact: if no agent holds a Worker claim and an ordinary claim at
  once, the snapshot of a coordinator with its subordinate bindings restores that coordinator.\<close>

theorem snapshot_round_trip:
  assumes "sync_reachable c" and "no_double_role (sc_inner c)"
    and "to_snapshot c = Inr snap" and "subordinate_bindings c = Inr bindings"
  shows "from_snapshot_with_subordinates snap bindings = Inr c"
proof -
  have p: "\<not> sc_poisoned c" and s: "snap = \<lparr>ss_next_token = in_next_token (sc_inner c), ss_claims = all_claims (sc_inner c)\<rparr>"
    and b: "bindings = in_subordinate_bindings (sc_inner c)"
    using assms(3,4) by (auto simp: to_snapshot_def subordinate_bindings_def lock_inner_def split: if_splits)
  have "c = \<lparr>sc_inner = sc_inner c, sc_poisoned = False\<rparr>" using p by (cases c) simp
  with snapshot_restores [OF sync_reachable_inv [OF assms(1)] assms(2)] s b show ?thesis by simp
qed

theorem snapshot_round_trip_witness:
  "\<exists>snap bindings. to_snapshot after_handoff = Inr snap \<and> subordinate_bindings after_handoff = Inr bindings
     \<and> from_snapshot_with_subordinates snap bindings = Inr after_handoff"
proof -
  have 1: "no_double_role (sc_inner after_handoff)"
  proof -
    have "\<forall>x \<in> set (in_subordinate_claims (sc_inner after_handoff)).
        \<forall>y \<in> set (in_claims (sc_inner after_handoff)). ce_agent_id (snd y) \<noteq> pc_agent_id (snd x)"
      by code_simp
    then show ?thesis unfolding no_double_role_def by fastforce
  qed
  obtain snap bindings where 2: "to_snapshot after_handoff = Inr snap"
    and 3: "subordinate_bindings after_handoff = Inr bindings"
  proof
    have p: "\<not> sc_poisoned after_handoff" by code_simp
    then show "to_snapshot after_handoff = Inr \<lparr>ss_next_token = in_next_token (sc_inner after_handoff),
        ss_claims = all_claims (sc_inner after_handoff)\<rparr>"
      by (simp add: to_snapshot_def lock_inner_def)
    show "subordinate_bindings after_handoff = Inr (in_subordinate_bindings (sc_inner after_handoff))"
      using p by (simp add: subordinate_bindings_def lock_inner_def)
  qed
  from snapshot_round_trip [OF after_handoff_reachable 1 2 3] 2 3 show ?thesis by blast
qed

text \<open>C8. The side condition of C9 is needed. \<open>claim_paths\<close> lets a Worker with an active
  subordinate claim take an ordinary claim too, and the coordinator that results cannot be restored
  from its own snapshot: \<open>from_snapshot_with_subordinates\<close> rejects it.\<close>

theorem own_snapshot_rejected:
  "sync_reachable after_double_role
   \<and> fst (claim_paths ''worker'' [[Normal ''tests'']] after_handoff) =
       Inr \<lparr>pc_token = 3, pc_agent_id = ''worker'', pc_paths = [[Normal ''tests'']]\<rparr>
   \<and> and_then (to_snapshot after_double_role) (\<lambda>snap.
       and_then (subordinate_bindings after_double_role) (from_snapshot_with_subordinates snap)) =
     Inl InvalidSubordinateClaim"
proof (intro conjI)
  show "sync_reachable after_double_role"
    unfolding after_double_role_def by (intro sync_reachable.claimed after_handoff_reachable)
  show "fst (claim_paths ''worker'' [[Normal ''tests'']] after_handoff) =
      Inr \<lparr>pc_token = 3, pc_agent_id = ''worker'', pc_paths = [[Normal ''tests'']]\<rparr>" by code_simp
  show "and_then (to_snapshot after_double_role) (\<lambda>snap.
       and_then (subordinate_bindings after_double_role) (from_snapshot_with_subordinates snap)) =
     Inl InvalidSubordinateClaim" by code_simp
qed

end
