(* ===== verification/Lease.thy ===== *)
theory Lease
  imports Ordered
begin

text \<open>
  Identity-bound leases of follow-up queue items (\<^verbatim>\<open>src/src/follow_up_queue/lease.rs\<close>).
  A lease state is rebuilt from a journal of events; every event is validated, applied to a copy of
  the state, and the copy is validated before it replaces the state.

  The lemmas show that the second validation never rejects anything, that a started effect fences
  the lease for good, that a generation belongs to one proof, and that journal time moves forward.
\<close>

section \<open>Data\<close>

record lease_proof =
  lp_worker :: string
  lp_lease_id :: string
  lp_generation :: u64

record reclaim_lineage =
  rl_predecessor :: lease_proof
  rl_predecessor_expires_at :: u64
  rl_reclaimed_at :: u64
  rl_successor :: lease_proof

record lease_grant =
  lg_proof :: lease_proof
  lg_observed_at :: u64
  lg_expires_at :: u64

record lease_heartbeat =
  lh_proof :: lease_proof
  lh_observed_at :: u64
  lh_expires_at :: u64

record bound_observation =
  bo_proof :: lease_proof
  bo_observed_at :: u64

record lease_reclaim =
  lr_lineage :: reclaim_lineage
  lr_successor_expires_at :: u64

datatype lease_event =
    Ev_Claimed lease_grant
  | Ev_Heartbeat lease_heartbeat
  | Ev_Released bound_observation
  | Ev_Reclaimed lease_reclaim
  | Ev_EffectStarted bound_observation
  | Ev_Acknowledged bound_observation

datatype lease_phase = Ph_Available | Ph_Active | Ph_EffectFenced | Ph_Acknowledged

record available_lease =
  al_last_generation :: u64
  al_last_observed_at :: "u64 option"
  al_last_reclaim :: "reclaim_lineage option"

record active_lease =
  ac_proof :: lease_proof
  ac_issued_at :: u64
  ac_last_heartbeat_at :: u64
  ac_expires_at :: u64
  ac_last_reclaim :: "reclaim_lineage option"

record effect_fenced_lease =
  ef_active :: active_lease
  ef_effect_started_at :: u64
  ef_post_effect_heartbeat :: "lease_heartbeat option"

record acknowledged_lease =
  ak_fence :: effect_fenced_lease
  ak_acknowledged_at :: u64

datatype lease_state =
    St_Available available_lease
  | St_Active active_lease
  | St_EffectFenced effect_fenced_lease
  | St_Acknowledged acknowledged_lease

text \<open>One error per place the code bails out.\<close>

datatype lease_error =
    NotCanonicalIdentifier string
  | ZeroGeneration
  | ReclaimPrecedesExpiry
  | GenerationOverflow string
  | NotSuccessorGeneration
  | SameLeaseIdentity
  | ExpiryNotAfterObservation string
  | InitialStateWithEvidence
  | OmitsLastObservation
  | HeartbeatPrecedesIssuance
  | NotLiveAtHeartbeat
  | LineageMismatch
  | EffectStartNotAdvancing
  | EffectStartExpired
  | ShortensFrozenExpiry
  | PostEffectHeartbeatExpired
  | AckPrecedesObservation
  | RequiresAcknowledged
  | RequiresAvailable
  | NotNextGeneration string
  | ShortensExpiry string
  | RequiresActiveOrFenced
  | RequiresActive string
  | PredecessorExpiryMismatch
  | ReclaimBeforeExpiry
  | RequiresFenced
  | AckMovedBackward
  | ProofMismatch string
  | ObservedOnExpired string
  | TimeNotAdvanced string
  | LineageNewerThanGeneration
  | LineageNewerThanObservation

section \<open>Validation\<close>

definition MAX_CANONICAL_ID_BYTES :: nat where
  "MAX_CANONICAL_ID_BYTES = 128"

definition validate_canonical_identifier :: "string \<Rightarrow> string \<Rightarrow> lease_error + unit" where
  "validate_canonical_identifier value label =
     (if value = [] \<or> length value > MAX_CANONICAL_ID_BYTES \<or> value = ''.'' \<or> value = ''..''
        \<or> \<not> list_all (\<lambda>byte. is_ascii_alphanumeric byte \<or> byte \<in> set ''-_.'') value
      then Inl (NotCanonicalIdentifier label) else Inr ())"

definition worker_identity_new :: "string \<Rightarrow> lease_error + string" where
  "worker_identity_new value =
     and_then (validate_canonical_identifier value ''worker identity'') (\<lambda>_. Inr value)"

definition lease_identity_new :: "string \<Rightarrow> lease_error + string" where
  "lease_identity_new value =
     and_then (validate_canonical_identifier value ''lease identity'') (\<lambda>_. Inr value)"

definition proof_validate :: "lease_proof \<Rightarrow> lease_error + unit" where
  "proof_validate p =
     and_then (validate_canonical_identifier (lp_worker p) ''worker identity'') (\<lambda>_.
     and_then (validate_canonical_identifier (lp_lease_id p) ''lease identity'') (\<lambda>_.
     ensure (lp_generation p \<noteq> 0) ZeroGeneration))"

definition lineage_validate :: "reclaim_lineage \<Rightarrow> lease_error + unit" where
  "lineage_validate l =
     and_then (proof_validate (rl_predecessor l)) (\<lambda>_.
     and_then (proof_validate (rl_successor l)) (\<lambda>_.
     and_then (ensure (\<not> rl_reclaimed_at l < rl_predecessor_expires_at l) ReclaimPrecedesExpiry) (\<lambda>_.
     and_then (ok_or (checked_add (lp_generation (rl_predecessor l)) 1) (GenerationOverflow ''reclaim''))
       (\<lambda>expected_generation.
     and_then (ensure (lp_generation (rl_successor l) = expected_generation) NotSuccessorGeneration) (\<lambda>_.
     ensure (lp_lease_id (rl_successor l) \<noteq> lp_lease_id (rl_predecessor l)) SameLeaseIdentity)))))"

definition grant_validate :: "lease_grant \<Rightarrow> lease_error + unit" where
  "grant_validate g =
     and_then (proof_validate (lg_proof g)) (\<lambda>_.
     ensure (lg_observed_at g < lg_expires_at g) (ExpiryNotAfterObservation ''grant''))"

definition heartbeat_validate :: "lease_heartbeat \<Rightarrow> lease_error + unit" where
  "heartbeat_validate h =
     and_then (proof_validate (lh_proof h)) (\<lambda>_.
     ensure (lh_observed_at h < lh_expires_at h) (ExpiryNotAfterObservation ''heartbeat''))"

definition observation_validate :: "bound_observation \<Rightarrow> lease_error + unit" where
  "observation_validate b = proof_validate (bo_proof b)"

definition reclaim_validate :: "lease_reclaim \<Rightarrow> lease_error + unit" where
  "reclaim_validate r =
     and_then (lineage_validate (lr_lineage r)) (\<lambda>_.
     ensure (rl_reclaimed_at (lr_lineage r) < lr_successor_expires_at r)
       (ExpiryNotAfterObservation ''reclaim''))"

fun event_validate :: "lease_event \<Rightarrow> lease_error + unit" where
  "event_validate (Ev_Claimed g) = grant_validate g"
| "event_validate (Ev_Heartbeat h) = heartbeat_validate h"
| "event_validate (Ev_Released b) = observation_validate b"
| "event_validate (Ev_EffectStarted b) = observation_validate b"
| "event_validate (Ev_Acknowledged b) = observation_validate b"
| "event_validate (Ev_Reclaimed r) = reclaim_validate r"

definition validate_retained_lineage ::
  "reclaim_lineage option \<Rightarrow> u64 \<Rightarrow> u64 \<Rightarrow> lease_error + unit" where
  "validate_retained_lineage lineage current_generation current_observed_at =
     (case lineage of None \<Rightarrow> Inr ()
      | Some l \<Rightarrow>
          and_then (lineage_validate l) (\<lambda>_.
          and_then (ensure (\<not> current_generation < lp_generation (rl_successor l))
            LineageNewerThanGeneration) (\<lambda>_.
          ensure (\<not> current_observed_at < rl_reclaimed_at l) LineageNewerThanObservation)))"

definition available_validate :: "available_lease \<Rightarrow> lease_error + unit" where
  "available_validate a =
     (if al_last_generation a = 0
      then ensure (al_last_observed_at a = None \<and> al_last_reclaim a = None) InitialStateWithEvidence
      else and_then (ok_or (al_last_observed_at a) OmitsLastObservation) (\<lambda>observed_at.
        validate_retained_lineage (al_last_reclaim a) (al_last_generation a) observed_at))"

definition active_validate :: "active_lease \<Rightarrow> lease_error + unit" where
  "active_validate a =
     and_then (proof_validate (ac_proof a)) (\<lambda>_.
     and_then (ensure (\<not> ac_last_heartbeat_at a < ac_issued_at a) HeartbeatPrecedesIssuance) (\<lambda>_.
     and_then (ensure (ac_last_heartbeat_at a < ac_expires_at a) NotLiveAtHeartbeat) (\<lambda>_.
     and_then (validate_retained_lineage (ac_last_reclaim a) (lp_generation (ac_proof a))
       (ac_issued_at a)) (\<lambda>_.
     case ac_last_reclaim a of None \<Rightarrow> Inr ()
     | Some l \<Rightarrow> ensure (\<not> (lp_generation (rl_successor l) = lp_generation (ac_proof a)
         \<and> (rl_successor l \<noteq> ac_proof a \<or> rl_reclaimed_at l \<noteq> ac_issued_at a))) LineageMismatch))))"

definition require_exact_proof :: "lease_proof \<Rightarrow> lease_proof \<Rightarrow> string \<Rightarrow> lease_error + unit" where
  "require_exact_proof expected presented action = ensure (presented = expected) (ProofMismatch action)"

definition require_strict_time_advance :: "u64 \<Rightarrow> u64 \<Rightarrow> string \<Rightarrow> lease_error + unit" where
  "require_strict_time_advance previous observed_at action =
     ensure (previous < observed_at) (TimeNotAdvanced action)"

definition require_live_observation :: "active_lease \<Rightarrow> u64 \<Rightarrow> string \<Rightarrow> lease_error + unit" where
  "require_live_observation active observed_at action =
     and_then (require_strict_time_advance (ac_last_heartbeat_at active) observed_at action) (\<lambda>_.
     ensure (observed_at < ac_expires_at active) (ObservedOnExpired action))"

definition live_expires_at :: "effect_fenced_lease \<Rightarrow> u64" where
  "live_expires_at f = (case ef_post_effect_heartbeat f of
     Some h \<Rightarrow> lh_expires_at h | None \<Rightarrow> ac_expires_at (ef_active f))"

definition latest_observation_at :: "effect_fenced_lease \<Rightarrow> u64" where
  "latest_observation_at f = (case ef_post_effect_heartbeat f of
     Some h \<Rightarrow> lh_observed_at h | None \<Rightarrow> ef_effect_started_at f)"

definition last_heartbeat_observation_at :: "effect_fenced_lease \<Rightarrow> u64" where
  "last_heartbeat_observation_at f = (case ef_post_effect_heartbeat f of
     Some h \<Rightarrow> lh_observed_at h | None \<Rightarrow> ac_last_heartbeat_at (ef_active f))"

definition fenced_validate :: "effect_fenced_lease \<Rightarrow> lease_error + unit" where
  "fenced_validate f =
     and_then (active_validate (ef_active f)) (\<lambda>_.
     and_then (ensure (ac_last_heartbeat_at (ef_active f) < ef_effect_started_at f)
       EffectStartNotAdvancing) (\<lambda>_.
     and_then (ensure (ef_effect_started_at f < ac_expires_at (ef_active f)) EffectStartExpired) (\<lambda>_.
     case ef_post_effect_heartbeat f of None \<Rightarrow> Inr ()
     | Some h \<Rightarrow>
         and_then (heartbeat_validate h) (\<lambda>_.
         and_then (require_exact_proof (ac_proof (ef_active f)) (lh_proof h)
           ''post-effect lease heartbeat'') (\<lambda>_.
         and_then (require_strict_time_advance (ef_effect_started_at f) (lh_observed_at h)
           ''post-effect lease heartbeat'') (\<lambda>_.
         and_then (ensure (\<not> lh_expires_at h < ac_expires_at (ef_active f)) ShortensFrozenExpiry) (\<lambda>_.
         ensure (lh_observed_at h < live_expires_at f) PostEffectHeartbeatExpired)))))))"

definition acknowledged_validate :: "acknowledged_lease \<Rightarrow> lease_error + unit" where
  "acknowledged_validate a =
     and_then (fenced_validate (ak_fence a)) (\<lambda>_.
     ensure (\<not> ak_acknowledged_at a < latest_observation_at (ak_fence a)) AckPrecedesObservation)"

fun state_validate :: "lease_state \<Rightarrow> lease_error + unit" where
  "state_validate (St_Available a) = available_validate a"
| "state_validate (St_Active a) = active_validate a"
| "state_validate (St_EffectFenced f) = fenced_validate f"
| "state_validate (St_Acknowledged a) = acknowledged_validate a"

section \<open>Construction\<close>

text \<open>Values are built through checked constructors, from parts or from their stored form.\<close>

definition proof_new :: "string \<Rightarrow> string \<Rightarrow> u64 \<Rightarrow> lease_error + lease_proof" where
  "proof_new worker lease_id generation =
     (let p = \<lparr>lp_worker = worker, lp_lease_id = lease_id, lp_generation = generation\<rparr> in
      and_then (proof_validate p) (\<lambda>_. Inr p))"

definition proof_try_from :: "lease_proof \<Rightarrow> lease_error + lease_proof" where
  "proof_try_from wire =
     and_then (worker_identity_new (lp_worker wire)) (\<lambda>worker.
     and_then (lease_identity_new (lp_lease_id wire)) (\<lambda>lease_id.
     proof_new worker lease_id (lp_generation wire)))"

definition lineage_new ::
  "lease_proof \<Rightarrow> u64 \<Rightarrow> u64 \<Rightarrow> lease_proof \<Rightarrow> lease_error + reclaim_lineage" where
  "lineage_new predecessor predecessor_expires_at reclaimed_at successor =
     (let l = \<lparr>rl_predecessor = predecessor, rl_predecessor_expires_at = predecessor_expires_at,
               rl_reclaimed_at = reclaimed_at, rl_successor = successor\<rparr> in
      and_then (lineage_validate l) (\<lambda>_. Inr l))"

definition lineage_try_from :: "reclaim_lineage \<Rightarrow> lease_error + reclaim_lineage" where
  "lineage_try_from wire =
     and_then (proof_try_from (rl_predecessor wire)) (\<lambda>predecessor.
     and_then (proof_try_from (rl_successor wire)) (\<lambda>successor.
     lineage_new predecessor (rl_predecessor_expires_at wire) (rl_reclaimed_at wire) successor))"

definition grant_new :: "lease_proof \<Rightarrow> u64 \<Rightarrow> u64 \<Rightarrow> lease_error + lease_grant" where
  "grant_new p observed_at expires_at =
     (let g = \<lparr>lg_proof = p, lg_observed_at = observed_at, lg_expires_at = expires_at\<rparr> in
      and_then (grant_validate g) (\<lambda>_. Inr g))"

definition heartbeat_new :: "lease_proof \<Rightarrow> u64 \<Rightarrow> u64 \<Rightarrow> lease_error + lease_heartbeat" where
  "heartbeat_new p observed_at expires_at =
     (let h = \<lparr>lh_proof = p, lh_observed_at = observed_at, lh_expires_at = expires_at\<rparr> in
      and_then (heartbeat_validate h) (\<lambda>_. Inr h))"

definition heartbeat_try_from :: "lease_heartbeat \<Rightarrow> lease_error + lease_heartbeat" where
  "heartbeat_try_from wire =
     and_then (proof_try_from (lh_proof wire)) (\<lambda>p.
     heartbeat_new p (lh_observed_at wire) (lh_expires_at wire))"

definition observation_new :: "lease_proof \<Rightarrow> u64 \<Rightarrow> lease_error + bound_observation" where
  "observation_new p observed_at =
     and_then (proof_validate p) (\<lambda>_. Inr \<lparr>bo_proof = p, bo_observed_at = observed_at\<rparr>)"

definition reclaim_new :: "reclaim_lineage \<Rightarrow> u64 \<Rightarrow> lease_error + lease_reclaim" where
  "reclaim_new lineage successor_expires_at =
     (let r = \<lparr>lr_lineage = lineage, lr_successor_expires_at = successor_expires_at\<rparr> in
      and_then (reclaim_validate r) (\<lambda>_. Inr r))"

definition grant_try_from :: "lease_grant \<Rightarrow> lease_error + lease_grant" where
  "grant_try_from wire =
     and_then (proof_try_from (lg_proof wire)) (\<lambda>p.
     grant_new p (lg_observed_at wire) (lg_expires_at wire))"

definition observation_try_from :: "bound_observation \<Rightarrow> lease_error + bound_observation" where
  "observation_try_from wire =
     and_then (proof_try_from (bo_proof wire)) (\<lambda>p. observation_new p (bo_observed_at wire))"

definition reclaim_try_from :: "lease_reclaim \<Rightarrow> lease_error + lease_reclaim" where
  "reclaim_try_from wire =
     and_then (lineage_try_from (lr_lineage wire)) (\<lambda>lineage.
     reclaim_new lineage (lr_successor_expires_at wire))"

fun event_decode :: "lease_event \<Rightarrow> lease_error + lease_event" where
  "event_decode (Ev_Claimed g) = and_then (grant_try_from g) (\<lambda>g. Inr (Ev_Claimed g))"
| "event_decode (Ev_Heartbeat h) = and_then (heartbeat_try_from h) (\<lambda>h. Inr (Ev_Heartbeat h))"
| "event_decode (Ev_Released b) = and_then (observation_try_from b) (\<lambda>b. Inr (Ev_Released b))"
| "event_decode (Ev_Reclaimed r) = and_then (reclaim_try_from r) (\<lambda>r. Inr (Ev_Reclaimed r))"
| "event_decode (Ev_EffectStarted b) =
     and_then (observation_try_from b) (\<lambda>b. Inr (Ev_EffectStarted b))"
| "event_decode (Ev_Acknowledged b) =
     and_then (observation_try_from b) (\<lambda>b. Inr (Ev_Acknowledged b))"

definition event_claimed :: "lease_proof \<Rightarrow> u64 \<Rightarrow> u64 \<Rightarrow> lease_error + lease_event" where
  "event_claimed p observed_at expires_at =
     and_then (grant_new p observed_at expires_at) (\<lambda>g. Inr (Ev_Claimed g))"

definition event_heartbeat :: "lease_proof \<Rightarrow> u64 \<Rightarrow> u64 \<Rightarrow> lease_error + lease_event" where
  "event_heartbeat p observed_at expires_at =
     and_then (heartbeat_new p observed_at expires_at) (\<lambda>h. Inr (Ev_Heartbeat h))"

definition event_released :: "lease_proof \<Rightarrow> u64 \<Rightarrow> lease_error + lease_event" where
  "event_released p observed_at = and_then (observation_new p observed_at) (\<lambda>b. Inr (Ev_Released b))"

definition event_reclaimed ::
  "lease_proof \<Rightarrow> u64 \<Rightarrow> u64 \<Rightarrow> lease_proof \<Rightarrow> u64 \<Rightarrow> lease_error + lease_event" where
  "event_reclaimed predecessor predecessor_expires_at observed_at successor successor_expires_at =
     and_then (lineage_new predecessor predecessor_expires_at observed_at successor) (\<lambda>lineage.
     and_then (reclaim_new lineage successor_expires_at) (\<lambda>r. Inr (Ev_Reclaimed r)))"

definition event_effect_started :: "lease_proof \<Rightarrow> u64 \<Rightarrow> lease_error + lease_event" where
  "event_effect_started p observed_at =
     and_then (observation_new p observed_at) (\<lambda>b. Inr (Ev_EffectStarted b))"

definition event_acknowledged :: "lease_proof \<Rightarrow> u64 \<Rightarrow> lease_error + lease_event" where
  "event_acknowledged p observed_at =
     and_then (observation_new p observed_at) (\<lambda>b. Inr (Ev_Acknowledged b))"

fun event_resulting_proof :: "lease_event \<Rightarrow> lease_proof" where
  "event_resulting_proof (Ev_Claimed g) = lg_proof g"
| "event_resulting_proof (Ev_Heartbeat h) = lh_proof h"
| "event_resulting_proof (Ev_Released b) = bo_proof b"
| "event_resulting_proof (Ev_EffectStarted b) = bo_proof b"
| "event_resulting_proof (Ev_Acknowledged b) = bo_proof b"
| "event_resulting_proof (Ev_Reclaimed r) = rl_successor (lr_lineage r)"

fun event_observed_at :: "lease_event \<Rightarrow> u64" where
  "event_observed_at (Ev_Claimed g) = lg_observed_at g"
| "event_observed_at (Ev_Heartbeat h) = lh_observed_at h"
| "event_observed_at (Ev_Released b) = bo_observed_at b"
| "event_observed_at (Ev_EffectStarted b) = bo_observed_at b"
| "event_observed_at (Ev_Acknowledged b) = bo_observed_at b"
| "event_observed_at (Ev_Reclaimed r) = rl_reclaimed_at (lr_lineage r)"

definition lineage_option_try_from ::
  "reclaim_lineage option \<Rightarrow> lease_error + reclaim_lineage option" where
  "lineage_option_try_from wire =
     (case wire of None \<Rightarrow> Inr None | Some l \<Rightarrow> and_then (lineage_try_from l) (\<lambda>l. Inr (Some l)))"

definition available_try_from :: "available_lease \<Rightarrow> lease_error + available_lease" where
  "available_try_from wire =
     and_then (lineage_option_try_from (al_last_reclaim wire)) (\<lambda>last_reclaim.
     (let a = \<lparr>al_last_generation = al_last_generation wire,
               al_last_observed_at = al_last_observed_at wire, al_last_reclaim = last_reclaim\<rparr> in
      and_then (available_validate a) (\<lambda>_. Inr a)))"

definition active_try_from :: "active_lease \<Rightarrow> lease_error + active_lease" where
  "active_try_from wire =
     and_then (proof_try_from (ac_proof wire)) (\<lambda>p.
     and_then (lineage_option_try_from (ac_last_reclaim wire)) (\<lambda>last_reclaim.
     (let a = \<lparr>ac_proof = p, ac_issued_at = ac_issued_at wire,
               ac_last_heartbeat_at = ac_last_heartbeat_at wire,
               ac_expires_at = ac_expires_at wire, ac_last_reclaim = last_reclaim\<rparr> in
      and_then (active_validate a) (\<lambda>_. Inr a))))"

definition fenced_try_from :: "effect_fenced_lease \<Rightarrow> lease_error + effect_fenced_lease" where
  "fenced_try_from wire =
     and_then (active_try_from (ef_active wire)) (\<lambda>active.
     and_then (case ef_post_effect_heartbeat wire of None \<Rightarrow> Inr None
               | Some h \<Rightarrow> and_then (heartbeat_try_from h) (\<lambda>h. Inr (Some h))) (\<lambda>heartbeat.
     (let f = \<lparr>ef_active = active, ef_effect_started_at = ef_effect_started_at wire,
               ef_post_effect_heartbeat = heartbeat\<rparr> in
      and_then (fenced_validate f) (\<lambda>_. Inr f))))"

definition acknowledged_try_from :: "acknowledged_lease \<Rightarrow> lease_error + acknowledged_lease" where
  "acknowledged_try_from wire =
     and_then (fenced_try_from (ak_fence wire)) (\<lambda>fence.
     (let a = \<lparr>ak_fence = fence, ak_acknowledged_at = ak_acknowledged_at wire\<rparr> in
      and_then (acknowledged_validate a) (\<lambda>_. Inr a)))"

fun state_decode :: "lease_state \<Rightarrow> lease_error + lease_state" where
  "state_decode (St_Available a) = and_then (available_try_from a) (\<lambda>a. Inr (St_Available a))"
| "state_decode (St_Active a) = and_then (active_try_from a) (\<lambda>a. Inr (St_Active a))"
| "state_decode (St_EffectFenced f) = and_then (fenced_try_from f) (\<lambda>f. Inr (St_EffectFenced f))"
| "state_decode (St_Acknowledged a) =
     and_then (acknowledged_try_from a) (\<lambda>a. Inr (St_Acknowledged a))"

section \<open>The state machine\<close>

definition initial_lease :: lease_state where
  "initial_lease = St_Available
     \<lparr>al_last_generation = 0, al_last_observed_at = None, al_last_reclaim = None\<rparr>"

fun lease_phase_of :: "lease_state \<Rightarrow> lease_phase" where
  "lease_phase_of (St_Available _) = Ph_Available"
| "lease_phase_of (St_Active _) = Ph_Active"
| "lease_phase_of (St_EffectFenced _) = Ph_EffectFenced"
| "lease_phase_of (St_Acknowledged _) = Ph_Acknowledged"

fun lease_generation :: "lease_state \<Rightarrow> u64" where
  "lease_generation (St_Available a) = al_last_generation a"
| "lease_generation (St_Active a) = lp_generation (ac_proof a)"
| "lease_generation (St_EffectFenced f) = lp_generation (ac_proof (ef_active f))"
| "lease_generation (St_Acknowledged a) = lp_generation (ac_proof (ef_active (ak_fence a)))"

fun lease_active_proof :: "lease_state \<Rightarrow> lease_proof option" where
  "lease_active_proof (St_Available _) = None"
| "lease_active_proof (St_Active a) = Some (ac_proof a)"
| "lease_active_proof (St_EffectFenced f) = Some (ac_proof (ef_active f))"
| "lease_active_proof (St_Acknowledged a) = Some (ac_proof (ef_active (ak_fence a)))"

fun lease_expires_at :: "lease_state \<Rightarrow> u64 option" where
  "lease_expires_at (St_Available _) = None"
| "lease_expires_at (St_Active a) = Some (ac_expires_at a)"
| "lease_expires_at (St_EffectFenced f) = Some (live_expires_at f)"
| "lease_expires_at (St_Acknowledged a) = Some (live_expires_at (ak_fence a))"

fun lease_issued_at :: "lease_state \<Rightarrow> u64 option" where
  "lease_issued_at (St_Available _) = None"
| "lease_issued_at (St_Active a) = Some (ac_issued_at a)"
| "lease_issued_at (St_EffectFenced f) = Some (ac_issued_at (ef_active f))"
| "lease_issued_at (St_Acknowledged a) = Some (ac_issued_at (ef_active (ak_fence a)))"

fun lease_last_heartbeat_at :: "lease_state \<Rightarrow> u64 option" where
  "lease_last_heartbeat_at (St_Available _) = None"
| "lease_last_heartbeat_at (St_Active a) = Some (ac_last_heartbeat_at a)"
| "lease_last_heartbeat_at (St_EffectFenced f) = Some (last_heartbeat_observation_at f)"
| "lease_last_heartbeat_at (St_Acknowledged a) = Some (last_heartbeat_observation_at (ak_fence a))"

fun lease_last_observed_at :: "lease_state \<Rightarrow> u64 option" where
  "lease_last_observed_at (St_Available a) = al_last_observed_at a"
| "lease_last_observed_at (St_Active a) = Some (ac_last_heartbeat_at a)"
| "lease_last_observed_at (St_EffectFenced f) = Some (latest_observation_at f)"
| "lease_last_observed_at (St_Acknowledged a) = Some (ak_acknowledged_at a)"

fun lease_last_reclaim :: "lease_state \<Rightarrow> reclaim_lineage option" where
  "lease_last_reclaim (St_Available a) = al_last_reclaim a"
| "lease_last_reclaim (St_Active a) = ac_last_reclaim a"
| "lease_last_reclaim (St_EffectFenced f) = ac_last_reclaim (ef_active f)"
| "lease_last_reclaim (St_Acknowledged a) = ac_last_reclaim (ef_active (ak_fence a))"

fun lease_effect_started_at :: "lease_state \<Rightarrow> u64 option" where
  "lease_effect_started_at (St_EffectFenced f) = Some (ef_effect_started_at f)"
| "lease_effect_started_at (St_Acknowledged a) = Some (ef_effect_started_at (ak_fence a))"
| "lease_effect_started_at _ = None"

fun lease_acknowledged_at :: "lease_state \<Rightarrow> u64 option" where
  "lease_acknowledged_at (St_Acknowledged a) = Some (ak_acknowledged_at a)"
| "lease_acknowledged_at _ = None"

fun for_next_occurrence :: "lease_state \<Rightarrow> lease_error + lease_state" where
  "for_next_occurrence (St_Acknowledged acknowledged) =
     (let active = ef_active (ak_fence acknowledged);
          available = \<lparr>al_last_generation = lp_generation (ac_proof active),
            al_last_observed_at = Some (ak_acknowledged_at acknowledged),
            al_last_reclaim = ac_last_reclaim active\<rparr>
      in and_then (available_validate available) (\<lambda>_. Inr (St_Available available)))"
| "for_next_occurrence _ = Inl RequiresAcknowledged"

definition apply_claim :: "lease_state \<Rightarrow> lease_grant \<Rightarrow> lease_error + lease_state" where
  "apply_claim s grant =
     (case s of St_Available available \<Rightarrow>
        and_then (case al_last_observed_at available of None \<Rightarrow> Inr ()
          | Some previous \<Rightarrow>
              require_strict_time_advance previous (lg_observed_at grant) ''lease claim'') (\<lambda>_.
        and_then (ok_or (checked_add (al_last_generation available) 1) (GenerationOverflow ''claim''))
          (\<lambda>expected_generation.
        and_then (ensure (lp_generation (lg_proof grant) = expected_generation)
          (NotNextGeneration ''claim'')) (\<lambda>_.
        Inr (St_Active \<lparr>ac_proof = lg_proof grant, ac_issued_at = lg_observed_at grant,
          ac_last_heartbeat_at = lg_observed_at grant, ac_expires_at = lg_expires_at grant,
          ac_last_reclaim = al_last_reclaim available\<rparr>))))
      | _ \<Rightarrow> Inl RequiresAvailable)"

definition apply_heartbeat :: "lease_state \<Rightarrow> lease_heartbeat \<Rightarrow> lease_error + lease_state" where
  "apply_heartbeat s heartbeat =
     (case s of
        St_Active active \<Rightarrow>
          and_then (require_exact_proof (ac_proof active) (lh_proof heartbeat) ''lease heartbeat'') (\<lambda>_.
          and_then (require_live_observation active (lh_observed_at heartbeat) ''lease heartbeat'') (\<lambda>_.
          and_then (ensure (\<not> lh_expires_at heartbeat < ac_expires_at active)
            (ShortensExpiry ''lease heartbeat'')) (\<lambda>_.
          Inr (St_Active (active\<lparr>ac_last_heartbeat_at := lh_observed_at heartbeat,
            ac_expires_at := lh_expires_at heartbeat\<rparr>)))))
      | St_EffectFenced fence \<Rightarrow>
          and_then (require_exact_proof (ac_proof (ef_active fence)) (lh_proof heartbeat)
            ''post-effect lease heartbeat'') (\<lambda>_.
          (let latest_observation = latest_observation_at fence;
               live_expiry = live_expires_at fence in
           and_then (require_strict_time_advance latest_observation (lh_observed_at heartbeat)
             ''post-effect lease heartbeat'') (\<lambda>_.
           and_then (ensure (lh_observed_at heartbeat < live_expiry) PostEffectHeartbeatExpired) (\<lambda>_.
           and_then (ensure (\<not> lh_expires_at heartbeat < live_expiry)
             (ShortensExpiry ''post-effect lease heartbeat'')) (\<lambda>_.
           and_then (ensure (\<not> lh_expires_at heartbeat < ac_expires_at (ef_active fence))
             ShortensFrozenExpiry) (\<lambda>_.
           Inr (St_EffectFenced (fence\<lparr>ef_post_effect_heartbeat := Some heartbeat\<rparr>))))))))
      | _ \<Rightarrow> Inl RequiresActiveOrFenced)"

definition apply_release :: "lease_state \<Rightarrow> bound_observation \<Rightarrow> lease_error + lease_state" where
  "apply_release s observation =
     (case s of St_Active active \<Rightarrow>
        and_then (require_exact_proof (ac_proof active) (bo_proof observation) ''lease release'') (\<lambda>_.
        and_then (require_live_observation active (bo_observed_at observation) ''lease release'') (\<lambda>_.
        Inr (St_Available \<lparr>al_last_generation = lp_generation (ac_proof active),
          al_last_observed_at = Some (bo_observed_at observation),
          al_last_reclaim = ac_last_reclaim active\<rparr>)))
      | _ \<Rightarrow> Inl (RequiresActive ''lease release''))"

definition apply_reclaim :: "lease_state \<Rightarrow> lease_reclaim \<Rightarrow> lease_error + lease_state" where
  "apply_reclaim s reclaim =
     (case s of St_Active active \<Rightarrow>
        (let lineage = lr_lineage reclaim in
        and_then (require_exact_proof (ac_proof active) (rl_predecessor lineage)
          ''lease reclaim predecessor'') (\<lambda>_.
        and_then (ensure (rl_predecessor_expires_at lineage = ac_expires_at active)
          PredecessorExpiryMismatch) (\<lambda>_.
        and_then (ensure (\<not> rl_reclaimed_at lineage < ac_expires_at active) ReclaimBeforeExpiry) (\<lambda>_.
        and_then (ok_or (checked_add (lp_generation (ac_proof active)) 1)
          (GenerationOverflow ''reclaim'')) (\<lambda>expected_generation.
        and_then (ensure (lp_generation (rl_successor lineage) = expected_generation)
          (NotNextGeneration ''reclaim'')) (\<lambda>_.
        Inr (St_Active \<lparr>ac_proof = rl_successor lineage, ac_issued_at = rl_reclaimed_at lineage,
          ac_last_heartbeat_at = rl_reclaimed_at lineage,
          ac_expires_at = lr_successor_expires_at reclaim, ac_last_reclaim = Some lineage\<rparr>)))))))
      | _ \<Rightarrow> Inl (RequiresActive ''lease reclaim''))"

definition apply_effect_start :: "lease_state \<Rightarrow> bound_observation \<Rightarrow> lease_error + lease_state" where
  "apply_effect_start s observation =
     (case s of St_Active active \<Rightarrow>
        and_then (require_exact_proof (ac_proof active) (bo_proof observation) ''effect start'') (\<lambda>_.
        and_then (require_live_observation active (bo_observed_at observation) ''effect start'') (\<lambda>_.
        Inr (St_EffectFenced \<lparr>ef_active = active, ef_effect_started_at = bo_observed_at observation,
          ef_post_effect_heartbeat = None\<rparr>)))
      | _ \<Rightarrow> Inl (RequiresActive ''effect start''))"

definition apply_acknowledgement ::
  "lease_state \<Rightarrow> bound_observation \<Rightarrow> lease_error + lease_state" where
  "apply_acknowledgement s observation =
     (case s of St_EffectFenced fence \<Rightarrow>
        and_then (require_exact_proof (ac_proof (ef_active fence)) (bo_proof observation)
          ''lease acknowledgement'') (\<lambda>_.
        and_then (ensure (\<not> bo_observed_at observation < latest_observation_at fence)
          AckMovedBackward) (\<lambda>_.
        Inr (St_Acknowledged \<lparr>ak_fence = fence, ak_acknowledged_at = bo_observed_at observation\<rparr>)))
      | _ \<Rightarrow> Inl RequiresFenced)"

fun apply_in_place :: "lease_state \<Rightarrow> lease_event \<Rightarrow> lease_error + lease_state" where
  "apply_in_place s (Ev_Claimed g) = apply_claim s g"
| "apply_in_place s (Ev_Heartbeat h) = apply_heartbeat s h"
| "apply_in_place s (Ev_Released b) = apply_release s b"
| "apply_in_place s (Ev_Reclaimed r) = apply_reclaim s r"
| "apply_in_place s (Ev_EffectStarted b) = apply_effect_start s b"
| "apply_in_place s (Ev_Acknowledged b) = apply_acknowledgement s b"

text \<open>A rejected event leaves the state unchanged, since only the result of a whole successful
  application replaces it.\<close>

definition lease_apply :: "lease_state \<Rightarrow> lease_event \<Rightarrow> lease_error + lease_state" where
  "lease_apply s event =
     and_then (event_validate event) (\<lambda>_.
     and_then (apply_in_place s event) (\<lambda>next.
     and_then (state_validate next) (\<lambda>_. Inr next)))"

definition lease_replay :: "lease_event list \<Rightarrow> lease_error + lease_state" where
  "lease_replay events = replay lease_apply initial_lease events"

section \<open>Valid states\<close>

definition lineage_ok :: "reclaim_lineage option \<Rightarrow> u64 \<Rightarrow> u64 \<Rightarrow> bool" where
  "lineage_ok lineage g t \<longleftrightarrow> (\<forall>l. lineage = Some l \<longrightarrow>
     lineage_validate l = Inr () \<and> lp_generation (rl_successor l) \<le> g \<and> rl_reclaimed_at l \<le> t)"

lemma validate_retained_lineage_iff [result_iffs]:
  "validate_retained_lineage lineage g t = Inr () \<longleftrightarrow> lineage_ok lineage g t"
  by (auto simp: validate_retained_lineage_def lineage_ok_def result_iffs not_less split: option.splits)

lemma lineage_ok_mono: "lineage_ok lineage g t \<Longrightarrow> g \<le> g' \<Longrightarrow> t \<le> t' \<Longrightarrow> lineage_ok lineage g' t'"
  by (auto simp: lineage_ok_def intro: order_trans)

lemma available_validate_iff [result_iffs]:
  "available_validate a = Inr () \<longleftrightarrow>
    (if al_last_generation a = 0 then al_last_observed_at a = None \<and> al_last_reclaim a = None
     else \<exists>t. al_last_observed_at a = Some t \<and> lineage_ok (al_last_reclaim a) (al_last_generation a) t)"
  by (auto simp: available_validate_def result_iffs)

lemma active_validate_iff [result_iffs]:
  "active_validate a = Inr () \<longleftrightarrow>
    proof_validate (ac_proof a) = Inr () \<and> ac_issued_at a \<le> ac_last_heartbeat_at a
    \<and> ac_last_heartbeat_at a < ac_expires_at a
    \<and> lineage_ok (ac_last_reclaim a) (lp_generation (ac_proof a)) (ac_issued_at a)
    \<and> (\<forall>l. ac_last_reclaim a = Some l \<longrightarrow> lp_generation (rl_successor l) = lp_generation (ac_proof a) \<longrightarrow>
         rl_successor l = ac_proof a \<and> rl_reclaimed_at l = ac_issued_at a)"
  by (auto simp: active_validate_def result_iffs not_less split: option.splits)

lemma heartbeat_validate_iff [result_iffs]:
  "heartbeat_validate h = Inr () \<longleftrightarrow> proof_validate (lh_proof h) = Inr () \<and> lh_observed_at h < lh_expires_at h"
  by (simp add: heartbeat_validate_def result_iffs)

lemma fenced_validate_iff [result_iffs]:
  "fenced_validate f = Inr () \<longleftrightarrow>
    active_validate (ef_active f) = Inr ()
    \<and> ac_last_heartbeat_at (ef_active f) < ef_effect_started_at f
    \<and> ef_effect_started_at f < ac_expires_at (ef_active f)
    \<and> (\<forall>h. ef_post_effect_heartbeat f = Some h \<longrightarrow>
         lh_proof h = ac_proof (ef_active f) \<and> ef_effect_started_at f < lh_observed_at h
         \<and> ac_expires_at (ef_active f) \<le> lh_expires_at h \<and> lh_observed_at h < lh_expires_at h)"
  by (auto simp: fenced_validate_def result_iffs require_exact_proof_def require_strict_time_advance_def
      live_expires_at_def not_less split: option.splits)

lemma acknowledged_validate_iff [result_iffs]:
  "acknowledged_validate a = Inr () \<longleftrightarrow>
    fenced_validate (ak_fence a) = Inr () \<and> latest_observation_at (ak_fence a) \<le> ak_acknowledged_at a"
  by (simp add: acknowledged_validate_def result_iffs not_less)

lemmas lease_guards = require_exact_proof_def require_strict_time_advance_def
  require_live_observation_def result_iffs not_less

lemma proof_validate_positive: "proof_validate p = Inr () \<Longrightarrow> lp_generation p \<noteq> 0"
  by (simp add: proof_validate_def result_iffs)

section \<open>What each event does\<close>

lemma apply_claim_Inr:
  "apply_claim s g = Inr t \<longleftrightarrow> (\<exists>a. s = St_Available a
     \<and> (\<forall>u. al_last_observed_at a = Some u \<longrightarrow> u < lg_observed_at g)
     \<and> checked_add (al_last_generation a) 1 = Some (lp_generation (lg_proof g))
     \<and> t = St_Active \<lparr>ac_proof = lg_proof g, ac_issued_at = lg_observed_at g,
          ac_last_heartbeat_at = lg_observed_at g, ac_expires_at = lg_expires_at g,
          ac_last_reclaim = al_last_reclaim a\<rparr>)"
  by (auto simp: apply_claim_def lease_guards split: lease_state.splits option.splits)

lemma apply_heartbeat_Inr:
  "apply_heartbeat s h = Inr t \<longleftrightarrow>
    (\<exists>a. s = St_Active a \<and> lh_proof h = ac_proof a \<and> ac_last_heartbeat_at a < lh_observed_at h
       \<and> lh_observed_at h < ac_expires_at a \<and> ac_expires_at a \<le> lh_expires_at h
       \<and> t = St_Active (a\<lparr>ac_last_heartbeat_at := lh_observed_at h, ac_expires_at := lh_expires_at h\<rparr>))
    \<or> (\<exists>f. s = St_EffectFenced f \<and> lh_proof h = ac_proof (ef_active f)
       \<and> latest_observation_at f < lh_observed_at h \<and> lh_observed_at h < live_expires_at f
       \<and> live_expires_at f \<le> lh_expires_at h \<and> ac_expires_at (ef_active f) \<le> lh_expires_at h
       \<and> t = St_EffectFenced (f\<lparr>ef_post_effect_heartbeat := Some h\<rparr>))"
  by (auto simp: apply_heartbeat_def lease_guards Let_def split: lease_state.splits)

lemma apply_release_Inr:
  "apply_release s b = Inr t \<longleftrightarrow>
    (\<exists>a. s = St_Active a \<and> bo_proof b = ac_proof a \<and> ac_last_heartbeat_at a < bo_observed_at b
       \<and> bo_observed_at b < ac_expires_at a
       \<and> t = St_Available \<lparr>al_last_generation = lp_generation (ac_proof a),
            al_last_observed_at = Some (bo_observed_at b), al_last_reclaim = ac_last_reclaim a\<rparr>)"
  by (auto simp: apply_release_def lease_guards split: lease_state.splits)

lemma apply_reclaim_Inr:
  "apply_reclaim s r = Inr t \<longleftrightarrow>
    (\<exists>a. s = St_Active a \<and> rl_predecessor (lr_lineage r) = ac_proof a
       \<and> rl_predecessor_expires_at (lr_lineage r) = ac_expires_at a
       \<and> ac_expires_at a \<le> rl_reclaimed_at (lr_lineage r)
       \<and> checked_add (lp_generation (ac_proof a)) 1 = Some (lp_generation (rl_successor (lr_lineage r)))
       \<and> t = St_Active \<lparr>ac_proof = rl_successor (lr_lineage r),
            ac_issued_at = rl_reclaimed_at (lr_lineage r),
            ac_last_heartbeat_at = rl_reclaimed_at (lr_lineage r),
            ac_expires_at = lr_successor_expires_at r, ac_last_reclaim = Some (lr_lineage r)\<rparr>)"
  by (auto simp: apply_reclaim_def lease_guards Let_def split: lease_state.splits)

lemma apply_effect_start_Inr:
  "apply_effect_start s b = Inr t \<longleftrightarrow>
    (\<exists>a. s = St_Active a \<and> bo_proof b = ac_proof a \<and> ac_last_heartbeat_at a < bo_observed_at b
       \<and> bo_observed_at b < ac_expires_at a
       \<and> t = St_EffectFenced \<lparr>ef_active = a, ef_effect_started_at = bo_observed_at b,
            ef_post_effect_heartbeat = None\<rparr>)"
  by (auto simp: apply_effect_start_def lease_guards split: lease_state.splits)

lemma apply_acknowledgement_Inr:
  "apply_acknowledgement s b = Inr t \<longleftrightarrow>
    (\<exists>f. s = St_EffectFenced f \<and> bo_proof b = ac_proof (ef_active f)
       \<and> latest_observation_at f \<le> bo_observed_at b
       \<and> t = St_Acknowledged \<lparr>ak_fence = f, ak_acknowledged_at = bo_observed_at b\<rparr>)"
  by (auto simp: apply_acknowledgement_def lease_guards split: lease_state.splits)

lemmas apply_Inr = apply_claim_Inr apply_heartbeat_Inr apply_release_Inr apply_reclaim_Inr
  apply_effect_start_Inr apply_acknowledgement_Inr

text \<open>The validation after an application is redundant: from a valid state a validated event that
  applies leads to a valid state.\<close>

lemma claim_keeps_valid:
  assumes "state_validate s = Inr ()" and "grant_validate g = Inr ()" and "apply_claim s g = Inr t"
  shows "state_validate t = Inr ()"
proof -
  obtain a where s: "s = St_Available a" and adv: "\<forall>u. al_last_observed_at a = Some u \<longrightarrow> u < lg_observed_at g"
    and gen: "checked_add (al_last_generation a) 1 = Some (lp_generation (lg_proof g))"
    and t: "t = St_Active \<lparr>ac_proof = lg_proof g, ac_issued_at = lg_observed_at g,
          ac_last_heartbeat_at = lg_observed_at g, ac_expires_at = lg_expires_at g,
          ac_last_reclaim = al_last_reclaim a\<rparr>"
    using assms(3) unfolding apply_claim_Inr by blast
  have less: "al_last_generation a < lp_generation (lg_proof g)"
    using checked_add_one_Some [OF gen] by simp
  have lin: "lineage_ok (al_last_reclaim a) (lp_generation (lg_proof g)) (lg_observed_at g)"
    using assms(1) adv less
    by (auto simp: s result_iffs lineage_ok_def split: if_splits)
  have older: "lp_generation (rl_successor l) \<noteq> lp_generation (lg_proof g)"
    if "al_last_reclaim a = Some l" for l
    using assms(1) that less by (auto simp: s result_iffs lineage_ok_def split: if_splits)
  show ?thesis
    using assms(2) lin older by (auto simp: t grant_validate_def result_iffs)
qed

lemma heartbeat_keeps_valid:
  assumes "state_validate s = Inr ()" and "heartbeat_validate h = Inr ()"
    and "apply_heartbeat s h = Inr t"
  shows "state_validate t = Inr ()"
  using assms(3) unfolding apply_heartbeat_Inr
proof (elim disjE exE conjE)
  fix a assume "s = St_Active a" "ac_last_heartbeat_at a < lh_observed_at h"
    "t = St_Active (a\<lparr>ac_last_heartbeat_at := lh_observed_at h, ac_expires_at := lh_expires_at h\<rparr>)"
  with assms(1,2) show ?thesis by (auto simp: result_iffs)
next
  fix f assume s: "s = St_EffectFenced f" and p: "lh_proof h = ac_proof (ef_active f)"
    "latest_observation_at f < lh_observed_at h" "ac_expires_at (ef_active f) \<le> lh_expires_at h"
    and t: "t = St_EffectFenced (f\<lparr>ef_post_effect_heartbeat := Some h\<rparr>)"
  have "ef_effect_started_at f < lh_observed_at h"
    using assms(1) p(2) by (auto simp: s result_iffs latest_observation_at_def split: option.splits)
  with assms(1,2) p show ?thesis by (auto simp: s t result_iffs)
qed

lemma release_keeps_valid:
  assumes "state_validate s = Inr ()" and "apply_release s b = Inr t"
  shows "state_validate t = Inr ()"
proof -
  obtain a where s: "s = St_Active a" and adv: "ac_last_heartbeat_at a < bo_observed_at b"
    and t: "t = St_Available \<lparr>al_last_generation = lp_generation (ac_proof a),
      al_last_observed_at = Some (bo_observed_at b), al_last_reclaim = ac_last_reclaim a\<rparr>"
    using assms(2) unfolding apply_release_Inr by blast
  have p: "proof_validate (ac_proof a) = Inr ()" and le: "ac_issued_at a \<le> bo_observed_at b"
    and lin: "lineage_ok (ac_last_reclaim a) (lp_generation (ac_proof a)) (ac_issued_at a)"
    using assms(1) adv by (auto simp: s result_iffs)
  with proof_validate_positive [OF p] lineage_ok_mono [OF lin order_refl le] show ?thesis
    by (simp add: t result_iffs)
qed

lemma reclaim_keeps_valid:
  assumes "reclaim_validate r = Inr ()" and "apply_reclaim s r = Inr t"
  shows "state_validate t = Inr ()"
proof -
  let ?l = "lr_lineage r"
  have l: "lineage_validate ?l = Inr ()" "rl_reclaimed_at ?l < lr_successor_expires_at r"
    using assms(1) by (simp_all add: reclaim_validate_def result_iffs)
  then have "proof_validate (rl_successor ?l) = Inr ()"
    by (simp add: lineage_validate_def result_iffs)
  moreover have "t = St_Active \<lparr>ac_proof = rl_successor ?l, ac_issued_at = rl_reclaimed_at ?l,
      ac_last_heartbeat_at = rl_reclaimed_at ?l, ac_expires_at = lr_successor_expires_at r,
      ac_last_reclaim = Some ?l\<rparr>"
    using assms(2) unfolding apply_reclaim_Inr by blast
  ultimately show ?thesis using l by (simp add: active_validate_iff lineage_ok_def)
qed

lemma effect_start_keeps_valid:
  assumes "state_validate s = Inr ()" and "apply_effect_start s b = Inr t"
  shows "state_validate t = Inr ()"
  using assms unfolding apply_effect_start_Inr by (auto simp: result_iffs)

lemma acknowledgement_keeps_valid:
  assumes "state_validate s = Inr ()" and "apply_acknowledgement s b = Inr t"
  shows "state_validate t = Inr ()"
  using assms unfolding apply_acknowledgement_Inr by (auto simp: result_iffs)

lemma apply_in_place_keeps_valid:
  assumes "state_validate s = Inr ()" and "event_validate e = Inr ()" and "apply_in_place s e = Inr t"
  shows "state_validate t = Inr ()"
proof (cases e)
  case (Ev_Claimed g)
  with assms claim_keeps_valid [OF assms(1)] show ?thesis by simp
next
  case (Ev_Heartbeat h)
  with assms heartbeat_keeps_valid [OF assms(1)] show ?thesis by simp
next
  case (Ev_Released b)
  with assms release_keeps_valid [OF assms(1)] show ?thesis by simp
next
  case (Ev_Reclaimed r)
  with assms reclaim_keeps_valid [of r s] show ?thesis by simp
next
  case (Ev_EffectStarted b)
  with assms effect_start_keeps_valid [OF assms(1)] show ?thesis by simp
next
  case (Ev_Acknowledged b)
  with assms acknowledgement_keeps_valid [OF assms(1)] show ?thesis by simp
qed

lemma lease_apply_Inr:
  "lease_apply s e = Inr t \<longleftrightarrow>
    event_validate e = Inr () \<and> apply_in_place s e = Inr t \<and> state_validate t = Inr ()"
  by (auto simp: lease_apply_def result_iffs)

lemma initial_lease_valid: "state_validate initial_lease = Inr ()"
  by (simp add: initial_lease_def result_iffs)

section \<open>Along a journal\<close>

definition lease_valid :: "lease_state \<Rightarrow> bool" where
  "lease_valid s \<longleftrightarrow> state_validate s = Inr ()"

lemma apply_generation:
  assumes "apply_in_place s e = Inr t"
  shows "unat (lease_generation t) =
    unat (lease_generation s) + (case e of Ev_Claimed _ \<Rightarrow> 1 | Ev_Reclaimed _ \<Rightarrow> 1 | _ \<Rightarrow> 0)"
  using assms by (cases e) (auto simp: apply_Inr dest: checked_add_one_Some)

lemma active_live: "lease_valid (St_Active a) \<Longrightarrow> ac_last_heartbeat_at a < ac_expires_at a"
  by (simp add: lease_valid_def active_validate_iff)

lemma apply_observed_new:
  "apply_in_place s e = Inr t \<Longrightarrow> lease_last_observed_at t = Some (event_observed_at e)"
  by (cases e) (auto simp: apply_Inr latest_observation_at_def)

lemma apply_observed_old:
  assumes "lease_valid s" and "apply_in_place s e = Inr t" and "lease_last_observed_at s = Some u"
  shows "u \<le> event_observed_at e"
proof (cases e)
  case (Ev_Reclaimed r)
  then obtain a where a: "s = St_Active a" "ac_expires_at a \<le> rl_reclaimed_at (lr_lineage r)"
    using assms(2) by (auto simp: apply_reclaim_Inr)
  with active_live [of a] assms(1,3) Ev_Reclaimed show ?thesis by simp
qed (use assms in \<open>auto simp: apply_Inr\<close>)

interpretation lease: ranked_reducer lease_apply lease_valid "\<lambda>s. unat (lease_generation s)"
proof unfold_locales
  fix s e t assume "lease_valid s" and step: "lease_apply s e = Inr t"
  show "lease_valid t" using step by (simp add: lease_apply_Inr lease_valid_def)
  show "unat (lease_generation s) \<le> unat (lease_generation t)"
    using step apply_generation [of s e t] by (simp add: lease_apply_Inr)
qed

lemma fenced_step:
  assumes "lease_apply s e = Inr t" and "lease_effect_started_at s = Some u"
  shows "lease_effect_started_at t = Some u \<and> lease_active_proof t = lease_active_proof s
    \<and> (\<forall>b. e \<noteq> Ev_EffectStarted b)"
  using assms by (cases e; cases s) (auto simp: lease_apply_Inr apply_Inr)

lemma fenced_replay:
  assumes "replay lease_apply s es = Inr t" and "lease_effect_started_at s = Some u"
  shows "lease_effect_started_at t = Some u \<and> lease_active_proof t = lease_active_proof s
    \<and> (\<forall>e \<in> set es. \<forall>b. e \<noteq> Ev_EffectStarted b)"
  using assms
proof (induction es arbitrary: s)
  case Nil
  then show ?case by simp
next
  case (Cons e es)
  then obtain v where v: "lease_apply s e = Inr v" and rest: "replay lease_apply v es = Inr t"
    by (auto simp: result_iffs)
  from Cons.IH [OF rest] fenced_step [OF v Cons.prems(2)] show ?case by auto
qed

text \<open>The events of a journal that name the current generation all carry the current proof.\<close>

definition proofs_agree :: "lease_event list \<Rightarrow> lease_state \<Rightarrow> bool" where
  "proofs_agree es s \<longleftrightarrow> (\<forall>e \<in> set es.
     lp_generation (event_resulting_proof e) \<le> lease_generation s
     \<and> (\<forall>p. lease_active_proof s = Some p \<longrightarrow>
          lp_generation (event_resulting_proof e) = lp_generation p \<longrightarrow> event_resulting_proof e = p))"

lemma active_proof_generation: "lease_active_proof s = Some p \<Longrightarrow> lp_generation p = lease_generation s"
  by (cases s) auto

lemma apply_proof:
  assumes "apply_in_place s e = Inr t"
  shows "lease_generation s < lease_generation t \<and> lease_active_proof t = Some (event_resulting_proof e)
    \<or> lease_generation s = lease_generation t \<and> lease_active_proof s = Some (event_resulting_proof e)
      \<and> (\<forall>p. lease_active_proof t = Some p \<longrightarrow> p = event_resulting_proof e)"
  using assms by (cases e) (auto simp: apply_Inr dest: checked_add_one_Some)

lemma event_generation:
  assumes "apply_in_place s e = Inr t"
  shows "lp_generation (event_resulting_proof e) = lease_generation t"
  using apply_proof [OF assms] active_proof_generation [of t] active_proof_generation [of s] by auto

lemma proofs_agree_same:
  assumes "proofs_agree es s" and "apply_in_place s e = Inr t" and "f \<in> set es"
    and "lp_generation (event_resulting_proof f) = lp_generation (event_resulting_proof e)"
  shows "event_resulting_proof f = event_resulting_proof e"
proof (cases "lease_generation s < lease_generation t")
  case True
  have "lp_generation (event_resulting_proof f) \<le> lease_generation s"
    using assms(1,3) unfolding proofs_agree_def by blast
  with True assms(4) event_generation [OF assms(2)] show ?thesis by simp
next
  case False
  then have "lease_active_proof s = Some (event_resulting_proof e)"
    using apply_proof [OF assms(2)] by blast
  with assms(1,3,4) show ?thesis unfolding proofs_agree_def by blast
qed

lemma proofs_agree_step:
  assumes "proofs_agree es s" and "apply_in_place s e = Inr t"
  shows "proofs_agree (es @ [e]) t"
  unfolding proofs_agree_def
proof (intro ballI conjI allI impI)
  fix f assume f: "f \<in> set (es @ [e])"
  have le: "lease_generation s \<le> lease_generation t" using apply_proof [OF assms(2)] by auto
  show "lp_generation (event_resulting_proof f) \<le> lease_generation t"
  proof (cases "f = e")
    case False
    then have "lp_generation (event_resulting_proof f) \<le> lease_generation s"
      using assms(1) f unfolding proofs_agree_def by auto
    with le show ?thesis by simp
  qed (simp add: event_generation [OF assms(2)])
  fix p assume p: "lease_active_proof t = Some p" "lp_generation (event_resulting_proof f) = lp_generation p"
  have "p = event_resulting_proof e" using apply_proof [OF assms(2)] p(1) by auto
  with p(2) f proofs_agree_same [OF assms, of f] show "event_resulting_proof f = p" by auto
qed

lemma journal_proofs:
  "lease_replay es = Inr s \<Longrightarrow> proofs_agree es s \<and>
    (\<forall>e \<in> set es. \<forall>f \<in> set es.
       lp_generation (event_resulting_proof e) = lp_generation (event_resulting_proof f) \<longrightarrow>
       event_resulting_proof e = event_resulting_proof f)"
proof (induction es arbitrary: s rule: rev_induct)
  case Nil
  then show ?case by (simp add: proofs_agree_def)
next
  case (snoc e es)
  then obtain u where u: "lease_replay es = Inr u" and step: "apply_in_place u e = Inr s"
    by (auto simp: lease_replay_def replay_snoc lease_apply_Inr)
  note IH = snoc.IH [OF u]
  have same: "event_resulting_proof f = event_resulting_proof e"
    if "f \<in> set es" "lp_generation (event_resulting_proof f) = lp_generation (event_resulting_proof e)" for f
    using proofs_agree_same [OF _ step that] IH by blast
  show ?case
  proof (intro conjI ballI impI)
    show "proofs_agree (es @ [e]) s" using proofs_agree_step [OF _ step] IH by blast
    fix f g assume "f \<in> set (es @ [e])" "g \<in> set (es @ [e])"
      and eq: "lp_generation (event_resulting_proof f) = lp_generation (event_resulting_proof g)"
    then consider "f \<in> set es" "g \<in> set es" | "f = e" "g = e" | "f = e" "g \<in> set es" | "f \<in> set es" "g = e"
      by auto
    then show "event_resulting_proof f = event_resulting_proof g"
      using IH same [of f] same [of g] eq by cases auto
  qed
qed

lemma journal_times:
  "lease_replay es = Inr s \<Longrightarrow> lease_valid s \<and> sorted (map event_observed_at es) \<and>
    (\<forall>e \<in> set es. \<exists>u. lease_last_observed_at s = Some u \<and> event_observed_at e \<le> u)"
proof (induction es arbitrary: s rule: rev_induct)
  case Nil
  then show ?case by (auto simp: lease_replay_def lease_valid_def initial_lease_valid)
next
  case (snoc e es)
  then obtain u where u: "lease_replay es = Inr u" and step: "apply_in_place u e = Inr s"
    and valid: "state_validate s = Inr ()"
    by (auto simp: lease_replay_def replay_snoc lease_apply_Inr)
  note IH = snoc.IH [OF u]
  have new: "lease_last_observed_at s = Some (event_observed_at e)" by (rule apply_observed_new [OF step])
  have le: "event_observed_at f \<le> event_observed_at e" if "f \<in> set es" for f
    using IH apply_observed_old [OF _ step] that by (meson order_trans)
  with IH new valid show ?case by (auto simp: sorted_append lease_valid_def)
qed

definition grants :: "lease_event \<Rightarrow> bool" where
  "grants e = (case e of Ev_Claimed _ \<Rightarrow> True | Ev_Reclaimed _ \<Rightarrow> True | _ \<Rightarrow> False)"

lemma journal_generation:
  "lease_replay es = Inr s \<Longrightarrow> unat (lease_generation s) = length (filter grants es)"
proof (induction es arbitrary: s rule: rev_induct)
  case Nil
  then show ?case by (auto simp: lease_replay_def initial_lease_def)
next
  case (snoc e es)
  then obtain u where "lease_replay es = Inr u" and "apply_in_place u e = Inr s"
    by (auto simp: lease_replay_def replay_snoc lease_apply_Inr)
  with snoc.IH apply_generation [of u e s] show ?case
    by (auto simp: grants_def split: lease_event.splits)
qed

section \<open>Decoding\<close>

lemma proof_try_from_iff: "proof_try_from w = Inr p \<longleftrightarrow> p = w \<and> proof_validate w = Inr ()"
  by (auto simp: proof_try_from_def worker_identity_new_def lease_identity_new_def proof_new_def
      proof_validate_def Let_def result_iffs)

lemma lineage_try_from_iff: "lineage_try_from w = Inr l \<longleftrightarrow> l = w \<and> lineage_validate w = Inr ()"
proof -
  have "lineage_validate w = Inr () \<Longrightarrow> proof_validate (rl_predecessor w) = Inr () \<and> proof_validate (rl_successor w) = Inr ()"
    by (simp add: lineage_validate_def result_iffs)
  then show ?thesis
    by (cases w) (auto simp: lineage_try_from_def proof_try_from_iff lineage_new_def Let_def result_iffs)
qed

lemma lineage_option_try_from_iff:
  "lineage_option_try_from w = Inr r \<longleftrightarrow> r = w \<and> (\<forall>l. w = Some l \<longrightarrow> lineage_validate l = Inr ())"
  by (auto simp: lineage_option_try_from_def result_iffs lineage_try_from_iff split: option.splits)

lemma heartbeat_try_from_iff: "heartbeat_try_from w = Inr h \<longleftrightarrow> h = w \<and> heartbeat_validate w = Inr ()"
  by (auto simp: heartbeat_try_from_def proof_try_from_iff heartbeat_new_def Let_def result_iffs)

lemma available_try_from_iff: "available_try_from w = Inr a \<longleftrightarrow> a = w \<and> available_validate w = Inr ()"
proof -
  have "available_validate w = Inr () \<Longrightarrow> al_last_reclaim w = Some l \<Longrightarrow> lineage_validate l = Inr ()" for l
    by (auto simp: available_validate_iff lineage_ok_def split: if_splits)
  then show ?thesis
    by (cases w) (auto simp: available_try_from_def lineage_option_try_from_iff Let_def and_then_Inr_iff)
qed

lemma active_try_from_iff: "active_try_from w = Inr a \<longleftrightarrow> a = w \<and> active_validate w = Inr ()"
proof -
  have "active_validate w = Inr () \<Longrightarrow> proof_validate (ac_proof w) = Inr ()"
    "active_validate w = Inr () \<Longrightarrow> ac_last_reclaim w = Some l \<Longrightarrow> lineage_validate l = Inr ()" for l
    by (auto simp: active_validate_iff lineage_ok_def)
  then show ?thesis
    by (cases w) (auto simp: active_try_from_def proof_try_from_iff lineage_option_try_from_iff Let_def and_then_Inr_iff)
qed

lemma fenced_try_from_iff: "fenced_try_from w = Inr f \<longleftrightarrow> f = w \<and> fenced_validate w = Inr ()"
proof -
  have 1: "fenced_validate w = Inr () \<Longrightarrow> active_validate (ef_active w) = Inr ()"
    by (simp add: fenced_validate_iff)
  have 2: "fenced_validate w = Inr () \<Longrightarrow> ef_post_effect_heartbeat w = Some h \<Longrightarrow> heartbeat_validate h = Inr ()" for h
    by (simp add: fenced_validate_iff heartbeat_validate_iff active_validate_iff)
  show ?thesis
  proof (cases "ef_post_effect_heartbeat w")
    case None
    with None 1 show ?thesis
      by (cases w) (auto simp: fenced_try_from_def active_try_from_iff Let_def and_then_Inr_iff)
  next
    case (Some h)
    with 1 2 [OF _ Some] show ?thesis
      by (cases w) (auto simp: fenced_try_from_def active_try_from_iff heartbeat_try_from_iff Let_def and_then_Inr_iff)
  qed
qed

lemma acknowledged_try_from_iff:
  "acknowledged_try_from w = Inr a \<longleftrightarrow> a = w \<and> acknowledged_validate w = Inr ()"
proof -
  have "acknowledged_validate w = Inr () \<Longrightarrow> fenced_validate (ak_fence w) = Inr ()"
    by (simp add: acknowledged_validate_iff)
  then show ?thesis
    by (cases w) (auto simp: acknowledged_try_from_def fenced_try_from_iff Let_def and_then_Inr_iff)
qed

lemma event_decode_iff: "event_decode v = Inr e \<longleftrightarrow> e = v \<and> event_validate v = Inr ()"
proof (cases v)
  case (Ev_Claimed g)
  then show ?thesis
    by (cases g) (auto simp: grant_try_from_def grant_new_def proof_try_from_iff Let_def grant_validate_def
        and_then_Inr_iff)
next
  case (Ev_Heartbeat h)
  then show ?thesis by (auto simp: heartbeat_try_from_iff and_then_Inr_iff)
next
  case (Ev_Reclaimed r)
  then show ?thesis
    by (cases r) (auto simp: reclaim_try_from_def reclaim_new_def lineage_try_from_iff Let_def
        reclaim_validate_def and_then_Inr_iff)
qed (auto simp: observation_try_from_def observation_new_def observation_validate_def proof_try_from_iff
    and_then_Inr_iff)

section \<open>Properties\<close>

text \<open>Two example journals: a lease that is claimed, kept alive, used and acknowledged, and one that
  expires and is reclaimed by another worker.\<close>

definition first_proof :: lease_proof where
  "first_proof = \<lparr>lp_worker = ''worker-a'', lp_lease_id = ''lease-1'', lp_generation = 1\<rparr>"

definition second_proof :: lease_proof where
  "second_proof = \<lparr>lp_worker = ''worker-b'', lp_lease_id = ''lease-2'', lp_generation = 2\<rparr>"

definition used_journal :: "lease_event list" where
  "used_journal =
    [Ev_Claimed \<lparr>lg_proof = first_proof, lg_observed_at = 10, lg_expires_at = 20\<rparr>,
     Ev_Heartbeat \<lparr>lh_proof = first_proof, lh_observed_at = 12, lh_expires_at = 25\<rparr>,
     Ev_EffectStarted \<lparr>bo_proof = first_proof, bo_observed_at = 13\<rparr>,
     Ev_Acknowledged \<lparr>bo_proof = first_proof, bo_observed_at = 14\<rparr>]"

definition reclaimed_journal :: "lease_event list" where
  "reclaimed_journal =
    [Ev_Claimed \<lparr>lg_proof = first_proof, lg_observed_at = 10, lg_expires_at = 20\<rparr>,
     Ev_Reclaimed \<lparr>lr_lineage = \<lparr>rl_predecessor = first_proof, rl_predecessor_expires_at = 20,
        rl_reclaimed_at = 21, rl_successor = second_proof\<rparr>, lr_successor_expires_at = 30\<rparr>,
     Ev_Heartbeat \<lparr>lh_proof = second_proof, lh_observed_at = 22, lh_expires_at = 31\<rparr>]"

text \<open>C9. Applying an event to a valid state never fails in the validation of the result: the state
  reached by a validated event is valid already, so the outcome is that of the transition alone.\<close>

theorem post_validation_redundant:
  assumes "lease_valid s"
  shows "lease_apply s e = and_then (event_validate e) (\<lambda>_. apply_in_place s e)"
proof (cases "event_validate e")
  case (Inr u)
  show ?thesis
  proof (cases "apply_in_place s e")
    case (Inr t)
    have "state_validate t = Inr ()"
      by (rule apply_in_place_keeps_valid [OF _ _ Inr]) (use assms \<open>event_validate e = Inr u\<close> in \<open>auto simp: lease_valid_def\<close>)
    with Inr \<open>event_validate e = Inr u\<close> show ?thesis by (simp add: lease_apply_def)
  qed (simp add: lease_apply_def Inr)
qed (simp add: lease_apply_def)

theorem post_validation_redundant_witness:
  "lease_apply initial_lease (hd used_journal) =
     and_then (event_validate (hd used_journal)) (\<lambda>_. apply_in_place initial_lease (hd used_journal))
   \<and> lease_apply initial_lease (hd used_journal) \<noteq> Inl RequiresAvailable"
proof
  have v: "lease_valid initial_lease" by (simp add: lease_valid_def initial_lease_valid)
  show "lease_apply initial_lease (hd used_journal) =
     and_then (event_validate (hd used_journal)) (\<lambda>_. apply_in_place initial_lease (hd used_journal))"
    by (rule post_validation_redundant [OF v])
  show "lease_apply initial_lease (hd used_journal) \<noteq> Inl RequiresAvailable" by code_simp
qed

text \<open>The stored form of a lease state or event decodes exactly when it is valid, and then to
  itself; so every accepted event and every state a journal leads to survives storage.\<close>

theorem lease_decode_iff:
  "(state_decode w = Inr s \<longleftrightarrow> s = w \<and> lease_valid w)
    \<and> (event_decode v = Inr e \<longleftrightarrow> e = v \<and> event_validate v = Inr ())"
  by (rule conjI [OF _ event_decode_iff], cases w) (auto simp: lease_valid_def and_then_Inr_iff available_try_from_iff active_try_from_iff
      fenced_try_from_iff acknowledged_try_from_iff)

text \<open>C10. A started effect is a fence: in an accepted journal it is the only one, and from it on the
  lease stays bound to that proof and that start time and is never available or active again.\<close>

theorem effect_start_fences:
  assumes "lease_replay (es @ Ev_EffectStarted b # fs) = Inr t"
  shows "lease_effect_started_at t = Some (bo_observed_at b) \<and> lease_active_proof t = Some (bo_proof b)
    \<and> lease_phase_of t \<in> {Ph_EffectFenced, Ph_Acknowledged}
    \<and> (\<forall>e \<in> set es \<union> set fs. \<forall>c. e \<noteq> Ev_EffectStarted c)"
proof -
  obtain u v where u: "replay lease_apply initial_lease es = Inr u"
    and v: "lease_apply u (Ev_EffectStarted b) = Inr v" and t: "replay lease_apply v fs = Inr t"
    using assms by (auto simp: lease_replay_def replay_append result_iffs)
  have fenced: "lease_effect_started_at v = Some (bo_observed_at b)"
    and bound: "lease_active_proof v = Some (bo_proof b)" and open_u: "lease_effect_started_at u = None"
    using v by (auto simp: lease_apply_Inr apply_effect_start_Inr)
  have "\<forall>e \<in> set es. \<forall>c. e \<noteq> Ev_EffectStarted c"
  proof (intro ballI allI notI)
    fix e c assume "e \<in> set es" "e = Ev_EffectStarted c"
    then obtain xs ys where "es = xs @ Ev_EffectStarted c # ys" by (meson split_list)
    then obtain x y where y: "lease_apply x (Ev_EffectStarted c) = Inr y"
      and ys: "replay lease_apply y ys = Inr u"
      using u by (auto simp: replay_append result_iffs)
    have "lease_effect_started_at y = Some (bo_observed_at c)"
      using y by (auto simp: lease_apply_Inr apply_effect_start_Inr)
    from fenced_replay [OF ys this] open_u show False by simp
  qed
  moreover have "lease_phase_of t \<in> {Ph_EffectFenced, Ph_Acknowledged}"
    using fenced_replay [OF t fenced] by (cases t) auto
  ultimately show ?thesis using fenced_replay [OF t fenced] bound by auto
qed

theorem effect_start_fences_witness:
  "\<exists>t. lease_replay used_journal = Inr t \<and> lease_effect_started_at t = Some 13
     \<and> lease_phase_of t \<in> {Ph_EffectFenced, Ph_Acknowledged}"
proof -
  obtain t where t: "lease_replay used_journal = Inr t"
  proof
    show "lease_replay used_journal = Inr (projr (lease_replay used_journal))" by code_simp
  qed
  have "used_journal = take 2 used_journal @
      Ev_EffectStarted \<lparr>bo_proof = first_proof, bo_observed_at = 13\<rparr> # drop 3 used_journal"
    by (simp add: used_journal_def)
  with t have "lease_replay (take 2 used_journal @
      Ev_EffectStarted \<lparr>bo_proof = first_proof, bo_observed_at = 13\<rparr> # drop 3 used_journal) = Inr t"
    by simp
  from effect_start_fences [OF this] t show ?thesis by simp
qed

text \<open>C11. The generation of a replayed lease is the number of claims and reclaims in its journal, so
  the 64-bit counter never wraps.\<close>

theorem generation_counts_grants:
  assumes "lease_replay es = Inr s"
  shows "unat (lease_generation s) = length (filter grants es)"
  using assms by (rule journal_generation)

theorem generation_counts_grants_witness:
  "\<exists>s. lease_replay reclaimed_journal = Inr s \<and> unat (lease_generation s) = 2"
proof -
  obtain s where s: "lease_replay reclaimed_journal = Inr s"
  proof
    show "lease_replay reclaimed_journal = Inr (projr (lease_replay reclaimed_journal))" by code_simp
  qed
  have "length (filter grants reclaimed_journal) = 2"
    by (simp add: reclaimed_journal_def grants_def)
  with generation_counts_grants [OF s] s show ?thesis by simp
qed

text \<open>C12. A generation has one holder: two events of an accepted journal whose proofs carry the same
  generation carry the same worker and lease identity, so a superseded worker can never act.\<close>

theorem generation_has_one_holder:
  assumes "lease_replay es = Inr s" and "e \<in> set es" and "f \<in> set es"
    and "lp_generation (event_resulting_proof e) = lp_generation (event_resulting_proof f)"
  shows "event_resulting_proof e = event_resulting_proof f"
  using journal_proofs [OF assms(1)] assms(2-4) by blast

theorem generation_has_one_holder_witness:
  "event_resulting_proof (reclaimed_journal ! 1) = event_resulting_proof (reclaimed_journal ! 2)
   \<and> reclaimed_journal ! 1 \<noteq> reclaimed_journal ! 2"
proof -
  obtain s where s: "lease_replay reclaimed_journal = Inr s"
  proof
    show "lease_replay reclaimed_journal = Inr (projr (lease_replay reclaimed_journal))" by code_simp
  qed
  have "event_resulting_proof (reclaimed_journal ! 1) = event_resulting_proof (reclaimed_journal ! 2)"
    by (rule generation_has_one_holder [OF s]) (simp_all add: reclaimed_journal_def)
  then show ?thesis by (simp add: reclaimed_journal_def)
qed

text \<open>Time never runs backwards in an accepted journal, and the replayed state remembers the
  latest observation.\<close>

theorem journal_time_forward:
  assumes "lease_replay es = Inr s"
  shows "sorted (map event_observed_at es)
    \<and> lease_last_observed_at s = (if es = [] then None else Some (event_observed_at (last es)))"
proof
  show "sorted (map event_observed_at es)" using journal_times [OF assms] by blast
  show "lease_last_observed_at s = (if es = [] then None else Some (event_observed_at (last es)))"
  proof (cases es rule: rev_cases)
    case Nil
    with assms show ?thesis by (auto simp: lease_replay_def initial_lease_def)
  next
    case (snoc fs e)
    with assms obtain u where "apply_in_place u e = Inr s"
      by (auto simp: lease_replay_def replay_snoc lease_apply_Inr)
    from apply_observed_new [OF this] snoc show ?thesis by simp
  qed
qed

theorem journal_time_forward_witness:
  "\<exists>s. lease_replay used_journal = Inr s \<and> lease_last_observed_at s = Some 14
     \<and> sorted (map event_observed_at used_journal)"
proof -
  obtain s where s: "lease_replay used_journal = Inr s"
  proof
    show "lease_replay used_journal = Inr (projr (lease_replay used_journal))" by code_simp
  qed
  from journal_time_forward [OF s] s show ?thesis by (auto simp: used_journal_def)
qed

end
