(* ===== verification/Swarm_Health.thy ===== *)
theory Swarm_Health
  imports Prelude
begin

text \<open>
  The swarm-health circuit breaker (\<^verbatim>\<open>src/src/swarm_health.rs\<close>). It keeps a bounded window of
  health signals and moves between closed, open and half-open: a closed breaker opens when a count
  over the window reaches its threshold, an open one half-opens after a fixed number of signals, and
  a half-open one closes after enough accepted assignments or opens again.

  The lemmas show that the counts are those of the last signals, that a closed breaker is below
  every threshold, and how long each of the other states lasts.
\<close>

section \<open>Data\<close>

datatype assignment_health_outcome = Accepted | Rejected | Failed | Retried

datatype swarm_health_signal =
    AssignmentOutcome assignment_health_outcome
  | ClaimAcquisitionDenied
  | ClaimAcquisitionFailed
  | SemanticConflictBlocked usize
  | SemanticConflictWarned usize

record circuit_breaker_config =
  cb_window_capacity :: usize
  cb_assignment_failure_threshold :: usize
  cb_retry_threshold :: usize
  cb_claim_denial_threshold :: usize
  cb_rejection_threshold :: usize
  cb_semantic_conflict_threshold :: usize
  cb_open_cooldown_signals :: usize
  cb_half_open_successes :: usize

definition default_breaker_config :: circuit_breaker_config where
  "default_breaker_config =
     \<lparr>cb_window_capacity = 12, cb_assignment_failure_threshold = 3, cb_retry_threshold = 4,
      cb_claim_denial_threshold = 3, cb_rejection_threshold = 3, cb_semantic_conflict_threshold = 4,
      cb_open_cooldown_signals = 4, cb_half_open_successes = 2\<rparr>"

datatype circuit_breaker_config_error = ZeroValue string

fun reject_zero :: "(string \<times> usize) list \<Rightarrow> circuit_breaker_config_error + unit" where
  "reject_zero [] = Inr ()"
| "reject_zero ((name, value) # rest) =
     (if value = 0 then Inl (ZeroValue name) else reject_zero rest)"

definition breaker_config_validate ::
  "circuit_breaker_config \<Rightarrow> circuit_breaker_config_error + unit" where
  "breaker_config_validate c =
     (if cb_window_capacity c = 0 then Inl (ZeroValue ''window_capacity'')
      else reject_zero
        [(''assignment_failure_threshold'', cb_assignment_failure_threshold c),
         (''retry_threshold'', cb_retry_threshold c),
         (''claim_denial_threshold'', cb_claim_denial_threshold c),
         (''rejection_threshold'', cb_rejection_threshold c),
         (''semantic_conflict_threshold'', cb_semantic_conflict_threshold c),
         (''open_cooldown_signals'', cb_open_cooldown_signals c),
         (''half_open_successes'', cb_half_open_successes c)])"

record swarm_health_snapshot =
  sn_window_len :: usize
  sn_accepted_assignments :: usize
  sn_repeated_rejections :: usize
  sn_failed_assignments :: usize
  sn_retries :: usize
  sn_claim_denials :: usize
  sn_claim_failures :: usize
  sn_semantic_conflict_blocks :: usize
  sn_semantic_conflict_warnings :: usize
  sn_semantic_conflicts :: usize

definition empty_snapshot :: swarm_health_snapshot where
  "empty_snapshot =
     \<lparr>sn_window_len = 0, sn_accepted_assignments = 0, sn_repeated_rejections = 0,
      sn_failed_assignments = 0, sn_retries = 0, sn_claim_denials = 0, sn_claim_failures = 0,
      sn_semantic_conflict_blocks = 0, sn_semantic_conflict_warnings = 0, sn_semantic_conflicts = 0\<rparr>"

text \<open>The fields of each reason are in the order of the source.\<close>

datatype trip_reason =
    SustainedAssignmentFailures usize usize usize
  | RepeatedClaimDenial usize usize usize
  | RepeatedRejectionLoop usize usize usize
  | SustainedSemanticConflicts usize usize usize usize

record circuit_breaker_trip =
  tr_reason :: trip_reason
  tr_window :: swarm_health_snapshot

datatype circuit_breaker_state =
    Breaker_Closed
  | Breaker_Open circuit_breaker_trip usize
  | Breaker_HalfOpen circuit_breaker_trip usize usize

datatype circuit_breaker_transition =
    Opened circuit_breaker_trip
  | EnteredHalfOpen
  | ClosedAgain

record circuit_breaker =
  br_config :: circuit_breaker_config
  br_window :: "swarm_health_signal list"
  br_state :: circuit_breaker_state

section \<open>Operations\<close>

definition default_breaker :: circuit_breaker where
  "default_breaker =
     \<lparr>br_config = default_breaker_config, br_window = [], br_state = Breaker_Closed\<rparr>"

definition breaker_new :: "circuit_breaker_config \<Rightarrow> circuit_breaker_config_error + circuit_breaker" where
  "breaker_new config =
     and_then (breaker_config_validate config) (\<lambda>_.
     Inr \<lparr>br_config = config, br_window = [], br_state = Breaker_Closed\<rparr>)"

fun count_signal :: "swarm_health_signal \<Rightarrow> swarm_health_snapshot \<Rightarrow> swarm_health_snapshot" where
  "count_signal (AssignmentOutcome Accepted) s =
     s\<lparr>sn_accepted_assignments := saturating_add (sn_accepted_assignments s) 1\<rparr>"
| "count_signal (AssignmentOutcome Rejected) s =
     s\<lparr>sn_repeated_rejections := saturating_add (sn_repeated_rejections s) 1\<rparr>"
| "count_signal (AssignmentOutcome Failed) s =
     s\<lparr>sn_failed_assignments := saturating_add (sn_failed_assignments s) 1\<rparr>"
| "count_signal (AssignmentOutcome Retried) s = s\<lparr>sn_retries := saturating_add (sn_retries s) 1\<rparr>"
| "count_signal ClaimAcquisitionDenied s =
     s\<lparr>sn_claim_denials := saturating_add (sn_claim_denials s) 1\<rparr>"
| "count_signal ClaimAcquisitionFailed s =
     s\<lparr>sn_claim_failures := saturating_add (sn_claim_failures s) 1\<rparr>"
| "count_signal (SemanticConflictBlocked conflicts) s =
     s\<lparr>sn_semantic_conflict_blocks := saturating_add (sn_semantic_conflict_blocks s) 1,
       sn_semantic_conflicts := saturating_add (sn_semantic_conflicts s) conflicts\<rparr>"
| "count_signal (SemanticConflictWarned conflicts) s =
     s\<lparr>sn_semantic_conflict_warnings := saturating_add (sn_semantic_conflict_warnings s) 1,
       sn_semantic_conflicts := saturating_add (sn_semantic_conflicts s) conflicts\<rparr>"

definition window_snapshot :: "swarm_health_signal list \<Rightarrow> swarm_health_snapshot" where
  "window_snapshot window =
     fold count_signal window (empty_snapshot\<lparr>sn_window_len := of_nat (length window)\<rparr>)"

definition breaker_snapshot :: "circuit_breaker \<Rightarrow> swarm_health_snapshot" where
  "breaker_snapshot b = window_snapshot (br_window b)"

definition permits_admission :: "circuit_breaker \<Rightarrow> bool" where
  "permits_admission b = (case br_state b of Breaker_Open _ _ \<Rightarrow> False | _ \<Rightarrow> True)"

definition trip_reason_of ::
  "circuit_breaker_config \<Rightarrow> swarm_health_snapshot \<Rightarrow> trip_reason option" where
  "trip_reason_of c s =
     (if cb_rejection_threshold c \<le> sn_repeated_rejections s
      then Some (RepeatedRejectionLoop (sn_repeated_rejections s) (sn_retries s)
        (cb_rejection_threshold c))
      else if cb_assignment_failure_threshold c \<le> sn_failed_assignments s
           \<or> cb_retry_threshold c \<le> sn_retries s
      then Some (SustainedAssignmentFailures (sn_failed_assignments s) (sn_retries s)
        (if cb_assignment_failure_threshold c \<le> sn_failed_assignments s
         then cb_assignment_failure_threshold c else cb_retry_threshold c))
      else if cb_claim_denial_threshold c \<le> saturating_add (sn_claim_denials s) (sn_claim_failures s)
      then Some (RepeatedClaimDenial (sn_claim_denials s) (sn_claim_failures s)
        (cb_claim_denial_threshold c))
      else if cb_semantic_conflict_threshold c
           \<le> saturating_add (sn_semantic_conflict_blocks s) (sn_semantic_conflict_warnings s)
      then Some (SustainedSemanticConflicts (sn_semantic_conflict_blocks s)
        (sn_semantic_conflict_warnings s) (sn_semantic_conflicts s) (cb_semantic_conflict_threshold c))
      else None)"

definition evaluate_closed_state ::
  "circuit_breaker \<Rightarrow> circuit_breaker_transition option \<times> circuit_breaker" where
  "evaluate_closed_state b =
     (let snapshot = breaker_snapshot b in
      case trip_reason_of (br_config b) snapshot of
        None \<Rightarrow> (None, b)
      | Some reason \<Rightarrow>
          (let trip = \<lparr>tr_reason = reason, tr_window = snapshot\<rparr> in
           (Some (Opened trip),
            b\<lparr>br_state := Breaker_Open trip (cb_open_cooldown_signals (br_config b))\<rparr>)))"

fun pop_excess :: "usize \<Rightarrow> swarm_health_signal list \<Rightarrow> swarm_health_signal list" where
  "pop_excess capacity [] = []"
| "pop_excess capacity (signal # window) =
     (if unat capacity < length (signal # window) then pop_excess capacity window
      else signal # window)"

definition breaker_observe ::
  "swarm_health_signal \<Rightarrow> circuit_breaker \<Rightarrow> circuit_breaker_transition option \<times> circuit_breaker" where
  "breaker_observe signal breaker =
     (let b = breaker\<lparr>br_window :=
            pop_excess (cb_window_capacity (br_config breaker)) (br_window breaker @ [signal])\<rparr> in
      case br_state b of
        Breaker_Closed \<Rightarrow> evaluate_closed_state b
      | Breaker_Open trip cooldown_remaining \<Rightarrow>
          if 1 < cooldown_remaining
          then (None, b\<lparr>br_state := Breaker_Open trip (saturating_sub cooldown_remaining 1)\<rparr>)
          else (Some EnteredHalfOpen,
            b\<lparr>br_state := Breaker_HalfOpen trip 0 (cb_half_open_successes (br_config b))\<rparr>)
      | Breaker_HalfOpen previous_trip successes_observed successes_required \<Rightarrow>
          (case signal of
             AssignmentOutcome Accepted \<Rightarrow>
               (let observed = saturating_add successes_observed 1 in
                if successes_required \<le> observed
                then (Some ClosedAgain, b\<lparr>br_window := [], br_state := Breaker_Closed\<rparr>)
                else (None,
                  b\<lparr>br_state := Breaker_HalfOpen previous_trip observed successes_required\<rparr>))
           | _ \<Rightarrow>
               (let trip = \<lparr>tr_reason = tr_reason previous_trip, tr_window = breaker_snapshot b\<rparr> in
                (Some (Opened trip),
                 b\<lparr>br_state := Breaker_Open trip (cb_open_cooldown_signals (br_config b))\<rparr>))))"

definition observe_all :: "swarm_health_signal list \<Rightarrow> circuit_breaker \<Rightarrow> circuit_breaker" where
  "observe_all signals b = fold (\<lambda>signal b. snd (breaker_observe signal b)) signals b"

section \<open>The window\<close>

lemma pop_excess_drop: "pop_excess c w = drop (length w - unat c) w"
  by (induction c w rule: pop_excess.induct) (auto simp: Suc_diff_le not_less)

lemma length_pop_excess: "length (pop_excess c w) = min (length w) (unat c)"
  by (simp add: pop_excess_drop)

fun signal_conflicts :: "swarm_health_signal \<Rightarrow> nat" where
  "signal_conflicts (SemanticConflictBlocked n) = unat n"
| "signal_conflicts (SemanticConflictWarned n) = unat n"
| "signal_conflicts _ = 0"

fun is_blocked :: "swarm_health_signal \<Rightarrow> bool" where
  "is_blocked (SemanticConflictBlocked n) = True"
| "is_blocked _ = False"

fun is_warned :: "swarm_health_signal \<Rightarrow> bool" where
  "is_warned (SemanticConflictWarned n) = True"
| "is_warned _ = False"

text \<open>Every field of the snapshot adds up a weight of the signals, saturating at the width.\<close>

lemma fold_counter:
  fixes f :: "swarm_health_snapshot \<Rightarrow> usize"
  assumes "\<And>x s. unat (f (count_signal x s)) = min (unat (f s) + weight x) (2 ^ 64 - 1)"
  shows "unat (f (fold count_signal w s)) = min (unat (f s) + sum_list (map weight w)) (2 ^ 64 - 1)"
proof (induction w arbitrary: s)
  case Nil
  have "unat (f s) < 2 ^ 64" using unat_less_exp [of "f s"] by simp
  then show ?case by simp
next
  case (Cons x w)
  then show ?case by (simp add: assms)
qed

lemma sum_list_indicator: "sum_list (map (\<lambda>x. if P x then 1 else 0) w) = length (filter P w)"
  by (induction w) auto

lemma count_step:
  "unat (sn_accepted_assignments (count_signal x s)) =
     min (unat (sn_accepted_assignments s) + (if x = AssignmentOutcome Accepted then 1 else 0)) (2 ^ 64 - 1)" (is ?thesis1)
  "unat (sn_repeated_rejections (count_signal x s)) =
     min (unat (sn_repeated_rejections s) + (if x = AssignmentOutcome Rejected then 1 else 0)) (2 ^ 64 - 1)" (is ?thesis2)
  "unat (sn_failed_assignments (count_signal x s)) =
     min (unat (sn_failed_assignments s) + (if x = AssignmentOutcome Failed then 1 else 0)) (2 ^ 64 - 1)" (is ?thesis3)
  "unat (sn_retries (count_signal x s)) =
     min (unat (sn_retries s) + (if x = AssignmentOutcome Retried then 1 else 0)) (2 ^ 64 - 1)" (is ?thesis4)
  "unat (sn_claim_denials (count_signal x s)) =
     min (unat (sn_claim_denials s) + (if x = ClaimAcquisitionDenied then 1 else 0)) (2 ^ 64 - 1)" (is ?thesis5)
  "unat (sn_claim_failures (count_signal x s)) =
     min (unat (sn_claim_failures s) + (if x = ClaimAcquisitionFailed then 1 else 0)) (2 ^ 64 - 1)" (is ?thesis6)
  "unat (sn_semantic_conflict_blocks (count_signal x s)) =
     min (unat (sn_semantic_conflict_blocks s) + (if is_blocked x then 1 else 0)) (2 ^ 64 - 1)" (is ?thesis7)
  "unat (sn_semantic_conflict_warnings (count_signal x s)) =
     min (unat (sn_semantic_conflict_warnings s) + (if is_warned x then 1 else 0)) (2 ^ 64 - 1)" (is ?thesis8)
  "unat (sn_semantic_conflicts (count_signal x s)) =
     min (unat (sn_semantic_conflicts s) + signal_conflicts x) (2 ^ 64 - 1)" (is ?thesis9)
proof -
  have bound: "unat (c :: usize) \<le> 2 ^ 64 - 1" for c using unat_less_exp [of c] by simp
  show ?thesis1 ?thesis2 ?thesis3 ?thesis4 ?thesis5 ?thesis6 ?thesis7 ?thesis8 ?thesis9
    using bound by (cases "(x, s)" rule: count_signal.cases; simp add: width_simps)+
qed

lemma window_snapshot_counts:
  assumes "length w < 2 ^ 64"
  shows "unat (sn_window_len (window_snapshot w)) = length w"
    and "unat (sn_accepted_assignments (window_snapshot w)) = length (filter (\<lambda>x. x = AssignmentOutcome Accepted) w)"
    and "unat (sn_repeated_rejections (window_snapshot w)) = length (filter (\<lambda>x. x = AssignmentOutcome Rejected) w)"
    and "unat (sn_failed_assignments (window_snapshot w)) = length (filter (\<lambda>x. x = AssignmentOutcome Failed) w)"
    and "unat (sn_retries (window_snapshot w)) = length (filter (\<lambda>x. x = AssignmentOutcome Retried) w)"
    and "unat (sn_claim_denials (window_snapshot w)) = length (filter (\<lambda>x. x = ClaimAcquisitionDenied) w)"
    and "unat (sn_claim_failures (window_snapshot w)) = length (filter (\<lambda>x. x = ClaimAcquisitionFailed) w)"
    and "unat (sn_semantic_conflict_blocks (window_snapshot w)) = length (filter is_blocked w)"
    and "unat (sn_semantic_conflict_warnings (window_snapshot w)) = length (filter is_warned w)"
    and "unat (sn_semantic_conflicts (window_snapshot w)) =
      min (sum_list (map signal_conflicts w)) (2 ^ 64 - 1)"
proof -
  have le: "length (filter P w) \<le> 2 ^ 64 - 1" for P
    using length_filter_le [of P w] assms by linarith
  have len: "sn_window_len (fold count_signal w s) = sn_window_len s" for s
  proof (induction w arbitrary: s)
    case (Cons x w)
    have "sn_window_len (count_signal x s) = sn_window_len s"
      by (cases "(x, s)" rule: count_signal.cases) simp_all
    with Cons show ?case by simp
  qed simp
  have "unat (of_nat (length w) :: usize) = length w"
    using assms by (simp add: unat_of_nat)
  then show "unat (sn_window_len (window_snapshot w)) = length w"
    by (simp add: window_snapshot_def len)
  show "unat (sn_accepted_assignments (window_snapshot w)) = length (filter (\<lambda>x. x = AssignmentOutcome Accepted) w)"
    "unat (sn_repeated_rejections (window_snapshot w)) = length (filter (\<lambda>x. x = AssignmentOutcome Rejected) w)"
    "unat (sn_failed_assignments (window_snapshot w)) = length (filter (\<lambda>x. x = AssignmentOutcome Failed) w)"
    "unat (sn_retries (window_snapshot w)) = length (filter (\<lambda>x. x = AssignmentOutcome Retried) w)"
    "unat (sn_claim_denials (window_snapshot w)) = length (filter (\<lambda>x. x = ClaimAcquisitionDenied) w)"
    "unat (sn_claim_failures (window_snapshot w)) = length (filter (\<lambda>x. x = ClaimAcquisitionFailed) w)"
    "unat (sn_semantic_conflict_blocks (window_snapshot w)) = length (filter is_blocked w)"
    "unat (sn_semantic_conflict_warnings (window_snapshot w)) = length (filter is_warned w)"
    unfolding window_snapshot_def
    by (simp_all only: count_step [THEN fold_counter] sum_list_indicator)
      (use le in \<open>simp_all add: empty_snapshot_def min_absorb1\<close>)
  show "unat (sn_semantic_conflicts (window_snapshot w)) =
      min (sum_list (map signal_conflicts w)) (2 ^ 64 - 1)"
    unfolding window_snapshot_def fold_counter [OF count_step(9)] by (simp add: empty_snapshot_def)
qed

section \<open>The states\<close>

fun breaker_state_ok :: "circuit_breaker_config \<Rightarrow> swarm_health_signal list \<Rightarrow> circuit_breaker_state \<Rightarrow> bool"
where
  "breaker_state_ok c w Breaker_Closed \<longleftrightarrow> trip_reason_of c (window_snapshot w) = None"
| "breaker_state_ok c w (Breaker_Open trip n) \<longleftrightarrow> 0 < n \<and> n \<le> cb_open_cooldown_signals c"
| "breaker_state_ok c w (Breaker_HalfOpen trip k r) \<longleftrightarrow> r = cb_half_open_successes c \<and> k < r"

definition breaker_inv :: "circuit_breaker \<Rightarrow> bool" where
  "breaker_inv b \<longleftrightarrow> breaker_config_validate (br_config b) = Inr ()
     \<and> length (br_window b) \<le> unat (cb_window_capacity (br_config b))
     \<and> breaker_state_ok (br_config b) (br_window b) (br_state b)"

lemma breaker_config_validate_iff:
  "breaker_config_validate c = Inr () \<longleftrightarrow>
    0 < cb_window_capacity c \<and> 0 < cb_assignment_failure_threshold c \<and> 0 < cb_retry_threshold c
    \<and> 0 < cb_claim_denial_threshold c \<and> 0 < cb_rejection_threshold c
    \<and> 0 < cb_semantic_conflict_threshold c \<and> 0 < cb_open_cooldown_signals c
    \<and> 0 < cb_half_open_successes c"
  by (auto simp: breaker_config_validate_def word_gt_0)

lemma empty_window_no_trip:
  assumes "breaker_config_validate c = Inr ()"
  shows "trip_reason_of c (window_snapshot []) = None"
  using assms
  by (auto simp: breaker_config_validate_iff trip_reason_of_def window_snapshot_def empty_snapshot_def
      saturating_add_def checked_add_def)

lemma breaker_observe_inv:
  assumes "breaker_inv b"
  shows "breaker_inv (snd (breaker_observe signal b))"
proof -
  let ?w = "pop_excess (cb_window_capacity (br_config b)) (br_window b @ [signal])"
  have len: "length ?w \<le> unat (cb_window_capacity (br_config b))" by (simp add: length_pop_excess)
  have cfg: "breaker_config_validate (br_config b) = Inr ()" using assms by (simp add: breaker_inv_def)
  then have pos: "0 < cb_open_cooldown_signals (br_config b)" "0 < cb_half_open_successes (br_config b)"
    by (simp_all add: breaker_config_validate_iff)
  show ?thesis
  proof (cases "br_state b")
    case Breaker_Closed
    with len cfg pos show ?thesis
      by (auto simp: breaker_observe_def evaluate_closed_state_def breaker_inv_def breaker_snapshot_def
          Let_def split: option.splits)
  next
    case (Breaker_Open trip n)
    have n: "0 < n" "n \<le> cb_open_cooldown_signals (br_config b)"
      using assms by (simp_all add: breaker_inv_def Breaker_Open)
    have sub: "0 < saturating_sub n 1 \<and> saturating_sub n 1 \<le> cb_open_cooldown_signals (br_config b)"
      if "1 < n"
      using that n by (simp add: word_less_nat_alt word_le_nat_alt width_simps)
    with Breaker_Open len cfg pos show ?thesis
      by (auto simp: breaker_observe_def breaker_inv_def Let_def)
  next
    case (Breaker_HalfOpen trip k r)
    have r: "r = cb_half_open_successes (br_config b)"
      using assms by (simp add: breaker_inv_def Breaker_HalfOpen)
    with Breaker_HalfOpen len cfg pos empty_window_no_trip [OF cfg] show ?thesis
      by (auto simp: breaker_observe_def breaker_inv_def Let_def not_le
          split: swarm_health_signal.splits assignment_health_outcome.splits)
  qed
qed

lemma observe_all_simps [simp]:
  "observe_all [] b = b" "observe_all (x # xs) b = observe_all xs (snd (breaker_observe x b))"
  by (simp_all add: observe_all_def)

lemma observe_all_inv: "breaker_inv b \<Longrightarrow> breaker_inv (observe_all signals b)"
  by (induction signals arbitrary: b) (auto intro: breaker_observe_inv)

lemma breaker_new_inv: "breaker_new config = Inr b \<Longrightarrow> breaker_inv b"
  by (auto simp: breaker_new_def result_iffs breaker_inv_def empty_window_no_trip)

lemma br_config_observe [simp]: "br_config (snd (breaker_observe x b)) = br_config b"
  by (auto simp: breaker_observe_def evaluate_closed_state_def Let_def
      split: circuit_breaker_state.split swarm_health_signal.split assignment_health_outcome.split option.split)

lemma observe_open:
  assumes "br_state b = Breaker_Open trip n"
  shows "br_state (snd (breaker_observe x b)) =
    (if 1 < n then Breaker_Open trip (n - 1)
     else Breaker_HalfOpen trip 0 (cb_half_open_successes (br_config b)))"
proof -
  have "saturating_sub n 1 = n - 1" if "1 < n"
    using that by (simp add: saturating_sub_def order_less_imp_le)
  with assms show ?thesis by (simp add: breaker_observe_def Let_def)
qed

lemma unat_minus_one: "0 < n \<Longrightarrow> unat (n - 1) = unat n - 1" for n :: "'a::len word"
  by (simp add: unat_minus_one word_gt_0)

lemma observe_all_open:
  assumes "br_state b = Breaker_Open trip n" and "length xs < unat n"
  shows "br_state (observe_all xs b) = Breaker_Open trip (n - of_nat (length xs))"
  using assms
proof (induction xs arbitrary: b n)
  case Nil
  then show ?case by simp
next
  case (Cons x xs)
  then have n: "1 < n" by (simp add: word_less_nat_alt)
  then have "br_state (snd (breaker_observe x b)) = Breaker_Open trip (n - 1)"
    using observe_open [OF Cons.prems(1)] by simp
  moreover have "length xs < unat (n - 1)"
    using Cons.prems(2) n by (simp add: unat_minus_one word_gt_0 word_less_nat_alt)
  ultimately have "br_state (observe_all xs (snd (breaker_observe x b))) =
      Breaker_Open trip (n - 1 - of_nat (length xs))"
    by (rule Cons.IH)
  then show ?case by (simp add: diff_diff_eq)
qed

lemma observe_accepted:
  assumes "br_state b = Breaker_HalfOpen trip k r" and "k < r"
  shows "br_state (snd (breaker_observe (AssignmentOutcome Accepted) b)) =
      (if k + 1 = r then Breaker_Closed else Breaker_HalfOpen trip (k + 1) r)"
    and "k + 1 = r \<Longrightarrow> br_window (snd (breaker_observe (AssignmentOutcome Accepted) b)) = []"
proof -
  have "unat k + 1 < 2 ^ 64" using assms(2) unat_less_exp [of r] by (simp add: word_less_nat_alt)
  then have sat: "saturating_add k 1 = k + 1"
    by (simp add: saturating_add_def checked_add_def)
  have "unat (k + 1) = unat k + 1" using \<open>unat k + 1 < 2 ^ 64\<close> by (simp add: unat_word_ariths)
  then have le: "r \<le> k + 1 \<longleftrightarrow> k + 1 = r"
    using assms(2) by (auto simp: word_le_nat_alt word_less_nat_alt word_unat_eq_iff)
  show "br_state (snd (breaker_observe (AssignmentOutcome Accepted) b)) =
      (if k + 1 = r then Breaker_Closed else Breaker_HalfOpen trip (k + 1) r)"
    and "k + 1 = r \<Longrightarrow> br_window (snd (breaker_observe (AssignmentOutcome Accepted) b)) = []"
    using assms(1) le by (simp_all add: breaker_observe_def Let_def sat)
qed

lemma observe_all_accepted:
  assumes "br_state b = Breaker_HalfOpen trip k r" and "m < unat r - unat k"
  shows "br_state (observe_all (replicate m (AssignmentOutcome Accepted)) b) =
    Breaker_HalfOpen trip (k + of_nat m) r"
  using assms
proof (induction m arbitrary: b k)
  case 0
  then show ?case by simp
next
  case (Suc m)
  then have lt: "k < r" "unat k + 1 < unat r" by (simp_all add: word_less_nat_alt)
  then have suc: "unat (k + 1) = unat k + 1"
    using unat_less_exp [of r] by (simp add: unat_word_ariths)
  with lt have "k + 1 \<noteq> r" by auto
  then have "br_state (snd (breaker_observe (AssignmentOutcome Accepted) b)) = Breaker_HalfOpen trip (k + 1) r"
    using observe_accepted(1) [OF Suc.prems(1) lt(1)] by simp
  from Suc.IH [OF this] Suc.prems(2) suc show ?case by (simp add: algebra_simps)
qed

lemma observe_all_append: "observe_all (xs @ ys) b = observe_all ys (observe_all xs b)"
  by (simp add: observe_all_def)

lemma observe_not_accepted:
  assumes "br_state b = Breaker_HalfOpen trip k r" and "x \<noteq> AssignmentOutcome Accepted"
  shows "\<exists>w. br_state (snd (breaker_observe x b)) =
    Breaker_Open \<lparr>tr_reason = tr_reason trip, tr_window = w\<rparr> (cb_open_cooldown_signals (br_config b))"
  using assms
  by (auto simp: breaker_observe_def Let_def
      split: swarm_health_signal.splits assignment_health_outcome.splits)

lemma br_config_observe_all [simp]: "br_config (observe_all xs b) = br_config b"
  by (induction xs arbitrary: b) simp_all

section \<open>Properties\<close>

definition failing_signals :: "swarm_health_signal list" where
  "failing_signals = [AssignmentOutcome Failed, AssignmentOutcome Accepted, AssignmentOutcome Failed,
     AssignmentOutcome Failed]"



text \<open>The snapshot of a reachable breaker counts its window exactly; no counter saturates except
  the sum of reported conflicts.\<close>

theorem breaker_snapshot_exact:
  assumes "breaker_new config = Inr b" and "w = br_window (observe_all signals b)"
    and "s = breaker_snapshot (observe_all signals b)"
  shows "unat (sn_window_len s) = length w
    \<and> unat (sn_accepted_assignments s) = length (filter (\<lambda>x. x = AssignmentOutcome Accepted) w)
    \<and> unat (sn_repeated_rejections s) = length (filter (\<lambda>x. x = AssignmentOutcome Rejected) w)
    \<and> unat (sn_failed_assignments s) = length (filter (\<lambda>x. x = AssignmentOutcome Failed) w)
    \<and> unat (sn_retries s) = length (filter (\<lambda>x. x = AssignmentOutcome Retried) w)
    \<and> unat (sn_claim_denials s) = length (filter (\<lambda>x. x = ClaimAcquisitionDenied) w)
    \<and> unat (sn_claim_failures s) = length (filter (\<lambda>x. x = ClaimAcquisitionFailed) w)
    \<and> unat (sn_semantic_conflict_blocks s) = length (filter is_blocked w)
    \<and> unat (sn_semantic_conflict_warnings s) = length (filter is_warned w)
    \<and> unat (sn_semantic_conflicts s) = min (sum_list (map signal_conflicts w)) (2 ^ 64 - 1)"
proof -
  have "length w \<le> unat (cb_window_capacity (br_config (observe_all signals b)))"
    using observe_all_inv [OF breaker_new_inv [OF assms(1)]] by (simp add: breaker_inv_def assms(2))
  then have "length w < 2 ^ 64"
    using unat_less_exp [of "cb_window_capacity (br_config (observe_all signals b))"] by simp
  from window_snapshot_counts [OF this] show ?thesis by (simp add: assms(2,3) breaker_snapshot_def)
qed

theorem breaker_snapshot_exact_witness:
  "unat (sn_failed_assignments (breaker_snapshot (observe_all failing_signals default_breaker))) =
     length (filter (\<lambda>x. x = AssignmentOutcome Failed) (br_window (observe_all failing_signals default_breaker)))
   \<and> br_window (observe_all failing_signals default_breaker) = failing_signals"
proof
  have new: "breaker_new default_breaker_config = Inr default_breaker" by code_simp
  from breaker_snapshot_exact [OF new refl refl, of failing_signals]
  show "unat (sn_failed_assignments (breaker_snapshot (observe_all failing_signals default_breaker))) =
     length (filter (\<lambda>x. x = AssignmentOutcome Failed) (br_window (observe_all failing_signals default_breaker)))"
    by blast
  show "br_window (observe_all failing_signals default_breaker) = failing_signals" by code_simp
qed

text \<open>C14. An open breaker refuses admission for exactly the remaining number of signals, whatever
  they are, and then half-opens: it never stays open for good.\<close>

theorem open_breaker_half_opens:
  assumes "br_state b = Breaker_Open trip n" and "0 < n" and "length signals = unat n"
  shows "br_state (observe_all signals b) =
      Breaker_HalfOpen trip 0 (cb_half_open_successes (br_config b))
    \<and> (\<forall>m < length signals. \<not> permits_admission (observe_all (take m signals) b))"
proof
  show "\<forall>m < length signals. \<not> permits_admission (observe_all (take m signals) b)"
  proof (intro allI impI)
    fix m assume "m < length signals"
    then have "length (take m signals) < unat n" using assms(3) by simp
    from observe_all_open [OF assms(1) this]
    show "\<not> permits_admission (observe_all (take m signals) b)" by (simp add: permits_admission_def)
  qed
  from assms(2,3) obtain xs x where xs: "signals = xs @ [x]"
    by (cases signals rule: rev_cases) (auto simp: word_gt_0 unat_eq_0)
  with assms(3) have lt: "length xs < unat n" and eq: "unat n = Suc (length xs)" by simp_all
  have "n = of_nat (unat n)" by simp
  also have "\<dots> = 1 + of_nat (length xs)" by (simp add: eq)
  finally have one: "n - of_nat (length xs) = 1" by simp
  show "br_state (observe_all signals b) =
      Breaker_HalfOpen trip 0 (cb_half_open_successes (br_config b))"
    using observe_open [OF observe_all_open [OF assms(1) lt]] by (simp add: xs observe_all_append one)
qed

theorem open_breaker_half_opens_witness:
  "permits_admission (observe_all (replicate 4 ClaimAcquisitionDenied)
     (observe_all failing_signals default_breaker))
   \<and> \<not> permits_admission (observe_all (replicate 3 ClaimAcquisitionDenied)
     (observe_all failing_signals default_breaker))"
proof -
  let ?b = "observe_all failing_signals default_breaker"
  let ?trip = "\<lparr>tr_reason = SustainedAssignmentFailures 3 0 3, tr_window = window_snapshot failing_signals\<rparr>"
  have st: "br_state ?b = Breaker_Open ?trip 4" by code_simp
  have len: "length (replicate 4 ClaimAcquisitionDenied) = unat (4 :: usize)" by simp
  from open_breaker_half_opens [OF st _ len]
  have "br_state (observe_all (replicate 4 ClaimAcquisitionDenied) ?b) =
      Breaker_HalfOpen ?trip 0 (cb_half_open_successes (br_config ?b))"
    and "\<not> permits_admission (observe_all (take 3 (replicate 4 ClaimAcquisitionDenied)) ?b)"
    by (simp, fastforce)
  then show ?thesis by (simp add: permits_admission_def)
qed

text \<open>A half-open breaker closes, with an empty window, after exactly the missing number of
  accepted assignments in a row; any other signal before that opens it again for the full cooldown
  and the same reason.\<close>

theorem half_open_breaker_decides:
  assumes "br_state b = Breaker_HalfOpen trip k r" and "k < r"
  shows "br_state (observe_all (replicate (unat r - unat k) (AssignmentOutcome Accepted)) b) = Breaker_Closed
    \<and> br_window (observe_all (replicate (unat r - unat k) (AssignmentOutcome Accepted)) b) = []
    \<and> (\<forall>m x. m < unat r - unat k \<longrightarrow> x \<noteq> AssignmentOutcome Accepted \<longrightarrow>
        (\<exists>w. br_state (observe_all (replicate m (AssignmentOutcome Accepted) @ [x]) b) =
          Breaker_Open \<lparr>tr_reason = tr_reason trip, tr_window = w\<rparr>
            (cb_open_cooldown_signals (br_config b))))"
proof -
  let ?acc = "AssignmentOutcome Accepted"
  obtain m where m: "unat r - unat k = Suc m"
    using assms(2) by (cases "unat r - unat k") (auto simp: word_less_nat_alt)
  have st: "br_state (observe_all (replicate m ?acc) b) = Breaker_HalfOpen trip (k + of_nat m) r"
    using observe_all_accepted [OF assms(1)] m by simp
  have ur: "unat r = unat k + m + 1" using m assms(2) by (simp add: word_less_nat_alt)
  have "r = of_nat (unat r)" by simp
  also have "\<dots> = k + of_nat m + 1" by (simp add: ur)
  finally have req: "k + of_nat m + 1 = r" by simp
  have "unat (of_nat m :: usize) = m" using ur unat_less_exp [of r] by (simp add: unat_of_nat)
  then have "k + of_nat m < r"
    using ur unat_less_exp [of r] by (simp add: word_less_nat_alt unat_word_ariths)
  note last = observe_accepted [OF st this]
  have split: "replicate (unat r - unat k) ?acc = replicate m ?acc @ [?acc]"
    by (simp add: m replicate_append_same)
  show ?thesis
  proof (intro conjI allI impI)
    show "br_state (observe_all (replicate (unat r - unat k) ?acc) b) = Breaker_Closed"
      and "br_window (observe_all (replicate (unat r - unat k) ?acc) b) = []"
      using last req by (simp_all add: split observe_all_append)
    fix l x assume "l < unat r - unat k" and "x \<noteq> ?acc"
    with observe_not_accepted [OF observe_all_accepted [OF assms(1)], of l x]
    show "\<exists>w. br_state (observe_all (replicate l ?acc @ [x]) b) =
        Breaker_Open \<lparr>tr_reason = tr_reason trip, tr_window = w\<rparr> (cb_open_cooldown_signals (br_config b))"
      by (simp add: observe_all_append)
  qed
qed

theorem half_open_breaker_decides_witness:
  "br_state (observe_all (replicate 2 (AssignmentOutcome Accepted))
     (observe_all (failing_signals @ replicate 4 ClaimAcquisitionDenied) default_breaker)) = Breaker_Closed"
proof -
  let ?b = "observe_all (failing_signals @ replicate 4 ClaimAcquisitionDenied) default_breaker"
  have st: "br_state ?b = Breaker_HalfOpen
      \<lparr>tr_reason = SustainedAssignmentFailures 3 0 3, tr_window = window_snapshot failing_signals\<rparr> 0 2"
    by code_simp
  have two: "unat (2 :: usize) - unat (0 :: usize) = 2" by simp
  have "0 < (2 :: usize)" by simp
  from half_open_breaker_decides [OF st this] show ?thesis unfolding two by blast
qed

end
