(* ===== verification/Loop_Guard.thy ===== *)
theory Loop_Guard
  imports Prelude
begin

text \<open>
  The severity-scored loop guard of self-review cycles (\<^verbatim>\<open>src/src/loop_guard.rs\<close>). It records
  at most five cycles, keeps the lengths of the current low-severity run and of the current run of
  identical errors, and decides whether to continue, to narrow (stop reviewing) or to refuse.

  The lemmas show that the recorded run lengths are those of the history, that the overflow errors
  of the code cannot occur, and in which situations each decision is taken.
\<close>

section \<open>Data\<close>

definition MAX_LOOP_GUARD_CYCLES :: usize where
  "MAX_LOOP_GUARD_CYCLES = 5"

definition MAX_FAILURE_SIGNATURE_BYTES :: usize where
  "MAX_FAILURE_SIGNATURE_BYTES = 1024"

record round_limits =
  rd_max_depth :: u8
  rd_max_child_retries :: u8
  rd_max_gate_corrections :: u8

definition plan_defaults :: round_limits where
  "plan_defaults = \<lparr>rd_max_depth = 2, rd_max_child_retries = 0, rd_max_gate_corrections = 0\<rparr>"

definition supervisor_caps :: round_limits where
  "supervisor_caps = \<lparr>rd_max_depth = 32, rd_max_child_retries = 2, rd_max_gate_corrections = 4\<rparr>"

definition remaining_gate_corrections :: "round_limits \<Rightarrow> u8 \<Rightarrow> u8" where
  "remaining_gate_corrections limits used = saturating_sub (rd_max_gate_corrections limits) used"

definition remaining_child_retries :: "round_limits \<Rightarrow> u8 \<Rightarrow> u8" where
  "remaining_child_retries limits used = saturating_sub (rd_max_child_retries limits) used"

datatype cascade_breaker_view = View_Closed | View_HalfOpen | View_Open

datatype loop_finding_severity = Sev_Info | Sev_Warning | Sev_Error

fun severity_score :: "loop_finding_severity \<Rightarrow> u8" where
  "severity_score Sev_Info = 1"
| "severity_score Sev_Warning = 2"
| "severity_score Sev_Error = 4"

datatype low_severity_ceiling = Ceiling_Info | Ceiling_Warning

datatype validation_floor = Floor_Passed | Floor_Missing | Floor_Failed

definition floor_is_satisfied :: "validation_floor \<Rightarrow> bool" where
  "floor_is_satisfied f \<longleftrightarrow> f = Floor_Passed"

record loop_guard_config =
  gc_max_low_severity :: low_severity_ceiling
  gc_consecutive_low_severity_cycles :: u8
  gc_consecutive_repeat_failures :: u8

datatype loop_guard_config_error =
    OutOfRange string usize
  | ThresholdExceedsCorrectionBound u8 u8

datatype loop_guard_error =
    GuardConfig loop_guard_config_error
  | CycleCountOverflow
  | CycleHistoryBound usize
  | SignatureTooLong usize
  | CycleOrdinalOverflow

definition in_cycle_range :: "u8 \<Rightarrow> bool" where
  "in_cycle_range value \<longleftrightarrow> 1 \<le> value \<and> value \<le> ucast MAX_LOOP_GUARD_CYCLES"

definition guard_config_validate :: "loop_guard_config \<Rightarrow> loop_guard_config_error + unit" where
  "guard_config_validate c =
     (if \<not> in_cycle_range (gc_consecutive_low_severity_cycles c)
      then Inl (OutOfRange ''consecutive_low_severity_cycles'' MAX_LOOP_GUARD_CYCLES)
      else if \<not> in_cycle_range (gc_consecutive_repeat_failures c)
      then Inl (OutOfRange ''consecutive_repeat_failures'' MAX_LOOP_GUARD_CYCLES)
      else Inr ())"

definition warning_streak :: "u8 \<Rightarrow> loop_guard_config_error + loop_guard_config" where
  "warning_streak consecutive =
     (let config = \<lparr>gc_max_low_severity = Ceiling_Warning,
            gc_consecutive_low_severity_cycles = consecutive, gc_consecutive_repeat_failures = 2\<rparr> in
      and_then (guard_config_validate config) (\<lambda>_. Inr config))"

definition validate_against_limits ::
  "loop_guard_config \<Rightarrow> round_limits \<Rightarrow> loop_guard_config_error + unit" where
  "validate_against_limits c limits =
     and_then (guard_config_validate c) (\<lambda>_.
     (let max = saturating_add (rd_max_gate_corrections limits) 1 in
      ensure (\<not> max < gc_consecutive_low_severity_cycles c)
        (ThresholdExceedsCorrectionBound (gc_consecutive_low_severity_cycles c) max)))"

fun severity_is_low :: "low_severity_ceiling \<Rightarrow> loop_finding_severity option \<Rightarrow> bool" where
  "severity_is_low _ None = True"
| "severity_is_low _ (Some Sev_Info) = True"
| "severity_is_low Ceiling_Warning (Some Sev_Warning) = True"
| "severity_is_low Ceiling_Info (Some Sev_Warning) = False"
| "severity_is_low _ (Some Sev_Error) = False"

record cycle_observation =
  ob_highest_severity :: "loop_finding_severity option"
  ob_failure_signature :: "string option"
  ob_validation_floor :: validation_floor

definition check_signature :: "string option \<Rightarrow> loop_guard_error + unit" where
  "check_signature signature =
     (case signature of None \<Rightarrow> Inr ()
      | Some s \<Rightarrow> ensure (\<not> unat MAX_FAILURE_SIGNATURE_BYTES < length s)
          (SignatureTooLong MAX_FAILURE_SIGNATURE_BYTES))"

definition cycle_observation_new ::
  "loop_finding_severity option \<Rightarrow> string option \<Rightarrow> validation_floor \<Rightarrow>
    loop_guard_error + cycle_observation" where
  "cycle_observation_new highest signature floor =
     and_then (check_signature signature) (\<lambda>_.
     Inr \<lparr>ob_highest_severity = highest, ob_failure_signature = signature,
       ob_validation_floor = floor\<rparr>)"

record observe_request =
  rq_observation :: cycle_observation
  rq_limits :: round_limits
  rq_used_gate_corrections :: u8
  rq_used_child_retries :: u8
  rq_current_depth :: u8
  rq_cascade_breaker :: cascade_breaker_view

datatype loop_guard_escalation = Esc_Continue | Esc_Narrow | Esc_Refuse

datatype round_limit_kind = MaxDepth | MaxChildRetries | MaxGateCorrections

datatype loop_guard_reason =
    ProgressOrBudgetRemains
  | ConsecutiveLowSeverityNonProgress u8 u8 u8
  | RepeatedHighSeverityFailure u8 u8 string u8
  | RoundLimitExhausted round_limit_kind u8 u8
  | CascadeBreakerOpen
  | ValidationFloorUnsatisfied validation_floor

record loop_guard_decision =
  de_escalation :: loop_guard_escalation
  de_reason :: loop_guard_reason
  de_retry_suppressed :: bool
  de_validation_floor_required :: bool

definition continue_progress :: loop_guard_decision where
  "continue_progress = \<lparr>de_escalation = Esc_Continue, de_reason = ProgressOrBudgetRemains,
     de_retry_suppressed = False, de_validation_floor_required = True\<rparr>"

definition narrow :: "u8 \<Rightarrow> u8 \<Rightarrow> u8 \<Rightarrow> loop_guard_decision" where
  "narrow consecutive threshold score =
     \<lparr>de_escalation = Esc_Narrow,
      de_reason = ConsecutiveLowSeverityNonProgress consecutive threshold score,
      de_retry_suppressed = True, de_validation_floor_required = True\<rparr>"

definition refuse :: "loop_guard_reason \<Rightarrow> loop_guard_decision" where
  "refuse reason = \<lparr>de_escalation = Esc_Refuse, de_reason = reason, de_retry_suppressed = True,
     de_validation_floor_required = True\<rparr>"

definition permits_success :: "loop_guard_decision \<Rightarrow> validation_floor \<Rightarrow> bool" where
  "permits_success d floor \<longleftrightarrow> floor_is_satisfied floor \<and> de_escalation d = Esc_Narrow"

record cycle_record =
  cy_cycle_ordinal :: u8
  cy_highest_severity :: "loop_finding_severity option"
  cy_severity_score :: u8
  cy_low_severity :: bool
  cy_consecutive_low_severity_cycles :: u8
  cy_consecutive_repeat_failures :: u8
  cy_failure_signature :: "string option"
  cy_validation_floor :: validation_floor

record loop_guard_evidence =
  ev_config :: loop_guard_config
  ev_cycles :: "cycle_record list"
  ev_decision :: loop_guard_decision
  ev_round_limits :: round_limits
  ev_cascade_breaker :: cascade_breaker_view

record loop_guard_tracker =
  lt_config :: loop_guard_config
  lt_limits :: round_limits
  lt_cycles :: "cycle_record list"
  lt_last_decision :: "loop_guard_decision option"
  lt_last_breaker :: cascade_breaker_view
  lt_last_limits :: round_limits

section \<open>Operations\<close>

definition tracker_new ::
  "loop_guard_config \<Rightarrow> round_limits \<Rightarrow> loop_guard_config_error + loop_guard_tracker" where
  "tracker_new config limits =
     and_then (validate_against_limits config limits) (\<lambda>_.
     Inr \<lparr>lt_config = config, lt_limits = limits, lt_cycles = [], lt_last_decision = None,
       lt_last_breaker = View_Closed, lt_last_limits = limits\<rparr>)"

definition last_cycle :: "cycle_record list \<Rightarrow> cycle_record option" where
  "last_cycle cycles = (if cycles = [] then None else Some (last cycles))"

definition consecutive_repeat_count ::
  "cycle_record option \<Rightarrow> loop_finding_severity option \<Rightarrow> string option \<Rightarrow> u8" where
  "consecutive_repeat_count previous highest signature =
     (if highest \<noteq> Some Sev_Error then 0
      else case signature of None \<Rightarrow> 0
      | Some s \<Rightarrow>
          (case previous of
             Some p \<Rightarrow>
               if cy_highest_severity p = Some Sev_Error \<and> cy_failure_signature p = Some s
               then saturating_add (cy_consecutive_repeat_failures p) 1 else 1
           | None \<Rightarrow> 1))"

definition decide :: "loop_guard_config \<Rightarrow> observe_request \<Rightarrow> cycle_record \<Rightarrow> loop_guard_decision" where
  "decide config request record =
     (let floor = cy_validation_floor record;
          limits = rq_limits request;
          remaining_corrections =
            remaining_gate_corrections limits (rq_used_gate_corrections request);
          depth_exceeded = rd_max_depth limits < rq_current_depth request;
          retries_exceeded = rd_max_child_retries limits < rq_used_child_retries request;
          corrections_exhausted = remaining_corrections = 0;
          repeat_threshold_reached =
            gc_consecutive_repeat_failures config \<le> cy_consecutive_repeat_failures record
            \<and> 0 < cy_consecutive_repeat_failures record;
          low_threshold_reached =
            gc_consecutive_low_severity_cycles config \<le> cy_consecutive_low_severity_cycles record
      in
      if rq_cascade_breaker request = View_Open then refuse CascadeBreakerOpen
      else if depth_exceeded
      then refuse (RoundLimitExhausted MaxDepth (rq_current_depth request) (rd_max_depth limits))
      else if retries_exceeded
      then refuse (RoundLimitExhausted MaxChildRetries (rq_used_child_retries request)
        (rd_max_child_retries limits))
      else if corrections_exhausted
      then (if \<not> floor_is_satisfied floor then refuse (ValidationFloorUnsatisfied floor)
            else refuse (RoundLimitExhausted MaxGateCorrections (rq_used_gate_corrections request)
              (rd_max_gate_corrections limits)))
      else if repeat_threshold_reached
      then refuse (RepeatedHighSeverityFailure (cy_consecutive_repeat_failures record)
        (gc_consecutive_repeat_failures config)
        (case cy_failure_signature record of None \<Rightarrow> [] | Some s \<Rightarrow> s) (cy_severity_score record))
      else if low_threshold_reached
      then narrow (cy_consecutive_low_severity_cycles record)
        (gc_consecutive_low_severity_cycles config) (cy_severity_score record)
      else continue_progress)"

definition u8_try_from :: "usize \<Rightarrow> u8 option" where
  "u8_try_from n = (if n \<le> 255 then Some (ucast n) else None)"

definition guard_observe ::
  "observe_request \<Rightarrow> loop_guard_tracker \<Rightarrow>
    (loop_guard_error + loop_guard_decision) \<times> loop_guard_tracker" where
  "guard_observe request t =
     (case check_signature (ob_failure_signature (rq_observation request)) of
        Inl e \<Rightarrow> (Inl e, t)
      | Inr _ \<Rightarrow>
     (case checked_add (of_nat (length (lt_cycles t)) :: usize) 1 of
        None \<Rightarrow> (Inl CycleCountOverflow, t)
      | Some next_len \<Rightarrow>
     if MAX_LOOP_GUARD_CYCLES < next_len then
       (let used = (case u8_try_from (of_nat (length (lt_cycles t))) of None \<Rightarrow> -1 | Some u \<Rightarrow> u);
            decision = refuse (RoundLimitExhausted MaxGateCorrections used (ucast MAX_LOOP_GUARD_CYCLES))
        in (Inl (CycleHistoryBound MAX_LOOP_GUARD_CYCLES),
            t\<lparr>lt_last_decision := Some decision, lt_last_breaker := rq_cascade_breaker request,
              lt_last_limits := rq_limits request\<rparr>))
     else
     (case u8_try_from next_len of
        None \<Rightarrow> (Inl CycleOrdinalOverflow, t)
      | Some cycle_ordinal \<Rightarrow>
     (let highest = ob_highest_severity (rq_observation request);
          score = (case highest of None \<Rightarrow> 0 | Some s \<Rightarrow> severity_score s);
          low_severity = severity_is_low (gc_max_low_severity (lt_config t)) highest;
          previous_low = (case last_cycle (lt_cycles t) of None \<Rightarrow> 0
            | Some c \<Rightarrow> cy_consecutive_low_severity_cycles c)
      in
      case (if low_severity then ok_or (checked_add previous_low 1) CycleCountOverflow else Inr 0) of
        Inl e \<Rightarrow> (Inl e, t)
      | Inr consecutive_low \<Rightarrow>
          (let signature = ob_failure_signature (rq_observation request);
               record = \<lparr>cy_cycle_ordinal = cycle_ordinal, cy_highest_severity = highest,
                 cy_severity_score = score, cy_low_severity = low_severity,
                 cy_consecutive_low_severity_cycles = consecutive_low,
                 cy_consecutive_repeat_failures =
                   consecutive_repeat_count (last_cycle (lt_cycles t)) highest signature,
                 cy_failure_signature = signature,
                 cy_validation_floor = ob_validation_floor (rq_observation request)\<rparr>;
               decision = decide (lt_config t) request record
           in (Inr decision,
               t\<lparr>lt_cycles := lt_cycles t @ [record], lt_last_breaker := rq_cascade_breaker request,
                 lt_last_limits := rq_limits request, lt_last_decision := Some decision\<rparr>))))))"

definition guard_evidence :: "loop_guard_tracker \<Rightarrow> loop_guard_evidence" where
  "guard_evidence t =
     \<lparr>ev_config = lt_config t, ev_cycles = lt_cycles t,
      ev_decision = (case lt_last_decision t of None \<Rightarrow> continue_progress | Some d \<Rightarrow> d),
      ev_round_limits = lt_last_limits t, ev_cascade_breaker = lt_last_breaker t\<rparr>"

section \<open>Specification\<close>

text \<open>
  What the run lengths stand for, on a history with the newest cycle first: the number of leading
  low-severity cycles, and the number of leading errors with the newest cycle's signature.
\<close>

definition low_run :: "cycle_record list \<Rightarrow> nat" where
  "low_run newest = length (takeWhile cy_low_severity newest)"

definition is_error_with :: "string \<Rightarrow> cycle_record \<Rightarrow> bool" where
  "is_error_with s c \<longleftrightarrow> cy_highest_severity c = Some Sev_Error \<and> cy_failure_signature c = Some s"

definition repeat_run :: "cycle_record list \<Rightarrow> nat" where
  "repeat_run newest =
     (case newest of [] \<Rightarrow> 0
      | c # _ \<Rightarrow> (case cy_failure_signature c of None \<Rightarrow> 0
          | Some s \<Rightarrow> length (takeWhile (is_error_with s) newest)))"

definition record_exact :: "low_severity_ceiling \<Rightarrow> cycle_record \<Rightarrow> cycle_record list \<Rightarrow> bool" where
  "record_exact ceiling c older \<longleftrightarrow>
     unat (cy_cycle_ordinal c) = Suc (length older)
     \<and> cy_severity_score c = (case cy_highest_severity c of None \<Rightarrow> 0 | Some s \<Rightarrow> severity_score s)
     \<and> cy_low_severity c = severity_is_low ceiling (cy_highest_severity c)
     \<and> unat (cy_consecutive_low_severity_cycles c) = low_run (c # older)
     \<and> unat (cy_consecutive_repeat_failures c) = repeat_run (c # older)
     \<and> check_signature (cy_failure_signature c) = Inr ()"

fun history_exact :: "low_severity_ceiling \<Rightarrow> cycle_record list \<Rightarrow> bool" where
  "history_exact ceiling [] \<longleftrightarrow> True"
| "history_exact ceiling (c # older) \<longleftrightarrow> record_exact ceiling c older \<and> history_exact ceiling older"

definition guard_ok :: "loop_guard_tracker \<Rightarrow> bool" where
  "guard_ok t \<longleftrightarrow> guard_config_validate (lt_config t) = Inr ()
     \<and> length (lt_cycles t) \<le> 5
     \<and> history_exact (gc_max_low_severity (lt_config t)) (rev (lt_cycles t))"

fun guard_run ::
  "observe_request list \<Rightarrow> loop_guard_tracker \<Rightarrow>
    (loop_guard_error + loop_guard_decision) list \<times> loop_guard_tracker" where
  "guard_run [] t = ([], t)"
| "guard_run (rq # rqs) t =
     (let (r, u) = guard_observe rq t; (rs, v) = guard_run rqs u in (r # rs, v))"

inductive guard_reachable :: "loop_guard_tracker \<Rightarrow> bool" where
  start: "tracker_new config limits = Inr t \<Longrightarrow> guard_reachable t"
| observe: "guard_reachable t \<Longrightarrow> guard_observe rq t = (r, u) \<Longrightarrow> guard_reachable u"

section \<open>The history\<close>

definition observed_record :: "loop_guard_tracker \<Rightarrow> observe_request \<Rightarrow> cycle_record" where
  "observed_record t rq =
     (let ob = rq_observation rq; highest = ob_highest_severity ob;
          low = severity_is_low (gc_max_low_severity (lt_config t)) highest
      in \<lparr>cy_cycle_ordinal = of_nat (Suc (length (lt_cycles t))), cy_highest_severity = highest,
          cy_severity_score = (case highest of None \<Rightarrow> 0 | Some s \<Rightarrow> severity_score s),
          cy_low_severity = low,
          cy_consecutive_low_severity_cycles =
            (if low then of_nat (Suc (low_run (rev (lt_cycles t)))) else 0),
          cy_consecutive_repeat_failures = consecutive_repeat_count (last_cycle (lt_cycles t)) highest
            (ob_failure_signature ob),
          cy_failure_signature = ob_failure_signature ob,
          cy_validation_floor = ob_validation_floor ob\<rparr>)"

lemma low_run_le: "low_run cs \<le> length cs"
  by (simp add: low_run_def length_takeWhile_le)

lemma repeat_run_le: "repeat_run cs \<le> length cs"
  by (auto simp: repeat_run_def length_takeWhile_le split: list.split option.split)

lemma low_run_Cons: "low_run (c # cs) = (if cy_low_severity c then Suc (low_run cs) else 0)"
  by (simp add: low_run_def)

lemma history_exact_nth:
  assumes "history_exact ceiling (rev cs)" and "k < length cs"
  shows "record_exact ceiling (cs ! k) (rev (take k cs))"
  using assms
proof (induction cs rule: rev_induct)
  case Nil
  then show ?case by simp
next
  case (snoc c cs)
  then show ?case by (cases "k = length cs") (simp_all add: nth_append)
qed

lemma last_cycle_rev: "last_cycle cs = (case rev cs of [] \<Rightarrow> None | c # _ \<Rightarrow> Some c)"
  by (cases cs rule: rev_cases) (simp_all add: last_cycle_def)

lemma previous_low_exact:
  assumes "history_exact ceiling (rev cs)"
  shows "unat (case last_cycle cs of None \<Rightarrow> 0 | Some c \<Rightarrow> cy_consecutive_low_severity_cycles c)
    = low_run (rev cs)"
  using assms
  by (cases cs rule: rev_cases) (simp_all add: last_cycle_def record_exact_def low_run_def)

lemma repeat_run_Cons:
  "repeat_run (c # cs) =
     (case cy_failure_signature c of None \<Rightarrow> 0
      | Some s \<Rightarrow> if cy_highest_severity c \<noteq> Some Sev_Error then 0
          else case cs of [] \<Rightarrow> 1
          | d # _ \<Rightarrow> if is_error_with s d then Suc (repeat_run cs) else 1)"
  by (cases cs) (auto simp: repeat_run_def is_error_with_def split: option.split)

lemma repeat_count_exact:
  assumes "history_exact ceiling (rev cs)" and "length cs \<le> 5"
  shows "unat (consecutive_repeat_count (last_cycle cs) (cy_highest_severity c)
      (cy_failure_signature c)) = repeat_run (c # rev cs)"
proof (cases "rev cs")
  case Nil
  then show ?thesis
    by (simp add: last_cycle_def consecutive_repeat_count_def repeat_run_Cons split: option.split)
next
  case (Cons d ds)
  with assms have "unat (cy_consecutive_repeat_failures d) = repeat_run (rev cs)"
    by (simp add: record_exact_def)
  moreover have "repeat_run (rev cs) \<le> 5"
    using repeat_run_le [of "rev cs"] assms(2) by simp
  ultimately show ?thesis using Cons
    by (auto simp: last_cycle_rev consecutive_repeat_count_def repeat_run_Cons is_error_with_def
        width_simps split: option.split)
qed

lemma small_word_facts:
  assumes "n \<le> 5"
  shows "checked_add (of_nat n :: usize) 1 = Some (of_nat (Suc n))"
    and "MAX_LOOP_GUARD_CYCLES < of_nat (Suc n) \<longleftrightarrow> 5 \<le> n"
    and "u8_try_from (of_nat (Suc n)) = Some (of_nat (Suc n))"
    and "u8_try_from (of_nat n) = Some (of_nat n)"
    and "unat (of_nat (Suc n) :: u8) = Suc n"
proof -
  from assms have "n \<in> set [0, 1, 2, 3, 4, 5]" by auto
  then show "checked_add (of_nat n :: usize) 1 = Some (of_nat (Suc n))"
    and "MAX_LOOP_GUARD_CYCLES < of_nat (Suc n) \<longleftrightarrow> 5 \<le> n"
    and "u8_try_from (of_nat (Suc n)) = Some (of_nat (Suc n))"
    and "u8_try_from (of_nat n) = Some (of_nat n)"
    and "unat (of_nat (Suc n) :: u8) = Suc n"
    by (auto simp: width_simps MAX_LOOP_GUARD_CYCLES_def u8_try_from_def)
qed

lemma checked_add_small:
  assumes "unat (p :: u8) = n" and "n \<le> 5"
  shows "checked_add p 1 = Some (of_nat (Suc n))"
  using assms small_word_facts(5) [OF assms(2)] by (simp add: width_simps)

lemma guard_observe_cases:
  assumes "guard_ok t"
  shows "guard_observe rq t =
    (case check_signature (ob_failure_signature (rq_observation rq)) of
       Inl e \<Rightarrow> (Inl e, t)
     | Inr _ \<Rightarrow>
         if 5 \<le> length (lt_cycles t) then
           (Inl (CycleHistoryBound 5),
            t\<lparr>lt_last_decision := Some (refuse (RoundLimitExhausted MaxGateCorrections 5 5)),
              lt_last_breaker := rq_cascade_breaker rq, lt_last_limits := rq_limits rq\<rparr>)
         else
           (let c = observed_record t rq; d = decide (lt_config t) rq c in
            (Inr d, t\<lparr>lt_cycles := lt_cycles t @ [c], lt_last_breaker := rq_cascade_breaker rq,
              lt_last_limits := rq_limits rq, lt_last_decision := Some d\<rparr>)))"
proof -
  let ?n = "length (lt_cycles t)"
  let ?p = "case last_cycle (lt_cycles t) of None \<Rightarrow> 0 | Some c \<Rightarrow> cy_consecutive_low_severity_cycles c"
  from assms have n: "?n \<le> 5"
    and hist: "history_exact (gc_max_low_severity (lt_config t)) (rev (lt_cycles t))"
    by (simp_all add: guard_ok_def)
  from n low_run_le [of "rev (lt_cycles t)"] have "low_run (rev (lt_cycles t)) \<le> 5" by simp
  from checked_add_small [OF previous_low_exact [OF hist] this]
  have low: "checked_add ?p 1 = Some (of_nat (Suc (low_run (rev (lt_cycles t)))))" .
  note words = small_word_facts(1-4) [OF n]
  show ?thesis
  proof (cases "5 \<le> ?n")
    case True
    with n have "?n = 5" by simp
    with words show ?thesis
      by (simp add: guard_observe_def MAX_LOOP_GUARD_CYCLES_def Let_def split: sum.split)
  next
    case False
    with words low show ?thesis
      by (simp add: guard_observe_def observed_record_def Let_def split: sum.split)
  qed
qed

lemma observed_record_exact:
  assumes "guard_ok t" and "length (lt_cycles t) < 5"
    and "check_signature (ob_failure_signature (rq_observation rq)) = Inr ()"
  shows "record_exact (gc_max_low_severity (lt_config t)) (observed_record t rq) (rev (lt_cycles t))"
proof -
  let ?c = "observed_record t rq"
  from assms(1) have n: "length (lt_cycles t) \<le> 5"
    and hist: "history_exact (gc_max_low_severity (lt_config t)) (rev (lt_cycles t))"
    by (simp_all add: guard_ok_def)
  have sel: "cy_highest_severity ?c = ob_highest_severity (rq_observation rq)"
    "cy_failure_signature ?c = ob_failure_signature (rq_observation rq)"
    by (simp_all add: observed_record_def Let_def)
  from n low_run_le [of "rev (lt_cycles t)"] have "low_run (rev (lt_cycles t)) \<le> 5" by simp
  from small_word_facts(5) [OF this] small_word_facts(5) [OF n]
    repeat_count_exact [OF hist n, of ?c] assms(3)
  show ?thesis unfolding record_exact_def sel
    by (simp add: observed_record_def Let_def low_run_Cons)
qed

lemma guard_observe_ok:
  assumes "guard_ok t" and "guard_observe rq t = (r, u)"
  shows "guard_ok u" and "lt_config u = lt_config t"
proof -
  have "guard_ok u \<and> lt_config u = lt_config t"
  proof (cases "check_signature (ob_failure_signature (rq_observation rq)) = Inr ()
      \<and> length (lt_cycles t) < 5")
    case True
    with observed_record_exact [OF assms(1), of rq] assms show ?thesis
      by (auto simp: guard_observe_cases guard_ok_def Let_def)
  next
    case False
    with assms show ?thesis
      by (auto simp: guard_observe_cases guard_ok_def split: sum.splits if_splits)
  qed
  then show "guard_ok u" and "lt_config u = lt_config t" by simp_all
qed

lemma tracker_new_ok: "tracker_new config limits = Inr t \<Longrightarrow> guard_ok t"
  by (auto simp: tracker_new_def validate_against_limits_def guard_ok_def result_iffs Let_def)

lemma guard_reachable_ok: "guard_reachable t \<Longrightarrow> guard_ok t"
  by (induction rule: guard_reachable.induct) (blast intro: tracker_new_ok guard_observe_ok)+

text \<open>C15. The history of a tracker holds at most five cycles, numbered from 1, and every record is
  exact: its score and its low-severity flag are those of its highest finding, its low-severity
  counter is the number of low-severity cycles in a row up to and including it, and its repeat
  counter the number of errors with its own signature in a row up to and including it. Neither
  counter ever wraps or saturates.\<close>

theorem loop_history_exact:
  assumes "guard_reachable t"
  shows "length (lt_cycles t) \<le> 5 \<and>
    (\<forall>k < length (lt_cycles t).
       let c = lt_cycles t ! k; newest = rev (take (Suc k) (lt_cycles t)) in
       unat (cy_cycle_ordinal c) = Suc k
       \<and> cy_severity_score c = (case cy_highest_severity c of None \<Rightarrow> 0 | Some s \<Rightarrow> severity_score s)
       \<and> cy_low_severity c = severity_is_low (gc_max_low_severity (lt_config t)) (cy_highest_severity c)
       \<and> unat (cy_consecutive_low_severity_cycles c) = length (takeWhile cy_low_severity newest)
       \<and> unat (cy_consecutive_repeat_failures c) = repeat_run newest)"
proof -
  from guard_reachable_ok [OF assms] have n: "length (lt_cycles t) \<le> 5"
    and hist: "history_exact (gc_max_low_severity (lt_config t)) (rev (lt_cycles t))"
    by (simp_all add: guard_ok_def)
  have newest: "rev (take (Suc k) (lt_cycles t)) = lt_cycles t ! k # rev (take k (lt_cycles t))"
    if "k < length (lt_cycles t)" for k
    using that by (simp add: take_Suc_conv_app_nth)
  show ?thesis
    using n history_exact_nth [OF hist]
    by (auto simp: Let_def newest record_exact_def low_run_def [symmetric] simp del: takeWhile.simps)
qed

text \<open>A tracker that saw a warning, an error and the same error again.\<close>

definition sample_request :: "loop_finding_severity option \<Rightarrow> string option \<Rightarrow> observe_request" where
  "sample_request highest signature =
     \<lparr>rq_observation = \<lparr>ob_highest_severity = highest, ob_failure_signature = signature,
        ob_validation_floor = Floor_Passed\<rparr>,
      rq_limits = supervisor_caps, rq_used_gate_corrections = 1, rq_used_child_retries = 0,
      rq_current_depth = 2, rq_cascade_breaker = View_Closed\<rparr>"

definition sample_start :: loop_guard_tracker where
  "sample_start =
     \<lparr>lt_config = \<lparr>gc_max_low_severity = Ceiling_Warning, gc_consecutive_low_severity_cycles = 2,
        gc_consecutive_repeat_failures = 2\<rparr>,
      lt_limits = supervisor_caps, lt_cycles = [], lt_last_decision = None,
      lt_last_breaker = View_Closed, lt_last_limits = supervisor_caps\<rparr>"

definition sample_warned :: loop_guard_tracker where
  "sample_warned = snd (guard_observe (sample_request (Some Sev_Warning) None) sample_start)"

definition sample_failed :: loop_guard_tracker where
  "sample_failed =
     snd (guard_observe (sample_request (Some Sev_Error) (Some ''e1'')) sample_warned)"

lemma sample_start_reachable: "guard_reachable sample_start"
proof (rule guard_reachable.start)
  show "tracker_new (lt_config sample_start) (lt_limits sample_start) = Inr sample_start"
    by code_simp
qed

lemma sample_warned_reachable: "guard_reachable sample_warned"
  unfolding sample_warned_def
  by (rule guard_reachable.observe [OF sample_start_reachable surjective_pairing])

lemma sample_failed_reachable: "guard_reachable sample_failed"
  unfolding sample_failed_def
  by (rule guard_reachable.observe [OF sample_warned_reachable surjective_pairing])

theorem loop_history_exact_witness:
  "guard_reachable sample_failed \<and> length (lt_cycles sample_failed) = 2
    \<and> length (lt_cycles sample_failed) \<le> 5
    \<and> unat (cy_consecutive_repeat_failures (lt_cycles sample_failed ! 1))
      = repeat_run (rev (take (Suc 1) (lt_cycles sample_failed)))"
proof -
  have len: "length (lt_cycles sample_failed) = 2" by code_simp
  with loop_history_exact [OF sample_failed_reachable] sample_failed_reachable show ?thesis
    by (simp add: Let_def)
qed

section \<open>The decisions\<close>

lemma le_takeWhile_iff:
  "n \<le> length (takeWhile P xs) \<longleftrightarrow> n \<le> length xs \<and> (\<forall>x \<in> set (take n xs). P x)"
proof (induction xs arbitrary: n)
  case Nil
  then show ?case by simp
next
  case (Cons x xs)
  then show ?case by (cases n) auto
qed

lemma low_run_ge_iff:
  "n \<le> low_run cs \<longleftrightarrow> n \<le> length cs \<and> list_all cy_low_severity (take n cs)"
  by (simp add: low_run_def le_takeWhile_iff list_all_iff)

lemma repeat_run_ge_iff:
  assumes "0 < n"
  shows "n \<le> repeat_run cs \<longleftrightarrow> n \<le> length cs \<and> (\<exists>s. list_all (is_error_with s) (take n cs))"
proof (cases cs)
  case Nil
  with assms show ?thesis by (simp add: repeat_run_def)
next
  case (Cons c rest)
  with assms have "\<exists>s. list_all (is_error_with s) (take n cs) \<Longrightarrow> cy_failure_signature c \<noteq> None"
    by (cases n) (auto simp: is_error_with_def)
  moreover have "list_all (is_error_with s) (take n cs) \<Longrightarrow> cy_failure_signature c = Some s" for s
    using assms Cons by (cases n) (simp_all add: is_error_with_def)
  moreover have "cy_failure_signature c = Some s \<Longrightarrow>
      repeat_run cs = length (takeWhile (is_error_with s) cs)" for s
    using Cons by (simp add: repeat_run_def)
  moreover have "cy_failure_signature c = None \<Longrightarrow> repeat_run cs = 0"
    using Cons by (simp add: repeat_run_def)
  ultimately show ?thesis using assms
    by (cases "cy_failure_signature c") (auto simp: le_takeWhile_iff list_all_iff)
qed

definition budget_left :: "observe_request \<Rightarrow> bool" where
  "budget_left rq \<longleftrightarrow> rq_cascade_breaker rq \<noteq> View_Open
     \<and> rq_current_depth rq \<le> rd_max_depth (rq_limits rq)
     \<and> rq_used_child_retries rq \<le> rd_max_child_retries (rq_limits rq)
     \<and> rq_used_gate_corrections rq < rd_max_gate_corrections (rq_limits rq)"

lemma saturating_sub_eq_0_iff: "saturating_sub a b = 0 \<longleftrightarrow> a \<le> b" for a b :: "'a::len word"
  by (auto simp: saturating_sub_def)

lemma decide_escalation:
  "de_escalation (decide config rq c) =
     (if \<not> budget_left rq then Esc_Refuse
      else if gc_consecutive_repeat_failures config \<le> cy_consecutive_repeat_failures c
        \<and> 0 < cy_consecutive_repeat_failures c then Esc_Refuse
      else if gc_consecutive_low_severity_cycles config \<le> cy_consecutive_low_severity_cycles c
      then Esc_Narrow else Esc_Continue)"
proof -
  have "remaining_gate_corrections (rq_limits rq) (rq_used_gate_corrections rq) = 0 \<longleftrightarrow>
      \<not> rq_used_gate_corrections rq < rd_max_gate_corrections (rq_limits rq)"
    by (simp add: remaining_gate_corrections_def saturating_sub_eq_0_iff not_less)
  then show ?thesis
    unfolding decide_def budget_left_def Let_def
    by (simp add: refuse_def narrow_def continue_progress_def flip: not_less)
qed

lemma guard_observe_accepted:
  assumes "guard_ok t" and "guard_observe rq t = (Inr d, u)"
  obtains c where "lt_cycles u = lt_cycles t @ [c]" and "d = decide (lt_config t) rq c"
    and "record_exact (gc_max_low_severity (lt_config t)) c (rev (lt_cycles t))"
proof
  from assms have sig: "check_signature (ob_failure_signature (rq_observation rq)) = Inr ()"
    and n: "length (lt_cycles t) < 5"
    by (auto simp: guard_observe_cases split: sum.splits if_splits)
  from assms sig n show "lt_cycles u = lt_cycles t @ [observed_record t rq]"
    and "d = decide (lt_config t) rq (observed_record t rq)"
    by (auto simp: guard_observe_cases Let_def)
  from observed_record_exact [OF assms(1) n sig]
  show "record_exact (gc_max_low_severity (lt_config t)) (observed_record t rq) (rev (lt_cycles t))" .
qed

lemma accepted_thresholds:
  assumes "guard_ok t" and "guard_observe rq t = (Inr d, u)"
  shows "de_escalation d = (if \<not> budget_left rq then Esc_Refuse
    else if unat (gc_consecutive_repeat_failures (lt_config t)) \<le> repeat_run (rev (lt_cycles u))
    then Esc_Refuse
    else if unat (gc_consecutive_low_severity_cycles (lt_config t)) \<le> low_run (rev (lt_cycles u))
    then Esc_Narrow else Esc_Continue)"
proof -
  from guard_observe_accepted [OF assms] obtain c
    where u: "lt_cycles u = lt_cycles t @ [c]" and d: "d = decide (lt_config t) rq c"
      and c: "record_exact (gc_max_low_severity (lt_config t)) c (rev (lt_cycles t))" .
  from assms(1) have "1 \<le> gc_consecutive_repeat_failures (lt_config t)"
    by (simp add: guard_ok_def guard_config_validate_def in_cycle_range_def split: if_splits)
  then have "0 < unat (gc_consecutive_repeat_failures (lt_config t))"
    by (simp add: word_le_nat_alt)
  with c show ?thesis
    by (auto simp: u d decide_escalation record_exact_def word_le_nat_alt word_less_nat_alt)
qed

lemma low_not_repeat:
  assumes "history_exact ceiling cs" and "0 < low_run cs"
  shows "repeat_run cs = 0"
proof (cases cs)
  case Nil
  then show ?thesis by (simp add: repeat_run_def)
next
  case (Cons c rest)
  with assms have "severity_is_low ceiling (cy_highest_severity c)"
    by (auto simp: low_run_Cons record_exact_def split: if_splits)
  then have "cy_highest_severity c \<noteq> Some Sev_Error" by (cases ceiling) auto
  with Cons show ?thesis by (simp add: repeat_run_Cons split: option.split)
qed

text \<open>C16. A decision permits success with a validation floor exactly when the floor passed, the
  cascade breaker is not open, depth and retries are within their limits, a gate correction is
  left, and the last cycles, as many as the configured threshold, were all of low severity.\<close>

theorem success_iff:
  assumes "guard_reachable t" and "guard_observe rq t = (Inr d, u)"
  shows "permits_success d f \<longleftrightarrow>
    f = Floor_Passed
    \<and> rq_cascade_breaker rq \<noteq> View_Open
    \<and> rq_current_depth rq \<le> rd_max_depth (rq_limits rq)
    \<and> rq_used_child_retries rq \<le> rd_max_child_retries (rq_limits rq)
    \<and> rq_used_gate_corrections rq < rd_max_gate_corrections (rq_limits rq)
    \<and> (let n = unat (gc_consecutive_low_severity_cycles (lt_config t)) in
       n \<le> length (lt_cycles u) \<and> list_all cy_low_severity (take n (rev (lt_cycles u))))"
proof -
  note ok = guard_reachable_ok [OF assms(1)]
  note ok' = guard_observe_ok [OF ok assms(2)]
  from ok have range: "1 \<le> gc_consecutive_low_severity_cycles (lt_config t)"
    "1 \<le> gc_consecutive_repeat_failures (lt_config t)"
    by (simp_all add: guard_ok_def guard_config_validate_def in_cycle_range_def split: if_splits)
  then have "0 < unat (gc_consecutive_low_severity_cycles (lt_config t))"
    "0 < unat (gc_consecutive_repeat_failures (lt_config t))"
    by (simp_all add: word_le_nat_alt)
  moreover from ok' have "0 < low_run (rev (lt_cycles u)) \<Longrightarrow> repeat_run (rev (lt_cycles u)) = 0"
    by (blast intro: low_not_repeat dest: guard_ok_def [THEN iffD1])
  ultimately show ?thesis
    unfolding permits_success_def accepted_thresholds [OF ok assms(2)] Let_def
    using low_run_ge_iff [of "unat (gc_consecutive_low_severity_cycles (lt_config t))"
      "rev (lt_cycles u)"]
    by (auto simp: floor_is_satisfied_def budget_left_def)
qed

theorem success_iff_witness:
  "permits_success (the (case guard_observe (sample_request None None) sample_warned of
      (Inr d, _) \<Rightarrow> Some d | _ \<Rightarrow> None)) Floor_Passed"
proof -
  obtain d u where "guard_observe (sample_request None None) sample_warned = (Inr d, u)"
    and "length (lt_cycles u) = 2" and "list_all cy_low_severity (lt_cycles u)"
    and "lt_config sample_warned = lt_config sample_start"
  proof
    let ?r = "guard_observe (sample_request None None) sample_warned"
    have "isl (fst ?r) = False" by code_simp
    then show "?r = (Inr (projr (fst ?r)), snd ?r)" by (metis prod.collapse sum.collapse(2))
    show "length (lt_cycles (snd ?r)) = 2" by code_simp
    show "list_all cy_low_severity (lt_cycles (snd ?r))" by code_simp
    show "lt_config sample_warned = lt_config sample_start" by code_simp
  qed
  with success_iff [OF sample_warned_reachable this(1), of Floor_Passed] show ?thesis
    by (simp add: sample_request_def supervisor_caps_def sample_start_def Let_def)
qed

text \<open>The guard refuses exactly when the cascade breaker is open, a depth or retry limit is
  exceeded, no gate correction is left, or the last cycles, as many as the configured threshold,
  all failed with one and the same error signature. Every refusal suppresses a retry.\<close>

theorem refusal_iff:
  assumes "guard_reachable t" and "guard_observe rq t = (Inr d, u)"
  shows "(de_escalation d = Esc_Refuse \<longleftrightarrow>
      rq_cascade_breaker rq = View_Open
      \<or> rd_max_depth (rq_limits rq) < rq_current_depth rq
      \<or> rd_max_child_retries (rq_limits rq) < rq_used_child_retries rq
      \<or> rd_max_gate_corrections (rq_limits rq) \<le> rq_used_gate_corrections rq
      \<or> (let n = unat (gc_consecutive_repeat_failures (lt_config t)) in
         n \<le> length (lt_cycles u) \<and>
         (\<exists>s. list_all (\<lambda>c. cy_highest_severity c = Some Sev_Error \<and> cy_failure_signature c = Some s)
            (take n (rev (lt_cycles u))))))
    \<and> (de_retry_suppressed d \<longleftrightarrow> de_escalation d \<noteq> Esc_Continue)"
proof -
  note ok = guard_reachable_ok [OF assms(1)]
  from ok have "1 \<le> gc_consecutive_repeat_failures (lt_config t)"
    by (simp add: guard_ok_def guard_config_validate_def in_cycle_range_def split: if_splits)
  then have "0 < unat (gc_consecutive_repeat_failures (lt_config t))"
    by (simp add: word_le_nat_alt)
  note rep = repeat_run_ge_iff [OF this, of "rev (lt_cycles u)", unfolded is_error_with_def]
  from guard_observe_accepted [OF ok assms(2)] obtain c where "d = decide (lt_config t) rq c" .
  then have "de_retry_suppressed d \<longleftrightarrow> de_escalation d \<noteq> Esc_Continue"
    by (simp add: decide_def Let_def refuse_def narrow_def continue_progress_def)
  with rep show ?thesis
    unfolding accepted_thresholds [OF ok assms(2)] Let_def
    by (simp add: budget_left_def not_le not_less)
qed

theorem refusal_iff_witness:
  "de_escalation (the (case guard_observe (sample_request (Some Sev_Error) (Some ''e1''))
      sample_failed of (Inr d, _) \<Rightarrow> Some d | _ \<Rightarrow> None)) = Esc_Refuse"
proof -
  obtain d u where "guard_observe (sample_request (Some Sev_Error) (Some ''e1'')) sample_failed
      = (Inr d, u)" and "length (lt_cycles u) = 3"
    and "list_all (\<lambda>c. cy_highest_severity c = Some Sev_Error \<and> cy_failure_signature c = Some ''e1'')
      (take 2 (rev (lt_cycles u)))"
    and "lt_config sample_failed = lt_config sample_start"
  proof
    let ?r = "guard_observe (sample_request (Some Sev_Error) (Some ''e1'')) sample_failed"
    have "isl (fst ?r) = False" by code_simp
    then show "?r = (Inr (projr (fst ?r)), snd ?r)" by (metis prod.collapse sum.collapse(2))
    show "length (lt_cycles (snd ?r)) = 3" by code_simp
    show "list_all (\<lambda>c. cy_highest_severity c = Some Sev_Error
        \<and> cy_failure_signature c = Some ''e1'') (take 2 (rev (lt_cycles (snd ?r))))" by code_simp
    show "lt_config sample_failed = lt_config sample_start" by code_simp
  qed
  with refusal_iff [OF sample_failed_reachable this(1)] show ?thesis
    by (auto simp: sample_start_def Let_def)
qed

section \<open>The bound\<close>

lemma guard_run_accepts:
  assumes "guard_ok t" and "guard_run rqs t = (rs, v)"
  shows "guard_ok v \<and> length (lt_cycles v) = length (lt_cycles t) + length (filter (\<lambda>r. \<not> isl r) rs)
    \<and> length (filter (\<lambda>r. \<not> isl r) rs) = min (5 - length (lt_cycles t)) (length (filter
      (\<lambda>rq. check_signature (ob_failure_signature (rq_observation rq)) = Inr ()) rqs))"
  using assms
proof (induction rqs arbitrary: t rs)
  case Nil
  then show ?case by simp
next
  case (Cons rq rqs)
  obtain r u where step: "guard_observe rq t = (r, u)" by fastforce
  with Cons.prems(2) obtain rs' where rs: "rs = r # rs'" and run: "guard_run rqs u = (rs', v)"
    by (auto simp: split_beta Let_def)
  note IH = Cons.IH [OF guard_observe_ok(1) [OF Cons.prems(1) step] run]
  show ?case
  proof (cases "check_signature (ob_failure_signature (rq_observation rq)) = Inr ()
      \<and> length (lt_cycles t) < 5")
    case True
    with step Cons.prems have "\<not> isl r" and "length (lt_cycles u) = Suc (length (lt_cycles t))"
      by (auto simp: guard_observe_cases Let_def)
    moreover from True have "5 - length (lt_cycles t) = Suc (5 - Suc (length (lt_cycles t)))"
      by linarith
    ultimately show ?thesis using True IH by (simp add: rs)
  next
    case False
    with step Cons.prems have "isl r" and "lt_cycles u = lt_cycles t"
      by (auto simp: guard_observe_cases split: sum.splits if_splits)
    with False IH Cons.prems(1) show ?thesis by (auto simp: rs guard_ok_def)
  qed
qed

text \<open>C17. However long the sequence of observations fed to a new tracker, exactly the first five
  whose failure signature is within its bound are recorded: review loops end. A later one is
  answered with the history-bound error and leaves a refusal as the last decision.\<close>

theorem review_loop_bounded:
  assumes "tracker_new config limits = Inr t" and "guard_run rqs t = (rs, u)"
    and "guard_observe rq u = (r, v)"
    and "check_signature (ob_failure_signature (rq_observation rq)) = Inr ()"
  shows "let n = length (filter
        (\<lambda>rq. check_signature (ob_failure_signature (rq_observation rq)) = Inr ()) rqs) in
      length (filter (\<lambda>r. \<not> isl r) rs) = min 5 n \<and> length (lt_cycles u) = min 5 n
      \<and> (isl r \<longleftrightarrow> 5 \<le> n)
      \<and> (5 \<le> n \<longrightarrow> r = Inl (CycleHistoryBound 5) \<and> lt_cycles v = lt_cycles u
           \<and> map_option de_escalation (lt_last_decision v) = Some Esc_Refuse)"
proof -
  have "lt_cycles t = []"
    using assms(1) by (auto simp: tracker_new_def result_iffs)
  with guard_run_accepts [OF tracker_new_ok [OF assms(1)] assms(2)] assms(3,4)
  show ?thesis by (auto simp: Let_def guard_observe_cases refuse_def split: if_splits)
qed

theorem review_loop_bounded_witness:
  "case guard_run (replicate 6 (sample_request None None)) sample_start of
     (rs, u) \<Rightarrow> length (filter (\<lambda>r. \<not> isl r) rs) = 5
       \<and> fst (guard_observe (sample_request None None) u) = Inl (CycleHistoryBound 5)"
proof -
  let ?rq = "sample_request None None"
  have new: "tracker_new (lt_config sample_start) (lt_limits sample_start) = Inr sample_start"
    by code_simp
  have sig: "check_signature (ob_failure_signature (rq_observation ?rq)) = Inr ()"
    by (simp add: sample_request_def check_signature_def)
  obtain rs u where run: "guard_run (replicate 6 ?rq) sample_start = (rs, u)" by fastforce
  obtain r v where step: "guard_observe ?rq u = (r, v)" by fastforce
  from review_loop_bounded [OF new run step sig] show ?thesis
    by (simp add: run step sig Let_def)
qed

end
