(* ===== verification/Hierarchy_Ledger.thy ===== *)
theory Hierarchy_Ledger
  imports Ordered
begin

text \<open>
  The hierarchy ledger (\<^verbatim>\<open>src/src/hierarchy_ledger.rs\<close>): supervision edges, ownership of
  acceptance gates and role transitions, reconstructed from the payloads of orchestration events,
  and the depth of an observed hierarchy.

  A payload is JSON. Of an object the ledger reads three fields; \<open>payload_field\<close> is what
  \<^verbatim>\<open>get\<close> followed by \<^verbatim>\<open>serde_json::from_value\<close> makes of one: absent, present but
  not a record of the expected form, or the record.

  The lemmas show that a reconstructed ledger has one owner per gate and an unbroken chain of
  transfers, that categories change only by third-party grants with the evidence they need, and
  that the depth of a node is the number of its ancestors.
\<close>

unbundle bit_operations_syntax

section \<open>Data\<close>

datatype orchestration_role =
  Role_Root | Role_Supervisor | Role_Orchestrator | Role_Worker | Role_Researcher | Role_Auditor

datatype role_category =
    DelegatingCoordinator
  | NonDelegatingTerminalWorker
  | ReadOnlyResearcher
  | ReadOnlyReviewAuditor

datatype ledger_error =
    NotCanonicalIdentifier string
  | IdentifierTooLong string
  | IdentifierAlphabet string
  | ReasonNotCanonical
  | ReasonTooLong
  | ReasonAlphabet
  | UnrecognizedLegacyRole string
  | OwnParent
  | AssignWithPreviousOwner
  | TransferWithoutPreviousOwner
  | TransferKeepsOwner
  | GrantWithoutCertainEvidence
  | PromotionWithoutAcceptanceGrade
  | SelfJudged
  | CategoryUnchanged
  | PayloadNotObject
  | NotLedgerRecord string
  | EdgeNodeMismatch string string
  | EdgeParentMismatch string "string option"
  | EdgeCategoryConflict string role_category
  | StaleTransition string role_category role_category
  | TransferOmittedPreviousOwner
  | TransferUnexpectedOwner string string string
  | TransferWithoutAssignment string

fun role_category_str :: "role_category \<Rightarrow> string" where
  "role_category_str DelegatingCoordinator = ''delegating_coordinator''"
| "role_category_str NonDelegatingTerminalWorker = ''non_delegating_terminal_worker''"
| "role_category_str ReadOnlyResearcher = ''read_only_researcher''"
| "role_category_str ReadOnlyReviewAuditor = ''read_only_review_auditor''"

fun from_orchestration_role :: "orchestration_role \<Rightarrow> role_category" where
  "from_orchestration_role Role_Root = DelegatingCoordinator"
| "from_orchestration_role Role_Supervisor = DelegatingCoordinator"
| "from_orchestration_role Role_Orchestrator = DelegatingCoordinator"
| "from_orchestration_role Role_Worker = NonDelegatingTerminalWorker"
| "from_orchestration_role Role_Researcher = ReadOnlyResearcher"
| "from_orchestration_role Role_Auditor = ReadOnlyReviewAuditor"

definition from_legacy_role :: "string \<Rightarrow> ledger_error + role_category" where
  "from_legacy_role role =
     (if role \<in> {''supervisor'', ''child_orchestrator'', ''orchestrator'', ''root''}
      then Inr DelegatingCoordinator
      else if role = ''worker'' then Inr NonDelegatingTerminalWorker
      else if role = ''researcher'' then Inr ReadOnlyResearcher
      else if role \<in> {''auditor'', ''gate_classifier''} then Inr ReadOnlyReviewAuditor
      else Inl (UnrecognizedLegacyRole role))"

fun authority_bits :: "role_category \<Rightarrow> u8" where
  "authority_bits DelegatingCoordinator = 1 OR 2"
| "authority_bits NonDelegatingTerminalWorker = 2"
| "authority_bits ReadOnlyResearcher = 0"
| "authority_bits ReadOnlyReviewAuditor = 4"

record supervision_edge =
  se_child_agent_id :: string
  se_parent_agent_id :: string
  se_role_category :: role_category
  se_legacy_role :: string
  se_write_boundary :: "string list"
  se_scope_ref :: string

datatype gate_action = Assign | Transfer

record gate_ownership =
  go_action :: gate_action
  go_task_id :: string
  go_owner_agent_id :: string
  go_owner_role_category :: role_category
  go_owner_legacy_role :: string
  go_previous_owner_agent_id :: "string option"
  go_reason :: string

datatype transition_decision = Granted | Refused

record transition_evidence =
  te_acceptance_grade :: bool
  te_recorded :: bool
  te_uncertain :: bool

record role_transition =
  rt_agent_id :: string
  rt_from_category :: role_category
  rt_to_category :: role_category
  rt_requester_agent_id :: string
  rt_judge_agent_id :: string
  rt_evidence :: transition_evidence
  rt_decision :: transition_decision
  rt_reason :: string

record ledger_snapshot =
  hl_edges :: "(string, supervision_edge) btree_map"
  hl_effective_categories :: "(string, role_category) btree_map"
  hl_gate_owners :: "(string, gate_ownership) btree_map"
  hl_gate_history :: "gate_ownership list"
  hl_role_transitions :: "role_transition list"

definition empty_ledger :: ledger_snapshot where
  "empty_ledger = \<lparr>hl_edges = [], hl_effective_categories = [], hl_gate_owners = [],
     hl_gate_history = [], hl_role_transitions = []\<rparr>"

datatype 'r payload_field = Absent | Malformed | Decoded 'r

record ledger_fields =
  lf_supervision_edge :: "supervision_edge payload_field"
  lf_gate_ownership :: "gate_ownership payload_field"
  lf_role_transition :: "role_transition payload_field"

datatype payload = NotObject | Object ledger_fields

definition no_fields :: ledger_fields where
  "no_fields = \<lparr>lf_supervision_edge = Absent, lf_gate_ownership = Absent,
     lf_role_transition = Absent\<rparr>"

fun payload_fields :: "payload \<Rightarrow> ledger_fields" where
  "payload_fields NotObject = no_fields"
| "payload_fields (Object fs) = fs"

datatype event_kind =
    Kind_Spawn | Kind_Status | Kind_Journal | Kind_Accept | Kind_Reject | Kind_Escalate | Kind_Gate
  | Kind_Claim

record ledger_event =
  le_ts :: string
  le_repo :: string
  le_run :: string
  le_node :: string
  le_parent :: "string option"
  le_role :: orchestration_role
  le_kind :: event_kind
  le_payload :: payload

section \<open>Validation\<close>

definition identifier_char :: "char \<Rightarrow> bool" where
  "identifier_char c \<longleftrightarrow> is_ascii_alphanumeric c \<or> c \<in> set ''-_.:''"

definition require_identifier :: "string \<Rightarrow> string \<Rightarrow> ledger_error + unit" where
  "require_identifier field value =
     (if value = [] \<or> value \<noteq> trim value then Inl (NotCanonicalIdentifier field)
      else if 256 < length value then Inl (IdentifierTooLong field)
      else if \<not> list_all identifier_char value then Inl (IdentifierAlphabet field)
      else Inr ())"

definition reason_char :: "char \<Rightarrow> bool" where
  "reason_char c \<longleftrightarrow> is_ascii_alphanumeric c \<or> c \<in> set ''-_.''"

definition require_reason :: "string \<Rightarrow> ledger_error + unit" where
  "require_reason reason =
     (if reason = [] \<or> reason \<noteq> trim reason then Inl ReasonNotCanonical
      else if 256 < length reason then Inl ReasonTooLong
      else if \<not> list_all reason_char reason then Inl ReasonAlphabet
      else Inr ())"

definition edge_validate :: "supervision_edge \<Rightarrow> ledger_error + unit" where
  "edge_validate e =
     and_then (require_identifier ''child_agent_id'' (se_child_agent_id e)) (\<lambda>_.
     and_then (require_identifier ''parent_agent_id'' (se_parent_agent_id e)) (\<lambda>_.
     and_then (require_identifier ''legacy_role'' (se_legacy_role e)) (\<lambda>_.
     and_then (require_identifier ''scope_ref'' (se_scope_ref e)) (\<lambda>_.
     ensure (se_child_agent_id e \<noteq> se_parent_agent_id e) OwnParent))))"

definition edge_new ::
  "string \<Rightarrow> string \<Rightarrow> orchestration_role \<Rightarrow> string \<Rightarrow> string list \<Rightarrow> string \<Rightarrow>
    ledger_error + supervision_edge" where
  "edge_new child parent role legacy boundary scope =
     (let e = \<lparr>se_child_agent_id = child, se_parent_agent_id = parent,
        se_role_category = from_orchestration_role role, se_legacy_role = legacy,
        se_write_boundary = boundary, se_scope_ref = scope\<rparr>
      in and_then (edge_validate e) (\<lambda>_. Inr e))"

definition gate_validate :: "gate_ownership \<Rightarrow> ledger_error + unit" where
  "gate_validate g =
     and_then (require_identifier ''task_id'' (go_task_id g)) (\<lambda>_.
     and_then (require_identifier ''owner_agent_id'' (go_owner_agent_id g)) (\<lambda>_.
     and_then (require_identifier ''owner_legacy_role'' (go_owner_legacy_role g)) (\<lambda>_.
     and_then (require_reason (go_reason g)) (\<lambda>_.
     case go_action g of
       Assign \<Rightarrow> ensure (go_previous_owner_agent_id g = None) AssignWithPreviousOwner
     | Transfer \<Rightarrow>
         and_then (ok_or (go_previous_owner_agent_id g) TransferWithoutPreviousOwner) (\<lambda>previous.
         and_then (require_identifier ''previous_owner_agent_id'' previous) (\<lambda>_.
         ensure (previous \<noteq> go_owner_agent_id g) TransferKeepsOwner))))))"

definition gate_assign ::
  "string \<Rightarrow> string \<Rightarrow> orchestration_role \<Rightarrow> string \<Rightarrow> string \<Rightarrow> ledger_error + gate_ownership" where
  "gate_assign task owner role legacy reason =
     (let g = \<lparr>go_action = Assign, go_task_id = task, go_owner_agent_id = owner,
        go_owner_role_category = from_orchestration_role role, go_owner_legacy_role = legacy,
        go_previous_owner_agent_id = None, go_reason = reason\<rparr>
      in and_then (gate_validate g) (\<lambda>_. Inr g))"

definition gate_transfer ::
  "string \<Rightarrow> string \<Rightarrow> orchestration_role \<Rightarrow> string \<Rightarrow> string \<Rightarrow> string \<Rightarrow>
    ledger_error + gate_ownership" where
  "gate_transfer task owner role legacy previous reason =
     (let g = \<lparr>go_action = Transfer, go_task_id = task, go_owner_agent_id = owner,
        go_owner_role_category = from_orchestration_role role, go_owner_legacy_role = legacy,
        go_previous_owner_agent_id = Some previous, go_reason = reason\<rparr>
      in and_then (gate_validate g) (\<lambda>_. Inr g))"

definition transition_validate :: "role_transition \<Rightarrow> ledger_error + unit" where
  "transition_validate r =
     and_then (require_identifier ''agent_id'' (rt_agent_id r)) (\<lambda>_.
     and_then (require_identifier ''requester_agent_id'' (rt_requester_agent_id r)) (\<lambda>_.
     and_then (require_identifier ''judge_agent_id'' (rt_judge_agent_id r)) (\<lambda>_.
     and_then (require_reason (rt_reason r)) (\<lambda>_.
     and_then
       (if rt_decision r = Granted then
          (if \<not> te_recorded (rt_evidence r) \<or> te_uncertain (rt_evidence r)
           then Inl GrantWithoutCertainEvidence
           else let gained = authority_bits (rt_to_category r) AND NOT (authority_bits (rt_from_category r))
             in if gained \<noteq> 0 \<and> \<not> te_acceptance_grade (rt_evidence r)
                then Inl PromotionWithoutAcceptanceGrade else Inr ())
        else Inr ()) (\<lambda>_.
     and_then (ensure (\<not> (rt_agent_id r = rt_judge_agent_id r \<and> rt_decision r = Granted))
       SelfJudged) (\<lambda>_.
     ensure (rt_from_category r \<noteq> rt_to_category r) CategoryUnchanged))))))"

section \<open>Payloads\<close>

definition insert_supervision_edge ::
  "payload \<Rightarrow> supervision_edge \<Rightarrow> ledger_error + payload" where
  "insert_supervision_edge p e =
     and_then (edge_validate e) (\<lambda>_.
     case p of NotObject \<Rightarrow> Inl PayloadNotObject
     | Object fs \<Rightarrow> Inr (Object (fs\<lparr>lf_supervision_edge := Decoded e\<rparr>)))"

definition gate_ownership_payload :: "gate_ownership \<Rightarrow> ledger_error + payload" where
  "gate_ownership_payload g =
     and_then (gate_validate g) (\<lambda>_. Inr (Object (no_fields\<lparr>lf_gate_ownership := Decoded g\<rparr>)))"

definition role_transition_payload :: "role_transition \<Rightarrow> ledger_error + payload" where
  "role_transition_payload r =
     and_then (transition_validate r) (\<lambda>_.
     Inr (Object (no_fields\<lparr>lf_role_transition := Decoded r\<rparr>)))"

section \<open>Reconstruction\<close>

definition apply_edge ::
  "ledger_event \<Rightarrow> supervision_edge \<Rightarrow> ledger_snapshot \<Rightarrow> ledger_error + ledger_snapshot" where
  "apply_edge event edge s =
     and_then (edge_validate edge) (\<lambda>_.
     and_then (ensure (se_child_agent_id edge = le_node event)
       (EdgeNodeMismatch (se_child_agent_id edge) (le_node event))) (\<lambda>_.
     and_then (ensure (le_parent event = Some (se_parent_agent_id edge))
       (EdgeParentMismatch (se_parent_agent_id edge) (le_parent event))) (\<lambda>_.
     and_then
       (case bt_get (hl_effective_categories s) (se_child_agent_id edge) of
          Some current \<Rightarrow>
            if current \<noteq> se_role_category edge
            then Inl (EdgeCategoryConflict (se_child_agent_id edge) current) else Inr s
        | None \<Rightarrow> Inr (s\<lparr>hl_effective_categories :=
            bt_insert (se_child_agent_id edge) (se_role_category edge) (hl_effective_categories s)\<rparr>))
       (\<lambda>s. Inr (s\<lparr>hl_edges := bt_insert (se_child_agent_id edge) edge (hl_edges s)\<rparr>)))))"

definition apply_gate_ownership ::
  "ledger_snapshot \<Rightarrow> gate_ownership \<Rightarrow> ledger_error + ledger_snapshot" where
  "apply_gate_ownership s g =
     (let assigned = s\<lparr>hl_gate_owners := bt_insert (go_task_id g) g (hl_gate_owners s)\<rparr> in
      and_then
        (case go_action g of
           Assign \<Rightarrow> Inr assigned
         | Transfer \<Rightarrow>
             and_then (ok_or (go_previous_owner_agent_id g) TransferOmittedPreviousOwner) (\<lambda>previous.
             case bt_get (hl_gate_owners s) (go_task_id g) of
               Some current \<Rightarrow>
                 if go_owner_agent_id current = previous then Inr assigned
                 else Inl (TransferUnexpectedOwner (go_task_id g) previous (go_owner_agent_id current))
             | None \<Rightarrow> Inl (TransferWithoutAssignment (go_task_id g))))
        (\<lambda>s. Inr (s\<lparr>hl_gate_history := hl_gate_history s @ [g]\<rparr>)))"

definition apply_role_transition ::
  "ledger_snapshot \<Rightarrow> string list \<Rightarrow> role_transition \<Rightarrow>
    ledger_error + ledger_snapshot \<times> string list" where
  "apply_role_transition s granted r =
     (let agent = rt_agent_id r; granted' = btree_set (agent # granted) in
      and_then
        (case (bt_get (hl_effective_categories s) agent, rt_decision r) of
           (None, Granted) \<Rightarrow> Inr (rt_to_category r, granted')
         | (None, Refused) \<Rightarrow> Inr (rt_from_category r, granted)
         | (Some current, Granted) \<Rightarrow>
             if current = rt_from_category r then Inr (rt_to_category r, granted')
             else if current = rt_to_category r \<and> agent \<notin> set granted then Inr (current, granted')
             else Inl (StaleTransition agent current (rt_from_category r))
         | (Some current, Refused) \<Rightarrow> Inr (current, granted))
        (\<lambda>(category, changes). Inr
          (s\<lparr>hl_effective_categories := bt_insert agent category (hl_effective_categories s),
             hl_role_transitions := hl_role_transitions s @ [r]\<rparr>, changes)))"

definition ledger_step ::
  "ledger_snapshot \<times> string list \<Rightarrow> ledger_event \<Rightarrow>
    ledger_error + ledger_snapshot \<times> string list" where
  "ledger_step st event =
     (case st of (s, granted) \<Rightarrow>
     (let fs = payload_fields (le_payload event) in
      and_then
        (case lf_supervision_edge fs of Absent \<Rightarrow> Inr s
         | Malformed \<Rightarrow> Inl (NotLedgerRecord ''supervision_edge'')
         | Decoded edge \<Rightarrow> apply_edge event edge s) (\<lambda>s.
      and_then
        (case lf_gate_ownership fs of Absent \<Rightarrow> Inr s
         | Malformed \<Rightarrow> Inl (NotLedgerRecord ''gate_ownership'')
         | Decoded g \<Rightarrow> and_then (gate_validate g) (\<lambda>_. apply_gate_ownership s g)) (\<lambda>s.
      case lf_role_transition fs of Absent \<Rightarrow> Inr (s, granted)
      | Malformed \<Rightarrow> Inl (NotLedgerRecord ''role_transition'')
      | Decoded r \<Rightarrow> and_then (transition_validate r) (\<lambda>_. apply_role_transition s granted r)))))"

definition reconstruct_hierarchy_ledger :: "ledger_event list \<Rightarrow> ledger_error + ledger_snapshot" where
  "reconstruct_hierarchy_ledger events =
     and_then (replay ledger_step (empty_ledger, []) events) (\<lambda>(s, _). Inr s)"

section \<open>Observed depth\<close>

record observed_node =
  on_id :: string
  on_parent :: "string option"
  on_coordinator :: bool

record observed_hierarchy =
  oh_depths :: "(string, u32) btree_map"
  oh_coordination_depth :: u32

type_synonym parent_map = "(string, string option) btree_map"

definition is_coordinator_role_label :: "string \<Rightarrow> bool" where
  "is_coordinator_role_label role \<longleftrightarrow>
     role \<in> {''supervisor'', ''child_orchestrator'', ''orchestrator'', ''root''}"

fun orchestration_role_is_coordinator :: "orchestration_role \<Rightarrow> bool" where
  "orchestration_role_is_coordinator Role_Root = True"
| "orchestration_role_is_coordinator Role_Supervisor = True"
| "orchestration_role_is_coordinator Role_Orchestrator = True"
| "orchestration_role_is_coordinator Role_Worker = False"
| "orchestration_role_is_coordinator Role_Researcher = False"
| "orchestration_role_is_coordinator Role_Auditor = False"

text \<open>
  \<^verbatim>\<open>depth_of\<close> returns the depth and the memo table; the set of nodes being visited is the
  same before and after a call.
\<close>

function depth_of ::
  "string \<Rightarrow> parent_map \<Rightarrow> (string, u32) btree_map \<Rightarrow> string list \<Rightarrow> u32 \<times> (string, u32) btree_map"
where
  "depth_of i parents depths visiting =
     (case bt_get depths i of
        Some depth \<Rightarrow> (depth, depths)
      | None \<Rightarrow>
          if i \<in> set visiting then (0, bt_insert i 0 depths)
          else
            (let (depth, depths') =
               (case bt_get parents i of
                  None \<Rightarrow> (0, depths)
                | Some None \<Rightarrow> (0, depths)
                | Some (Some parent) \<Rightarrow>
                    if bt_get parents parent = None then (1, depths)
                    else
                      (let (d, depths'') = depth_of parent parents depths (i # visiting)
                       in (saturating_add d 1, depths'')))
             in (depth, bt_insert i depth depths')))"
  by pat_completeness auto
termination
proof (relation "measure (\<lambda>(i, parents, depths, visiting). card (fst ` set parents - set visiting))")
  fix i :: string and parents :: parent_map and visiting :: "string list" and x parent
  assume "i \<notin> set visiting" and "bt_get parents i = Some x"
  then have "i \<in> fst ` set parents - set visiting"
    by (metis DiffI bt_get_None_iff option.distinct(1))
  moreover have "fst ` set parents - set (i # visiting) = (fst ` set parents - set visiting) - {i}"
    by auto
  ultimately have "card (fst ` set parents - set (i # visiting)) < card (fst ` set parents - set visiting)"
    by (metis List.finite_set card_Diff1_less finite_Diff finite_imageI)
  then show "((parent, parents, depths, i # visiting), i, parents, depths, visiting)
    \<in> measure (\<lambda>(i, parents, depths, visiting). card (fst ` set parents - set visiting))"
    for depths :: "(string, u32) btree_map"
    by simp
qed simp

declare depth_of.simps [simp del]

definition max_depth_of :: "u32 list \<Rightarrow> u32 option" where
  "max_depth_of ds = (if ds = [] then None else Some (fold max (tl ds) (hd ds)))"

definition observe_hierarchy :: "observed_node list \<Rightarrow> observed_hierarchy" where
  "observe_hierarchy nodes =
     (let parents = fold (\<lambda>n. bt_insert (on_id n) (on_parent n)) nodes [];
          depths = fold (\<lambda>i depths. snd (depth_of i parents depths [])) (map fst parents) [];
          coordinator_ids = btree_set (map on_id (filter on_coordinator nodes));
          most = max_depth_of (map snd (filter (\<lambda>(i, _). coordinator_ids = []
            \<or> i \<in> set coordinator_ids) depths))
      in \<lparr>oh_depths = depths,
          oh_coordination_depth = (case most of None \<Rightarrow> 0 | Some depth \<Rightarrow> saturating_add depth 1)\<rparr>)"

section \<open>Specification\<close>

definition current_gate :: "string \<Rightarrow> gate_ownership list \<Rightarrow> gate_ownership option" where
  "current_gate task newest = List.find (\<lambda>g. go_task_id g = task) newest"

fun gates_linked :: "gate_ownership list \<Rightarrow> bool" where
  "gates_linked [] \<longleftrightarrow> True"
| "gates_linked (g # older) \<longleftrightarrow> gates_linked older \<and>
     (go_action g = Transfer \<longrightarrow>
       map_option go_owner_agent_id (current_gate (go_task_id g) older) = go_previous_owner_agent_id g
       \<and> go_previous_owner_agent_id g \<noteq> None
       \<and> go_previous_owner_agent_id g \<noteq> Some (go_owner_agent_id g))"

definition gates_ok :: "ledger_snapshot \<Rightarrow> bool" where
  "gates_ok s \<longleftrightarrow> gates_linked (rev (hl_gate_history s))
     \<and> (\<forall>task. bt_get (hl_gate_owners s) task = current_gate task (rev (hl_gate_history s)))"

text \<open>A granted transition that gives its agent the authority of bit \<open>b\<close>.\<close>

definition grants_bit :: "string \<Rightarrow> nat \<Rightarrow> role_transition \<Rightarrow> bool" where
  "grants_bit agent b r \<longleftrightarrow> rt_agent_id r = agent \<and> rt_decision r = Granted
     \<and> bit (authority_bits (rt_to_category r)) b \<and> \<not> bit (authority_bits (rt_from_category r)) b
     \<and> te_recorded (rt_evidence r) \<and> \<not> te_uncertain (rt_evidence r)
     \<and> te_acceptance_grade (rt_evidence r) \<and> rt_judge_agent_id r \<noteq> agent"

text \<open>The number of ancestors of a node, where an unlisted parent counts as one.\<close>

inductive ancestors :: "parent_map \<Rightarrow> string \<Rightarrow> nat \<Rightarrow> bool" for parents where
  no_parent: "bt_get parents i = Some None \<Longrightarrow> ancestors parents i 0"
| unlisted: "bt_get parents i = Some (Some p) \<Longrightarrow> bt_get parents p = None \<Longrightarrow> ancestors parents i 1"
| listed: "bt_get parents i = Some (Some p) \<Longrightarrow> ancestors parents p n \<Longrightarrow> ancestors parents i (Suc n)"

inductive_cases ancestorsE: "ancestors parents i n"

definition node_parents :: "observed_node list \<Rightarrow> parent_map" where
  "node_parents nodes = fold (\<lambda>n. bt_insert (on_id n) (on_parent n)) nodes []"

section \<open>Gates\<close>

lemma apply_edge_frame:
  "apply_edge event edge s = Inr t \<Longrightarrow>
     hl_gate_owners t = hl_gate_owners s \<and> hl_gate_history t = hl_gate_history s
     \<and> hl_role_transitions t = hl_role_transitions s
     \<and> (\<forall>a c. bt_get (hl_effective_categories s) a = Some c \<longrightarrow>
          bt_get (hl_effective_categories t) a = Some c)"
  by (auto simp: apply_edge_def result_iffs bt_get_insert split: option.splits if_splits)

lemma apply_gate_frame:
  "apply_gate_ownership s g = Inr t \<Longrightarrow>
     hl_effective_categories t = hl_effective_categories s
     \<and> hl_role_transitions t = hl_role_transitions s"
  by (auto simp: apply_gate_ownership_def result_iffs Let_def
      split: gate_action.splits option.splits if_splits)

lemma apply_transition_frame:
  "apply_role_transition s granted r = Inr (t, granted') \<Longrightarrow>
     hl_gate_owners t = hl_gate_owners s \<and> hl_gate_history t = hl_gate_history s"
  by (auto simp: apply_role_transition_def result_iffs Let_def)

lemma gate_validate_transfer:
  "gate_validate g = Inr () \<Longrightarrow> go_action g = Transfer \<Longrightarrow>
     go_previous_owner_agent_id g \<noteq> None \<and> go_previous_owner_agent_id g \<noteq> Some (go_owner_agent_id g)"
  by (auto simp: gate_validate_def result_iffs)

lemma apply_gate_ok:
  assumes "gates_ok s" and "gate_validate g = Inr ()" and "apply_gate_ownership s g = Inr t"
  shows "gates_ok t"
proof -
  have t: "t = s\<lparr>hl_gate_owners := bt_insert (go_task_id g) g (hl_gate_owners s),
      hl_gate_history := hl_gate_history s @ [g]\<rparr>"
    using assms(3) by (auto simp: apply_gate_ownership_def result_iffs Let_def
        split: gate_action.splits option.splits if_splits)
  have "map_option go_owner_agent_id (bt_get (hl_gate_owners s) (go_task_id g))
      = go_previous_owner_agent_id g" if "go_action g = Transfer"
    using assms(3) that by (auto simp: apply_gate_ownership_def result_iffs Let_def
        split: option.splits if_splits)
  with assms(1) gate_validate_transfer [OF assms(2)] show ?thesis
    by (auto simp: t gates_ok_def bt_get_insert current_gate_def)
qed

lemma ledger_stepE:
  assumes "ledger_step (s, granted) event = Inr (v, granted')"
  obtains t u where
    "t = s \<or> (\<exists>edge. apply_edge event edge s = Inr t)"
    and "u = t \<or> (\<exists>g. gate_validate g = Inr () \<and> apply_gate_ownership t g = Inr u)"
    and "v = u \<and> granted' = granted
      \<or> (\<exists>r. lf_role_transition (payload_fields (le_payload event)) = Decoded r
          \<and> transition_validate r = Inr () \<and> apply_role_transition u granted r = Inr (v, granted'))"
proof -
  from assms obtain t u where
    t: "(case lf_supervision_edge (payload_fields (le_payload event)) of Absent \<Rightarrow> Inr s
         | Malformed \<Rightarrow> Inl (NotLedgerRecord ''supervision_edge'')
         | Decoded edge \<Rightarrow> apply_edge event edge s) = Inr t"
    and u: "(case lf_gate_ownership (payload_fields (le_payload event)) of Absent \<Rightarrow> Inr t
         | Malformed \<Rightarrow> Inl (NotLedgerRecord ''gate_ownership'')
         | Decoded g \<Rightarrow> and_then (gate_validate g) (\<lambda>_. apply_gate_ownership t g)) = Inr u"
    and v: "(case lf_role_transition (payload_fields (le_payload event)) of Absent \<Rightarrow> Inr (u, granted)
      | Malformed \<Rightarrow> Inl (NotLedgerRecord ''role_transition'')
      | Decoded r \<Rightarrow> and_then (transition_validate r) (\<lambda>_. apply_role_transition u granted r))
        = Inr (v, granted')"
    by (auto simp: ledger_step_def Let_def result_iffs)
  show thesis
  proof (rule that)
    show "t = s \<or> (\<exists>edge. apply_edge event edge s = Inr t)"
      using t by (auto split: payload_field.splits)
    show "u = t \<or> (\<exists>g. gate_validate g = Inr () \<and> apply_gate_ownership t g = Inr u)"
      using u by (auto simp: result_iffs split: payload_field.splits)
    show "v = u \<and> granted' = granted
      \<or> (\<exists>r. lf_role_transition (payload_fields (le_payload event)) = Decoded r
          \<and> transition_validate r = Inr () \<and> apply_role_transition u granted r = Inr (v, granted'))"
      using v by (auto simp: result_iffs split: payload_field.splits)
  qed
qed

lemma gates_ok_cong:
  "hl_gate_owners t = hl_gate_owners s \<Longrightarrow> hl_gate_history t = hl_gate_history s \<Longrightarrow>
     gates_ok t = gates_ok s"
  by (simp add: gates_ok_def)

lemma ledger_step_gates:
  assumes "gates_ok s" and "ledger_step (s, granted) event = Inr (v, granted')"
  shows "gates_ok v"
proof -
  from ledger_stepE [OF assms(2)] obtain t u where
    1: "t = s \<or> (\<exists>edge. apply_edge event edge s = Inr t)"
    and 2: "u = t \<or> (\<exists>g. gate_validate g = Inr () \<and> apply_gate_ownership t g = Inr u)"
    and 3: "v = u \<and> granted' = granted
      \<or> (\<exists>r. lf_role_transition (payload_fields (le_payload event)) = Decoded r
          \<and> transition_validate r = Inr () \<and> apply_role_transition u granted r = Inr (v, granted'))" .
  from 1 assms(1) have "gates_ok t" by (metis apply_edge_frame gates_ok_cong)
  with 2 have "gates_ok u" by (metis apply_gate_ok)
  with 3 show ?thesis by (metis apply_transition_frame gates_ok_cong)
qed

interpretation ledger: reducer ledger_step "\<lambda>(s, _). gates_ok s"
  by unfold_locales (auto split: prod.splits intro: ledger_step_gates)

lemma gates_linked_nth:
  assumes "gates_linked (rev gs)" and "k < length gs" and "go_action (gs ! k) = Transfer"
  shows "map_option go_owner_agent_id (current_gate (go_task_id (gs ! k)) (rev (take k gs)))
      = go_previous_owner_agent_id (gs ! k)
    \<and> go_previous_owner_agent_id (gs ! k) \<noteq> None
    \<and> go_previous_owner_agent_id (gs ! k) \<noteq> Some (go_owner_agent_id (gs ! k))"
  using assms
proof (induction gs rule: rev_induct)
  case Nil
  then show ?case by simp
next
  case (snoc g gs)
  then show ?case by (cases "k = length gs") (simp_all add: nth_append)
qed

text \<open>C18. In a reconstructed ledger the owner of a gate is the one named by the last record about
  its task, and every transfer in the history names as previous owner the owner at that point,
  and a different new owner: ownership passes along an unbroken chain.\<close>

theorem gate_ownership_chain:
  assumes "reconstruct_hierarchy_ledger events = Inr s"
  shows "(\<forall>task. bt_get (hl_gate_owners s) task =
      List.find (\<lambda>g. go_task_id g = task) (rev (hl_gate_history s)))
    \<and> (\<forall>k < length (hl_gate_history s). let g = hl_gate_history s ! k in
         go_action g = Transfer \<longrightarrow>
         (\<exists>h. List.find (\<lambda>h. go_task_id h = go_task_id g) (rev (take k (hl_gate_history s))) = Some h
            \<and> go_previous_owner_agent_id g = Some (go_owner_agent_id h)
            \<and> go_owner_agent_id g \<noteq> go_owner_agent_id h))"
proof -
  obtain granted where "replay ledger_step (empty_ledger, []) events = Inr (s, granted)"
    using assms by (auto simp: reconstruct_hierarchy_ledger_def result_iffs)
  from ledger.replay_inv [OF _ this] have ok: "gates_ok s"
    by (simp add: gates_ok_def empty_ledger_def bt_get_def current_gate_def)
  then have linked: "gates_linked (rev (hl_gate_history s))" by (simp add: gates_ok_def)
  from ok gates_linked_nth [OF linked] show ?thesis
    unfolding gates_ok_def current_gate_def Let_def by fastforce
qed

text \<open>A journal in which a gate is assigned and then transferred, and a worker promoted.\<close>

definition sample_event :: "string \<Rightarrow> string option \<Rightarrow> ledger_fields \<Rightarrow> ledger_event" where
  "sample_event node parent fs =
     \<lparr>le_ts = ''t'', le_repo = ''repo'', le_run = ''run'', le_node = node, le_parent = parent,
      le_role = Role_Worker, le_kind = Kind_Journal, le_payload = Object fs\<rparr>"

definition sample_gate :: "gate_action \<Rightarrow> string \<Rightarrow> string option \<Rightarrow> gate_ownership" where
  "sample_gate action owner previous =
     \<lparr>go_action = action, go_task_id = ''task'', go_owner_agent_id = owner,
      go_owner_role_category = DelegatingCoordinator, go_owner_legacy_role = ''supervisor'',
      go_previous_owner_agent_id = previous, go_reason = ''handover''\<rparr>"

definition sample_edge :: supervision_edge where
  "sample_edge = \<lparr>se_child_agent_id = ''w1'', se_parent_agent_id = ''root'',
     se_role_category = NonDelegatingTerminalWorker, se_legacy_role = ''worker'',
     se_write_boundary = [], se_scope_ref = ''scope''\<rparr>"

definition sample_promotion :: role_transition where
  "sample_promotion = \<lparr>rt_agent_id = ''w1'', rt_from_category = NonDelegatingTerminalWorker,
     rt_to_category = DelegatingCoordinator, rt_requester_agent_id = ''w1'',
     rt_judge_agent_id = ''auditor'',
     rt_evidence = \<lparr>te_acceptance_grade = True, te_recorded = True, te_uncertain = False\<rparr>,
     rt_decision = Granted, rt_reason = ''promoted''\<rparr>"

definition sample_journal :: "ledger_event list" where
  "sample_journal =
     [sample_event ''w1'' (Some ''root'') (no_fields\<lparr>lf_supervision_edge := Decoded sample_edge,
        lf_gate_ownership := Decoded (sample_gate Assign ''root'' None)\<rparr>),
      sample_event ''root'' None
        (no_fields\<lparr>lf_gate_ownership := Decoded (sample_gate Transfer ''w1'' (Some ''root''))\<rparr>)]"

definition sample_promotion_event :: ledger_event where
  "sample_promotion_event =
     sample_event ''w1'' None (no_fields\<lparr>lf_role_transition := Decoded sample_promotion\<rparr>)"

definition sample_ledger :: "ledger_snapshot \<times> string list" where
  "sample_ledger = projr (replay ledger_step (empty_ledger, []) sample_journal)"

definition promoted_ledger :: "ledger_snapshot \<times> string list" where
  "promoted_ledger = projr (replay ledger_step sample_ledger [sample_promotion_event])"

lemma sample_ledger_replay: "replay ledger_step (empty_ledger, []) sample_journal = Inr sample_ledger"
  by code_simp

lemma promoted_ledger_replay:
  "replay ledger_step sample_ledger [sample_promotion_event] = Inr promoted_ledger"
  by code_simp

theorem gate_ownership_chain_witness:
  "bt_get (hl_gate_owners (fst sample_ledger)) ''task'' = Some (sample_gate Transfer ''w1'' (Some ''root''))"
proof -
  have "reconstruct_hierarchy_ledger sample_journal = Inr (fst sample_ledger)"
    by (simp add: reconstruct_hierarchy_ledger_def sample_ledger_replay split_beta)
  from gate_ownership_chain [OF this] have "bt_get (hl_gate_owners (fst sample_ledger)) ''task'' =
      List.find (\<lambda>g. go_task_id g = ''task'') (rev (hl_gate_history (fst sample_ledger)))"
    by blast
  also have "\<dots> = Some (sample_gate Transfer ''w1'' (Some ''root''))" by code_simp
  finally show ?thesis .
qed

section \<open>Categories\<close>

lemma transition_validate_granted:
  assumes "transition_validate r = Inr ()" and "rt_decision r = Granted"
  shows "te_recorded (rt_evidence r)" and "\<not> te_uncertain (rt_evidence r)"
    and "rt_judge_agent_id r \<noteq> rt_agent_id r"
    and "bit (authority_bits (rt_to_category r)) b \<Longrightarrow> \<not> bit (authority_bits (rt_from_category r)) b
      \<Longrightarrow> te_acceptance_grade (rt_evidence r)"
proof -
  have "te_recorded (rt_evidence r) \<and> \<not> te_uncertain (rt_evidence r)
    \<and> rt_judge_agent_id r \<noteq> rt_agent_id r
    \<and> (authority_bits (rt_to_category r) AND NOT (authority_bits (rt_from_category r)) = 0
      \<or> te_acceptance_grade (rt_evidence r))"
    using assms by (auto simp: transition_validate_def result_iffs Let_def split: if_splits)
  moreover have "authority_bits (rt_to_category r) AND NOT (authority_bits (rt_from_category r)) \<noteq> 0"
    if "bit (authority_bits (rt_to_category r)) b" "\<not> bit (authority_bits (rt_from_category r)) b"
  proof
    assume "authority_bits (rt_to_category r) AND NOT (authority_bits (rt_from_category r)) = 0"
    then have "\<not> bit (authority_bits (rt_to_category r) AND NOT (authority_bits (rt_from_category r))) b"
      by simp
    with that bit_imp_le_length [OF that(1)] show False by (simp add: bit_and_iff bit_not_iff)
  qed
  ultimately show "te_recorded (rt_evidence r)" and "\<not> te_uncertain (rt_evidence r)"
    and "rt_judge_agent_id r \<noteq> rt_agent_id r"
    and "bit (authority_bits (rt_to_category r)) b \<Longrightarrow> \<not> bit (authority_bits (rt_from_category r)) b
      \<Longrightarrow> te_acceptance_grade (rt_evidence r)"
    by blast+
qed

lemma apply_transition_category:
  assumes "apply_role_transition s granted r = Inr (t, granted')"
    and "bt_get (hl_effective_categories s) a = Some c"
  obtains c' where "bt_get (hl_effective_categories t) a = Some c'"
    and "hl_role_transitions t = hl_role_transitions s @ [r]"
    and "c' = c \<or> rt_agent_id r = a \<and> rt_decision r = Granted \<and> c = rt_from_category r
      \<and> c' = rt_to_category r"
  using assms
  by (cases "rt_agent_id r = a"; cases "rt_decision r")
    (auto simp: apply_role_transition_def result_iffs Let_def bt_get_insert split: if_splits option.splits)

lemma ledger_step_category:
  assumes "ledger_step (s, granted) event = Inr (v, granted')"
    and "bt_get (hl_effective_categories s) a = Some c"
  obtains c' new where "bt_get (hl_effective_categories v) a = Some c'"
    and "hl_role_transitions v = hl_role_transitions s @ new"
    and "\<And>b. bit (authority_bits c') b \<Longrightarrow> \<not> bit (authority_bits c) b \<Longrightarrow>
      \<exists>r \<in> set new. grants_bit a b r"
proof -
  from ledger_stepE [OF assms(1)] obtain t u where
    1: "t = s \<or> (\<exists>edge. apply_edge event edge s = Inr t)"
    and 2: "u = t \<or> (\<exists>g. gate_validate g = Inr () \<and> apply_gate_ownership t g = Inr u)"
    and 3: "v = u \<and> granted' = granted
      \<or> (\<exists>r. lf_role_transition (payload_fields (le_payload event)) = Decoded r
          \<and> transition_validate r = Inr () \<and> apply_role_transition u granted r = Inr (v, granted'))" .
  from 1 assms(2) have "bt_get (hl_effective_categories t) a = Some c
      \<and> hl_role_transitions t = hl_role_transitions s"
    by (metis apply_edge_frame)
  with 2 have u: "bt_get (hl_effective_categories u) a = Some c"
      "hl_role_transitions u = hl_role_transitions s"
    by (metis apply_gate_frame)+
  from 3 show thesis
  proof
    assume "v = u \<and> granted' = granted"
    with u show thesis by (intro that [of c "[]"]) auto
  next
    assume "\<exists>r. lf_role_transition (payload_fields (le_payload event)) = Decoded r
      \<and> transition_validate r = Inr () \<and> apply_role_transition u granted r = Inr (v, granted')"
    then obtain r where valid: "transition_validate r = Inr ()"
      and step: "apply_role_transition u granted r = Inr (v, granted')" by blast
    from apply_transition_category [OF step u(1)] obtain c'
      where c': "bt_get (hl_effective_categories v) a = Some c'"
        and tr: "hl_role_transitions v = hl_role_transitions u @ [r]"
        and change: "c' = c \<or> rt_agent_id r = a \<and> rt_decision r = Granted
          \<and> c = rt_from_category r \<and> c' = rt_to_category r" .
    have "\<exists>r \<in> set [r]. grants_bit a b r"
      if "bit (authority_bits c') b" and "\<not> bit (authority_bits c) b" for b
      using change that transition_validate_granted [OF valid] by (auto simp: grants_bit_def)
    with c' tr u(2) show thesis by (intro that [of c' "[r]"]) simp_all
  qed
qed

lemma journal_category:
  assumes "replay ledger_step st events = Inr st'"
    and "bt_get (hl_effective_categories (fst st)) a = Some c"
  shows "\<exists>c' new. bt_get (hl_effective_categories (fst st')) a = Some c'
    \<and> hl_role_transitions (fst st') = hl_role_transitions (fst st) @ new
    \<and> (\<forall>b. bit (authority_bits c') b \<longrightarrow> \<not> bit (authority_bits c) b \<longrightarrow>
        (\<exists>r \<in> set new. grants_bit a b r))"
  using assms
proof (induction events arbitrary: st c)
  case Nil
  then show ?case by auto
next
  case (Cons event events)
  obtain s granted where st: "st = (s, granted)" by fastforce
  from Cons.prems(1) obtain t changes where step: "ledger_step (s, granted) event = Inr (t, changes)"
    and rest: "replay ledger_step (t, changes) events = Inr st'"
    by (auto simp: st result_iffs)
  from ledger_step_category [OF step] Cons.prems(2) st obtain d new1 where
    d: "bt_get (hl_effective_categories t) a = Some d"
      "hl_role_transitions t = hl_role_transitions s @ new1"
      "\<And>b. bit (authority_bits d) b \<Longrightarrow> \<not> bit (authority_bits c) b \<Longrightarrow> \<exists>r \<in> set new1. grants_bit a b r"
    by (metis fst_conv)
  from Cons.IH [OF rest, of d] d(1) obtain c' new2 where
    "bt_get (hl_effective_categories (fst st')) a = Some c'"
    "hl_role_transitions (fst st') = hl_role_transitions t @ new2"
    "\<forall>b. bit (authority_bits c') b \<longrightarrow> \<not> bit (authority_bits d) b \<longrightarrow> (\<exists>r \<in> set new2. grants_bit a b r)"
    by auto
  with d(2,3) st show ?case
    by (intro exI [of _ c'] exI [of _ "new1 @ new2"]) fastforce
qed



section \<open>Depths\<close>

lemma bt_keys_get: "fst ` set m = {k. bt_get m k \<noteq> None}"
  by (simp add: bt_get_None_iff del: not_None_eq)

lemma node_parents_keys: "fst ` set (node_parents nodes) = on_id ` set nodes"
proof -
  have "fst ` set (fold (\<lambda>n. bt_insert (on_id n) (on_parent n)) nodes m) = fst ` set m \<union> on_id ` set nodes"
    for m :: parent_map
    by (induction nodes arbitrary: m) (auto simp: fst_set_bt_insert)
  then show ?thesis by (simp add: node_parents_def)
qed

lemma ancestors_listed: "ancestors parents i n \<Longrightarrow> bt_get parents i \<noteq> None"
  by (auto elim: ancestorsE)

lemma ancestors_iff:
  "ancestors parents i n \<longleftrightarrow>
     (case bt_get parents i of None \<Rightarrow> False
      | Some None \<Rightarrow> n = 0
      | Some (Some p) \<Rightarrow> if bt_get parents p = None then n = 1
          else \<exists>k. n = Suc k \<and> ancestors parents p k)"
  by (subst ancestors.simps) (auto split: option.split dest: ancestors_listed)

lemma ancestors_unique: "ancestors parents i n \<Longrightarrow> ancestors parents i m \<Longrightarrow> m = n"
proof (induction arbitrary: m rule: ancestors.induct)
  case (no_parent i)
  then show ?case by (simp add: ancestors_iff [of _ i])
next
  case (unlisted i p)
  then show ?case by (simp add: ancestors_iff [of _ i])
next
  case (listed i p n)
  from listed.hyps(2) have "bt_get parents p \<noteq> None" by (rule ancestors_listed)
  with listed.prems listed.hyps(1) obtain k where "m = Suc k" and "ancestors parents p k"
    by (auto simp: ancestors_iff [of _ i])
  with listed.IH show ?case by blast
qed

lemma depth_of_cases:
  assumes "depth_of i parents depths visiting = (d, depths')"
  obtains (memo) "bt_get depths i = Some d" and "depths' = depths"
  | (cycle) "bt_get depths i = None" and "i \<in> set visiting" and "d = 0" and "depths' = bt_insert i 0 depths"
  | (root) "bt_get depths i = None" and "i \<notin> set visiting"
      and "bt_get parents i = None \<or> bt_get parents i = Some None"
      and "d = 0" and "depths' = bt_insert i 0 depths"
  | (orphan) p where "bt_get depths i = None" and "i \<notin> set visiting"
      and "bt_get parents i = Some (Some p)" and "bt_get parents p = None"
      and "d = 1" and "depths' = bt_insert i 1 depths"
  | (child) p e depths'' where "bt_get depths i = None" and "i \<notin> set visiting"
      and "bt_get parents i = Some (Some p)" and "bt_get parents p \<noteq> None"
      and "depth_of p parents depths (i # visiting) = (e, depths'')"
      and "d = saturating_add e 1" and "depths' = bt_insert i d depths''"
proof -
  note eq = assms [unfolded depth_of.simps [of i parents depths visiting]]
  consider (1) e where "bt_get depths i = Some e"
    | (2) "bt_get depths i = None" "i \<in> set visiting"
    | (3) "bt_get depths i = None" "i \<notin> set visiting"
        "bt_get parents i = None \<or> bt_get parents i = Some None"
    | (4) p where "bt_get depths i = None" "i \<notin> set visiting" "bt_get parents i = Some (Some p)"
        "bt_get parents p = None"
    | (5) p where "bt_get depths i = None" "i \<notin> set visiting" "bt_get parents i = Some (Some p)"
        "bt_get parents p \<noteq> None"
    by (metis option.exhaust)
  then show thesis
  proof cases
    case 1
    with eq show thesis by (intro memo) simp_all
  next
    case 2
    with eq show thesis by (intro cycle) simp_all
  next
    case 3
    with eq show thesis by (intro root) auto
  next
    case (4 p)
    with eq show thesis by (intro orphan [of p]) simp_all
  next
    case (5 p)
    obtain e depths'' where call: "depth_of p parents depths (i # visiting) = (e, depths'')"
      by fastforce
    with 5 eq have "d = saturating_add e 1" and "depths' = bt_insert i d depths''"
      by (auto simp del: not_None_eq)
    then show thesis by (rule child [OF 5 call])
  qed
qed

text \<open>The memo table holds exact depths of the nodes that have a number of ancestors.\<close>

definition depths_exact :: "parent_map \<Rightarrow> (string, u32) btree_map \<Rightarrow> bool" where
  "depths_exact parents depths \<longleftrightarrow>
     (\<forall>i n d. ancestors parents i n \<longrightarrow> bt_get depths i = Some d \<longrightarrow> unat d = min n (2 ^ 32 - 1))"

lemma depths_exact_insert:
  "depths_exact parents depths \<Longrightarrow> (\<And>n. ancestors parents i n \<Longrightarrow> unat d = min n (2 ^ 32 - 1)) \<Longrightarrow>
     depths_exact parents (bt_insert i d depths)"
  by (auto simp: depths_exact_def bt_get_insert)

lemma depth_of_exact:
  assumes "depth_of i parents depths visiting = (d, depths')"
    and "depths_exact parents depths"
    and "\<And>v n m. v \<in> set visiting \<Longrightarrow> ancestors parents i n \<Longrightarrow> ancestors parents v m \<Longrightarrow> n < m"
  shows "depths_exact parents depths'
    \<and> (\<forall>n. ancestors parents i n \<longrightarrow> unat d = min n (2 ^ 32 - 1))"
  using assms
proof (induction i parents depths visiting arbitrary: d depths' rule: depth_of.induct)
  case (1 i parents depths visiting)
  from "1.prems"(1) show ?case
  proof (cases rule: depth_of_cases)
    case memo
    with "1.prems"(2) show ?thesis by (auto simp: depths_exact_def)
  next
    case cycle
    with "1.prems"(3) have "\<not> ancestors parents i n" for n by blast
    with cycle "1.prems"(2) show ?thesis by (auto intro: depths_exact_insert)
  next
    case root
    then have "unat d = min n (2 ^ 32 - 1)" if "ancestors parents i n" for n
      using that by (auto simp: ancestors_iff [of _ i])
    with root "1.prems"(2) show ?thesis by (auto intro: depths_exact_insert)
  next
    case (orphan p)
    then have "unat d = min n (2 ^ 32 - 1)" if "ancestors parents i n" for n
      using that by (auto simp: ancestors_iff [of _ i])
    with orphan(5,6) depths_exact_insert [OF "1.prems"(2), of i d] show ?thesis by metis
  next
    case (child p e depths'')
    have up: "ancestors parents p k \<Longrightarrow> ancestors parents i (Suc k)" for k
      using child(3) by (rule ancestors.listed)
    have "k < m" if "v \<in> set (i # visiting)" "ancestors parents p k" "ancestors parents v m" for v k m
    proof (cases "v = i")
      case True
      from ancestors_unique [OF up [OF that(2)]] that(3) True have "m = Suc k" by blast
      then show ?thesis by simp
    next
      case False
      with that(1) have "v \<in> set visiting" by simp
      from "1.prems"(3) [OF this up [OF that(2)] that(3)] show ?thesis by simp
    qed
    with "1.IH" [OF child(1,2,3) refl child(4) child(5) "1.prems"(2)]
    have IH: "depths_exact parents depths''"
      "\<And>k. ancestors parents p k \<Longrightarrow> unat e = min k (2 ^ 32 - 1)" by blast+
    have "unat d = min n (2 ^ 32 - 1)" if n: "ancestors parents i n" for n
    proof -
      from n child(3,4) obtain k where "n = Suc k" and "ancestors parents p k"
        by (auto simp: ancestors_iff [of _ i])
      with IH(2) child(6) show ?thesis by (simp add: width_simps min_def)
    qed
    with IH(1) child(7) show ?thesis by (auto intro: depths_exact_insert)
  qed
qed

text \<open>
  Without any assumption on the graph: every listed node gets a depth, no other node does, and a
  depth is at most the number of nodes in the table that are not being visited.
\<close>

definition depths_bounded :: "(string, u32) btree_map \<Rightarrow> bool" where
  "depths_bounded depths \<longleftrightarrow>
     (\<forall>i d. bt_get depths i = Some d \<longrightarrow> unat d \<le> card (fst ` set depths))"

lemma depths_bounded_insert:
  assumes "depths_bounded depths" and "unat d \<le> card (insert i (fst ` set depths))"
  shows "depths_bounded (bt_insert i d depths)"
proof -
  have "card (fst ` set depths) \<le> card (insert i (fst ` set depths))"
    by (simp add: card_insert_le)
  with assms show ?thesis
    by (fastforce simp: depths_bounded_def bt_get_insert fst_set_bt_insert split: if_splits)
qed

lemma depth_of_bounded:
  assumes "depth_of i parents depths visiting = (d, depths')"
    and "depths_bounded depths" and "fst ` set depths \<inter> set visiting = {}"
  shows "depths_bounded depths' \<and> unat d \<le> card (fst ` set depths' - set visiting)
    \<and> insert i (fst ` set depths) \<subseteq> fst ` set depths'
    \<and> fst ` set depths' \<subseteq> insert i (fst ` set depths \<union> fst ` set parents)"
  using assms
proof (induction i parents depths visiting arbitrary: d depths' rule: depth_of.induct)
  case (1 i parents depths visiting)
  note keys = fst_set_bt_insert
  from "1.prems"(1) show ?case
  proof (cases rule: depth_of_cases)
    case memo
    then have "i \<in> fst ` set depths" by (auto simp: bt_keys_get)
    moreover have "fst ` set depths - set visiting = fst ` set depths" using "1.prems"(3) by blast
    ultimately show ?thesis using memo "1.prems"(2) by (auto simp: depths_bounded_def)
  next
    case cycle
    with "1.prems"(2) show ?thesis by (auto simp: keys intro: depths_bounded_insert)
  next
    case root
    with "1.prems"(2) show ?thesis by (auto simp: keys intro: depths_bounded_insert)
  next
    case (orphan p)
    then have "i \<in> fst ` set depths' - set visiting" by (simp add: keys)
    then have "1 \<le> card (fst ` set depths' - set visiting)"
      by (metis One_nat_def List.finite_set Suc_leI card_gt_0_iff empty_iff finite_Diff finite_imageI)
    moreover from orphan "1.prems"(2) have "depths_bounded depths'"
      by (auto intro!: depths_bounded_insert simp: Suc_le_eq card_gt_0_iff)
    ultimately show ?thesis using orphan by (auto simp: keys)
  next
    case (child p e depths'')
    from child(1) "1.prems"(3) have "fst ` set depths \<inter> set (i # visiting) = {}"
      by (auto simp: bt_get_None_iff)
    from "1.IH" [OF child(1,2,3) refl child(4) child(5) "1.prems"(2) this]
    have IH: "depths_bounded depths''" "unat e \<le> card (fst ` set depths'' - set (i # visiting))"
      "insert p (fst ` set depths) \<subseteq> fst ` set depths''"
      "fst ` set depths'' \<subseteq> insert p (fst ` set depths \<union> fst ` set parents)" by blast+
    have split: "insert i (fst ` set depths'') - set visiting
        = insert i (fst ` set depths'' - set (i # visiting))"
      using child(2) by auto
    have "unat d \<le> Suc (unat e)" using child(6) by (simp add: width_simps)
    also have "\<dots> \<le> card (insert i (fst ` set depths'') - set visiting)"
      unfolding split using IH(2) by simp
    finally have d: "unat d \<le> card (insert i (fst ` set depths'') - set visiting)" .
    also have "\<dots> \<le> card (insert i (fst ` set depths''))" by (rule card_mono) auto
    finally have "depths_bounded depths'"
      using child(7) IH(1) by (simp add: depths_bounded_insert)
    moreover have "p \<in> fst ` set parents" using child(4) by (simp add: bt_get_None_iff)
    ultimately show ?thesis using d IH(3,4) child(7) by (auto simp: keys)
  qed
qed

lemma all_depths:
  assumes "set is \<subseteq> fst ` set parents" and "depths_exact parents depths" and "depths_bounded depths"
    and "fst ` set depths \<subseteq> fst ` set parents"
    and "final = fold (\<lambda>i depths. snd (depth_of i parents depths [])) is depths"
  shows "depths_exact parents final \<and> depths_bounded final
    \<and> fst ` set depths \<union> set is \<subseteq> fst ` set final \<and> fst ` set final \<subseteq> fst ` set parents"
  using assms
proof (induction "is" arbitrary: depths)
  case Nil
  then show ?case by simp
next
  case (Cons i "is")
  obtain d depths' where call: "depth_of i parents depths [] = (d, depths')" by fastforce
  have exact: "depths_exact parents depths'"
    using depth_of_exact [OF call Cons.prems(2)] by simp
  have bounded: "depths_bounded depths'" "insert i (fst ` set depths) \<subseteq> fst ` set depths'"
    "fst ` set depths' \<subseteq> insert i (fst ` set depths \<union> fst ` set parents)"
    using depth_of_bounded [OF call Cons.prems(3)] by simp_all
  have "fst ` set depths' \<subseteq> fst ` set parents" "set is \<subseteq> fst ` set parents"
    using bounded(3) Cons.prems(1,4) by auto
  from Cons.IH [OF this(2) exact bounded(1) this(1)] Cons.prems(5) bounded(2) call
  show ?case by auto
qed

lemma observed_depths:
  "depths_exact (node_parents nodes) (oh_depths (observe_hierarchy nodes))
    \<and> depths_bounded (oh_depths (observe_hierarchy nodes))
    \<and> fst ` set (oh_depths (observe_hierarchy nodes)) = on_id ` set nodes"
proof -
  have "oh_depths (observe_hierarchy nodes) = fold (\<lambda>i depths. snd (depth_of i (node_parents nodes) depths []))
      (map fst (node_parents nodes)) []"
    by (simp add: observe_hierarchy_def node_parents_def Let_def)
  from all_depths [OF _ _ _ _ this] show ?thesis
    by (auto simp: depths_exact_def depths_bounded_def bt_get_def node_parents_keys [symmetric])
qed

lemma ancestors_node: "ancestors (node_parents nodes) i n \<Longrightarrow> i \<in> on_id ` set nodes"
  using ancestors_listed bt_get_None_iff node_parents_keys by metis

text \<open>C20. The depth recorded for a node whose chain of parents ends is the number of its ancestors,
  whatever the rest of the graph looks like, cycles included; a parent that is not listed counts as
  one ancestor. (Depths stop at the largest 32-bit value.)\<close>

theorem depth_counts_ancestors:
  assumes "ancestors (node_parents nodes) i n"
  shows "\<exists>d. bt_get (oh_depths (observe_hierarchy nodes)) i = Some d \<and> unat d = min n (2 ^ 32 - 1)"
proof -
  from ancestors_node [OF assms] observed_depths [of nodes]
  have "bt_get (oh_depths (observe_hierarchy nodes)) i \<noteq> None"
    by (simp add: bt_get_None_iff del: not_None_eq)
  with assms observed_depths [of nodes] show ?thesis by (auto simp: depths_exact_def)
qed

theorem depth_counts_ancestors_witness:
  "\<exists>d. bt_get (oh_depths (observe_hierarchy
      [\<lparr>on_id = ''a'', on_parent = Some ''gone'', on_coordinator = True\<rparr>,
       \<lparr>on_id = ''b'', on_parent = Some ''a'', on_coordinator = False\<rparr>,
       \<lparr>on_id = ''c'', on_parent = Some ''c'', on_coordinator = False\<rparr>])) ''b'' = Some d \<and> unat d = 2"
proof -
  let ?nodes = "[\<lparr>on_id = ''a'', on_parent = Some ''gone'', on_coordinator = True\<rparr>,
     \<lparr>on_id = ''b'', on_parent = Some ''a'', on_coordinator = False\<rparr>,
     \<lparr>on_id = ''c'', on_parent = Some ''c'', on_coordinator = False\<rparr>]"
  have "bt_get (node_parents ?nodes) ''b'' = Some (Some ''a'')"
    and "bt_get (node_parents ?nodes) ''a'' = Some (Some ''gone'')"
    and "bt_get (node_parents ?nodes) ''gone'' = None"
    by code_simp+
  then have "ancestors (node_parents ?nodes) ''b'' (Suc 1)"
    by (intro ancestors.listed [OF _ ancestors.unlisted])
  then have "ancestors (node_parents ?nodes) ''b'' 2" by (simp add: numeral_2_eq_2)
  from depth_counts_ancestors [OF this] show ?thesis by simp
qed

lemma max_depth_of_Max:
  assumes "ds \<noteq> []"
  obtains m where "max_depth_of ds = Some m" and "unat m = Max (unat ` set ds)"
proof
  obtain x xs where ds: "ds = x # xs" using assms by (cases ds) auto
  have "mono (unat :: u32 \<Rightarrow> nat)" by (simp add: mono_def word_le_nat_alt)
  then have "unat (Max (set ds)) = Max (unat ` set ds)"
    by (rule mono_Max_commute) (simp_all add: ds)
  moreover have "Max (set ds) = fold max xs x" unfolding ds by (rule Max.set_eq_fold)
  ultimately show "unat (fold max (tl ds) (hd ds)) = Max (unat ` set ds)" by (simp add: ds)
  show "max_depth_of ds = Some (fold max (tl ds) (hd ds))" by (simp add: max_depth_of_def ds)
qed

lemma depth_of_ordered:
  "bt_ordered depths \<Longrightarrow> bt_ordered (snd (depth_of i parents depths visiting))"
proof (induction i parents depths visiting rule: depth_of.induct)
  case (1 i parents depths visiting)
  obtain d depths' where call: "depth_of i parents depths visiting = (d, depths')" by fastforce
  then show ?case
  proof (cases rule: depth_of_cases)
    case (child p e depths'')
    from "1.IH" [OF child(1,2,3) refl child(4) "1.prems"] child(5) have "bt_ordered depths''" by simp
    with call child(7) show ?thesis by (simp add: bt_ordered_insert)
  qed (use "1.prems" call in \<open>simp_all add: bt_ordered_insert\<close>)
qed

lemma observed_depths_ordered: "bt_ordered (oh_depths (observe_hierarchy nodes))"
proof -
  have "bt_ordered depths \<Longrightarrow>
      bt_ordered (fold (\<lambda>i depths. snd (depth_of i parents depths [])) is depths)"
    for "is" parents depths
    by (induction "is" arbitrary: depths) (simp_all add: depth_of_ordered)
  then show ?thesis by (simp add: observe_hierarchy_def Let_def)
qed

lemma coordination_depth_of:
  assumes "counted \<noteq> {}"
    and "counted = {unat d |i d. bt_get (oh_depths (observe_hierarchy nodes)) i = Some d
      \<and> (i \<in> on_id ` {n \<in> set nodes. on_coordinator n} \<or> \<not> (\<exists>n \<in> set nodes. on_coordinator n))}"
  shows "unat (oh_coordination_depth (observe_hierarchy nodes)) = min (Suc (Max counted)) (2 ^ 32 - 1)"
proof -
  let ?depths = "oh_depths (observe_hierarchy nodes)"
  let ?ids = "btree_set (map on_id (filter on_coordinator nodes))"
  define ds where "ds = map snd (filter (\<lambda>(i, _). ?ids = [] \<or> i \<in> set ?ids) ?depths)"
  have ids: "set ?ids = on_id ` {n \<in> set nodes. on_coordinator n}" by simp
  have none: "?ids = [] \<longleftrightarrow> \<not> (\<exists>n \<in> set nodes. on_coordinator n)" by (simp add: filter_empty_conv)
  have "set ds = {d |i d. bt_get ?depths i = Some d
      \<and> (i \<in> on_id ` {n \<in> set nodes. on_coordinator n} \<or> \<not> (\<exists>n \<in> set nodes. on_coordinator n))}"
    unfolding ds_def set_map set_filter ids none bt_get_Some_iff [OF observed_depths_ordered] by force
  then have counted: "unat ` set ds = counted" unfolding assms(2) by blast
  with assms(1) have "ds \<noteq> []" by auto
  then obtain m where m: "max_depth_of ds = Some m" "unat m = Max (unat ` set ds)"
    by (rule max_depth_of_Max)
  have "oh_coordination_depth (observe_hierarchy nodes) =
      (case max_depth_of ds of None \<Rightarrow> 0 | Some depth \<Rightarrow> saturating_add depth 1)"
    by (simp add: observe_hierarchy_def ds_def Let_def)
  with m counted show ?thesis by (simp add: width_simps)
qed

text \<open>On every graph, cyclic ones included, the computation ends and gives exactly the listed
  nodes a depth, none larger than the number of listed nodes, and the coordination depth is one more
  than the largest depth of a coordinator (of any node, when no node is a coordinator).\<close>

theorem observed_depths_bounded:
  "(let h = observe_hierarchy nodes;
      counted = {unat d |i d. bt_get (oh_depths h) i = Some d
        \<and> (i \<in> on_id ` {n \<in> set nodes. on_coordinator n} \<or> \<not> (\<exists>n \<in> set nodes. on_coordinator n))}
    in fst ` set (oh_depths h) = on_id ` set nodes
     \<and> (\<forall>i d. bt_get (oh_depths h) i = Some d \<longrightarrow> unat d \<le> card (on_id ` set nodes))
     \<and> unat (oh_coordination_depth h) = (if nodes = [] then 0 else min (Suc (Max counted)) (2 ^ 32 - 1)))"
proof (cases "nodes = []")
  case True
  then show ?thesis by (simp add: observe_hierarchy_def max_depth_of_def bt_get_def btree_set_def)
next
  case False
  let ?h = "observe_hierarchy nodes"
  let ?counted = "{unat d |i d. bt_get (oh_depths ?h) i = Some d
    \<and> (i \<in> on_id ` {n \<in> set nodes. on_coordinator n} \<or> \<not> (\<exists>n \<in> set nodes. on_coordinator n))}"
  obtain n where n: "n \<in> set nodes" "on_coordinator n \<or> \<not> (\<exists>n \<in> set nodes. on_coordinator n)"
    using False by (metis list.set_sel(1))
  then have "bt_get (oh_depths ?h) (on_id n) \<noteq> None"
    using observed_depths [of nodes] by (simp add: bt_get_None_iff del: not_None_eq)
  with n have "?counted \<noteq> {}" by blast
  note coordination = coordination_depth_of [OF this refl]
  have "\<forall>i d. bt_get (oh_depths ?h) i = Some d \<longrightarrow> unat d \<le> card (on_id ` set nodes)"
    and "fst ` set (oh_depths ?h) = on_id ` set nodes"
    using observed_depths [of nodes] unfolding depths_bounded_def by auto
  with coordination False show ?thesis by (simp only: Let_def if_False)
qed

theorem observed_depths_bounded_witness:
  "let h = observe_hierarchy [\<lparr>on_id = ''a'', on_parent = Some ''b'', on_coordinator = True\<rparr>,
       \<lparr>on_id = ''b'', on_parent = Some ''a'', on_coordinator = False\<rparr>]
   in fst ` set (oh_depths h) = {''a'', ''b''} \<and> unat (the (bt_get (oh_depths h) ''a'')) \<le> 2"
proof -
  let ?nodes = "[\<lparr>on_id = ''a'', on_parent = Some ''b'', on_coordinator = True\<rparr>,
       \<lparr>on_id = ''b'', on_parent = Some ''a'', on_coordinator = False\<rparr>]"
  obtain d where d: "bt_get (oh_depths (observe_hierarchy ?nodes)) ''a'' = Some d"
  proof
    show "bt_get (oh_depths (observe_hierarchy ?nodes)) ''a''
        = Some (the (bt_get (oh_depths (observe_hierarchy ?nodes)) ''a''))" by code_simp
  qed
  have ids: "on_id ` set ?nodes = {''a'', ''b''}" and two: "card {''a'', ''b''} = 2" by simp_all
  note bounded = observed_depths_bounded [of ?nodes, unfolded Let_def ids two]
  then have "unat d \<le> 2" using d by blast
  with bounded d show ?thesis unfolding Let_def by (simp only: option.sel)
qed

end
