(* ===== verification/Model_Policy.thy ===== *)
theory Model_Policy
  imports Ordered
begin

text \<open>
  The phase and model capability policy (\<^verbatim>\<open>src/src/supervise/model_policy.rs\<close>) with the
  parts of the selection data it consults: dated priors
  (\<^verbatim>\<open>src/src/selection/types.rs\<close>) and the authorisations sealed by a routing policy
  (\<^verbatim>\<open>src/src/selection/routing_policy.rs\<close>).

  The record \<open>policy_env\<close> is the process-wide state the functions read: the operator data bound
  to the run, the bundled data files, the installed overlays behind their mutex, and the routing
  authorisations. Bundled files are data, hence arguments of the model.

  The lemmas characterise the accepted phase bindings, show what an executor authorisation
  guarantees, and that overlays shadow and uncover entries as intended.
\<close>

section \<open>Roles, phases and capabilities\<close>

datatype agent_role =
    Agent_Supervisor | Agent_ChildOrchestrator | Agent_Worker | Agent_Researcher
  | Agent_GateClassifier | Agent_Auditor

fun agent_role_str :: "agent_role \<Rightarrow> string" where
  "agent_role_str Agent_Supervisor = ''supervisor''"
| "agent_role_str Agent_ChildOrchestrator = ''child_orchestrator''"
| "agent_role_str Agent_Worker = ''worker''"
| "agent_role_str Agent_Researcher = ''researcher''"
| "agent_role_str Agent_GateClassifier = ''gate_classifier''"
| "agent_role_str Agent_Auditor = ''auditor''"

datatype model_capability = WeakMechanical | GeneralJudgment | CriticalJudgment

fun capability_str :: "model_capability \<Rightarrow> string" where
  "capability_str WeakMechanical = ''weak_mechanical''"
| "capability_str GeneralJudgment = ''general_judgment''"
| "capability_str CriticalJudgment = ''critical_judgment''"

fun capability_rank :: "model_capability \<Rightarrow> nat" where
  "capability_rank WeakMechanical = 0"
| "capability_rank GeneralJudgment = 1"
| "capability_rank CriticalJudgment = 2"

instantiation model_capability :: linorder
begin

definition less_eq_model_capability :: "model_capability \<Rightarrow> model_capability \<Rightarrow> bool" where
  "less_eq_model_capability a b \<longleftrightarrow> capability_rank a \<le> capability_rank b"

definition less_model_capability :: "model_capability \<Rightarrow> model_capability \<Rightarrow> bool" where
  "less_model_capability a b \<longleftrightarrow> capability_rank a < capability_rank b"

instance
proof
  fix a b :: model_capability
  show "a \<le> b \<Longrightarrow> b \<le> a \<Longrightarrow> a = b"
    by (cases a; cases b) (simp_all add: less_eq_model_capability_def)
qed (auto simp: less_eq_model_capability_def less_model_capability_def)

end

datatype orchestration_phase =
    Phase_Discovery | Phase_Triage | Phase_Planning | Phase_MechanicalTerminal
  | Phase_Implementation | Phase_ValidationInterpretation | Phase_Merge
  | Phase_GateClassification | Phase_ReviewAcceptance | Phase_Audit

fun phase_str :: "orchestration_phase \<Rightarrow> string" where
  "phase_str Phase_Discovery = ''discovery''"
| "phase_str Phase_Triage = ''triage''"
| "phase_str Phase_Planning = ''planning''"
| "phase_str Phase_MechanicalTerminal = ''mechanical_terminal''"
| "phase_str Phase_Implementation = ''implementation''"
| "phase_str Phase_ValidationInterpretation = ''validation_interpretation''"
| "phase_str Phase_Merge = ''merge''"
| "phase_str Phase_GateClassification = ''gate_classification''"
| "phase_str Phase_ReviewAcceptance = ''review_acceptance''"
| "phase_str Phase_Audit = ''audit''"

fun required_model_capability :: "orchestration_phase \<Rightarrow> model_capability" where
  "required_model_capability Phase_MechanicalTerminal = WeakMechanical"
| "required_model_capability Phase_Discovery = GeneralJudgment"
| "required_model_capability Phase_Triage = GeneralJudgment"
| "required_model_capability Phase_Planning = GeneralJudgment"
| "required_model_capability Phase_Implementation = GeneralJudgment"
| "required_model_capability Phase_ValidationInterpretation = GeneralJudgment"
| "required_model_capability Phase_Merge = GeneralJudgment"
| "required_model_capability Phase_GateClassification = CriticalJudgment"
| "required_model_capability Phase_ReviewAcceptance = CriticalJudgment"
| "required_model_capability Phase_Audit = CriticalJudgment"

definition hard_excludes_weak_models :: "orchestration_phase \<Rightarrow> bool" where
  "hard_excludes_weak_models p \<longleftrightarrow> p \<noteq> Phase_MechanicalTerminal"

record lite_profile =
  lp_id :: string
  lp_version :: u32
  lp_applies_to_phase :: orchestration_phase

definition WEAK_MECHANICAL_LITE_PROFILE :: lite_profile where
  "WEAK_MECHANICAL_LITE_PROFILE = \<lparr>lp_id = ''maco-weak-mechanical-lite-v1'', lp_version = 1,
     lp_applies_to_phase = Phase_MechanicalTerminal\<rparr>"

datatype mechanical_duty =
    ApplyExplicitTextReplacement | RunPreselectedCommand | FormatPreselectedFiles
  | EnumerateDeclaredArtifacts | ValidateAgainstFixedSchema

fun mechanical_duty_str :: "mechanical_duty \<Rightarrow> string" where
  "mechanical_duty_str ApplyExplicitTextReplacement = ''apply_explicit_text_replacement''"
| "mechanical_duty_str RunPreselectedCommand = ''run_preselected_command''"
| "mechanical_duty_str FormatPreselectedFiles = ''format_preselected_files''"
| "mechanical_duty_str EnumerateDeclaredArtifacts = ''enumerate_declared_artifacts''"
| "mechanical_duty_str ValidateAgainstFixedSchema = ''validate_against_fixed_schema''"

record phase_model_decision =
  pd_role :: agent_role
  pd_phase :: orchestration_phase
  pd_mechanical_duty :: "mechanical_duty option"
  pd_selected_capability :: model_capability
  pd_required_capability :: model_capability
  pd_weak_model_permitted :: bool

record capability_evidence =
  ce_model :: string
  ce_capability :: model_capability
  ce_eligible :: bool
  ce_evidence :: string
  ce_as_of :: string

record capability_policy =
  cp_id :: string
  cp_version :: u32
  cp_source :: string
  cp_models :: "capability_evidence list"

datatype authority_role =
    TerminalLeaf | Delegating | AcceptanceGate | ReviewAuditor | AuditAuthority
  | ConflictResolution | FailureClassification | GitPublication | UnknownJudgment

fun authority_role_str :: "authority_role \<Rightarrow> string" where
  "authority_role_str TerminalLeaf = ''terminal_leaf''"
| "authority_role_str Delegating = ''delegating''"
| "authority_role_str AcceptanceGate = ''acceptance_gate''"
| "authority_role_str ReviewAuditor = ''review_auditor''"
| "authority_role_str AuditAuthority = ''audit''"
| "authority_role_str ConflictResolution = ''conflict_resolution''"
| "authority_role_str FailureClassification = ''failure_classification''"
| "authority_role_str GitPublication = ''git_publication''"
| "authority_role_str UnknownJudgment = ''unknown_judgment''"

definition requires_exact_judgment_evidence :: "authority_role \<Rightarrow> bool" where
  "requires_exact_judgment_evidence a \<longleftrightarrow> a \<noteq> TerminalLeaf"

datatype measured_eligibility = Eligible | Ineligible string | NoDatedEvidence

text \<open>Of a dated prior the authority check reads the fields below; reasoning efforts and the roles
  of its authority evidence are all that matters of the lists they stand in.\<close>

datatype reasoning_effort =
    Effort_None | Effort_Minimal | Effort_Low | Effort_Medium | Effort_High | Effort_Xhigh
  | Effort_Max | Effort_Ultra

record authority_evidence =
  ae_task_class :: string
  ae_role :: authority_role
  ae_effort :: reasoning_effort
  ae_quality_basis_points :: u16
  ae_sample_size :: u32

record model_prior =
  mo_runtime :: string
  mo_model :: string
  mo_source_id :: string
  mo_prohibited :: bool
  mo_prohibition_reason :: "string option"
  mo_prohibited_authority_roles :: "authority_role list"
  mo_strong_gate_fallback_efforts :: "reasoning_effort list"
  mo_authority_evidence :: "authority_evidence list"

record candidate_key =
  ck_runtime :: string
  ck_model :: string
  ck_effort :: reasoning_effort

datatype policy_error =
    PolicyIdEmpty
  | PolicyVersionZero
  | PolicySlugNotTrimmed
  | PolicyRepeatsModel string
  | PolicyLockPoisoned
  | MechanicalPhaseNeedsDuty
  | DutyOutsideMechanicalPhase
  | WeakModelForbidden agent_role orchestration_phase
  | BelowCapabilityFloor model_capability model_capability agent_role orchestration_phase
  | NoAuthoritativeModel agent_role
  | NoSelectorAuthorization
  | EligibilityUnavailable string string
  | MeasuredIneligible string agent_role string
  | NoTrustedCapability string
  | WeakWorkerUnavailable string

record policy_env =
  pe_binding :: "(model_prior list \<times> capability_policy) option"
  pe_built_in_priors :: "string + model_prior list"
  pe_default_policy :: capability_policy
  pe_lock_poisoned :: bool
  pe_next_id :: u64
  pe_overlays :: "(u64, capability_policy) btree_map"
  pe_routing_policy_active :: bool
  pe_selected_authorizations :: "(string, candidate_key) btree_map"

datatype runtime_id = Codex | Fake | Grok | Cursor | ClaudeCode | GeminiCli | DeepSeek

datatype resolution_observation =
  PreferredModel | CatalogFallback | RuntimeDefault | LocalDeterministicFake | NotResolved

section \<open>Dated priors\<close>

definition quoted :: "string \<Rightarrow> string" where
  "quoted s = CHR 0x27 # s @ [CHR 0x27]"

definition denial_for_authority :: "model_prior \<Rightarrow> authority_role \<Rightarrow> string option" where
  "denial_for_authority p a =
     (if mo_prohibited p then
        Some (case mo_prohibition_reason p of Some r \<Rightarrow> r
          | None \<Rightarrow> ''dated prior '' @ quoted (mo_source_id p) @ '' prohibits the model'')
      else if a \<in> set (mo_prohibited_authority_roles p) then
        Some (''dated prior '' @ quoted (mo_source_id p) @ '' prohibits authority ''
          @ quoted (authority_role_str a))
      else if requires_exact_judgment_evidence a
        \<and> \<not> list_ex (\<lambda>e. ae_role e = a) (mo_authority_evidence p)
        \<and> mo_strong_gate_fallback_efforts p = [] then
        Some (''dated prior '' @ quoted (mo_source_id p)
          @ '' does not establish judgment eligibility for authority '' @ quoted (authority_role_str a))
      else None)"

fun join :: "string \<Rightarrow> string list \<Rightarrow> string" where
  "join sep [] = []"
| "join sep [x] = x"
| "join sep (x # y # xs) = x @ sep @ join sep (y # xs)"

definition measured_authority_eligibility ::
  "model_prior list \<Rightarrow> string \<Rightarrow> authority_role \<Rightarrow> measured_eligibility" where
  "measured_authority_eligibility priors model a =
     (let matches = filter (\<lambda>p. mo_model p = model) priors in
      if matches = [] then NoDatedEvidence
      else let reasons = List.map_filter (\<lambda>p. denial_for_authority p a) matches in
        if reasons = [] then Eligible else Ineligible (join ''; '' reasons))"

definition current_measured_authority_eligibility ::
  "policy_env \<Rightarrow> string \<Rightarrow> authority_role \<Rightarrow> string + measured_eligibility" where
  "current_measured_authority_eligibility env model a =
     (case pe_binding env of
        Some (priors, _) \<Rightarrow> Inr (measured_authority_eligibility priors model a)
      | None \<Rightarrow> and_then (pe_built_in_priors env) (\<lambda>priors.
          Inr (measured_authority_eligibility priors model a)))"

section \<open>Capability policies\<close>

fun validate_models :: "capability_evidence list \<Rightarrow> string list \<Rightarrow> policy_error + unit" where
  "validate_models [] seen = Inr ()"
| "validate_models (e # es) seen =
     (let model = trim (ce_model e) in
      if model = [] \<or> model \<noteq> ce_model e then Inl PolicySlugNotTrimmed
      else if model \<in> set seen then Inl (PolicyRepeatsModel model)
      else validate_models es (model # seen))"

definition policy_validate :: "capability_policy \<Rightarrow> policy_error + unit" where
  "policy_validate p =
     (if trim (cp_id p) = [] then Inl PolicyIdEmpty
      else if cp_version p = 0 then Inl PolicyVersionZero
      else validate_models (cp_models p) [])"

definition policy_lookup :: "capability_policy \<Rightarrow> string \<Rightarrow> capability_evidence option" where
  "policy_lookup p model = List.find (\<lambda>e. ce_model e = model) (cp_models p)"

definition capability_for :: "capability_policy \<Rightarrow> string \<Rightarrow> model_capability option" where
  "capability_for p model =
     (case policy_lookup p model of None \<Rightarrow> None
      | Some e \<Rightarrow> if ce_eligible e then Some (ce_capability e) else None)"

definition merge_entry :: "capability_evidence \<Rightarrow> capability_evidence list \<Rightarrow> capability_evidence list" where
  "merge_entry e models = filter (\<lambda>x. ce_model x \<noteq> ce_model e) models @ [e]"

definition merge_capability_overlay ::
  "capability_policy \<Rightarrow> capability_policy \<Rightarrow> capability_policy" where
  "merge_capability_overlay base overlay =
     base\<lparr>cp_models := fold merge_entry (cp_models overlay) (cp_models base),
       cp_id := (if trim (cp_id overlay) \<noteq> [] then cp_id overlay else cp_id base),
       cp_version := (if 0 < cp_version overlay then cp_version overlay else cp_version base),
       cp_source := (if cp_source overlay \<noteq> [] then cp_source overlay else cp_source base)\<rparr>"

definition current_model_capability_policy :: "policy_env \<Rightarrow> capability_policy" where
  "current_model_capability_policy env =
     (case pe_binding env of
        Some (_, policy) \<Rightarrow> policy
      | None \<Rightarrow>
          if pe_lock_poisoned env then pe_default_policy env
          else fold (\<lambda>(_, overlay) policy. merge_capability_overlay policy overlay) (pe_overlays env)
            (pe_default_policy env))"

definition install_model_capability_policy ::
  "capability_policy \<Rightarrow> policy_env \<Rightarrow> (policy_error + u64) \<times> policy_env" where
  "install_model_capability_policy policy env =
     (case policy_validate policy of Inl e \<Rightarrow> (Inl e, env)
      | Inr _ \<Rightarrow>
          if pe_lock_poisoned env then (Inl PolicyLockPoisoned, env)
          else (Inr (pe_next_id env),
            env\<lparr>pe_next_id := saturating_add (pe_next_id env) 1,
              pe_overlays := bt_insert (pe_next_id env) policy (pe_overlays env)\<rparr>))"

definition drop_model_capability_policy :: "u64 \<Rightarrow> policy_env \<Rightarrow> policy_env" where
  "drop_model_capability_policy i env =
     (if pe_lock_poisoned env then env
      else env\<lparr>pe_overlays := bt_remove i (pe_overlays env)\<rparr>)"

definition trusted_model_capability :: "policy_env \<Rightarrow> string \<Rightarrow> model_capability option" where
  "trusted_model_capability env model = capability_for (current_model_capability_policy env) model"

section \<open>Bindings\<close>

fun role_minimum_model_capability :: "agent_role \<Rightarrow> model_capability" where
  "role_minimum_model_capability Agent_Supervisor = GeneralJudgment"
| "role_minimum_model_capability Agent_ChildOrchestrator = GeneralJudgment"
| "role_minimum_model_capability Agent_Researcher = GeneralJudgment"
| "role_minimum_model_capability Agent_Worker = WeakMechanical"
| "role_minimum_model_capability Agent_GateClassifier = CriticalJudgment"
| "role_minimum_model_capability Agent_Auditor = CriticalJudgment"

fun minimum_model_capability :: "agent_role \<Rightarrow> model_capability" where
  "minimum_model_capability Agent_Supervisor = GeneralJudgment"
| "minimum_model_capability Agent_ChildOrchestrator = GeneralJudgment"
| "minimum_model_capability Agent_Researcher = GeneralJudgment"
| "minimum_model_capability Agent_Worker = WeakMechanical"
| "minimum_model_capability Agent_GateClassifier = CriticalJudgment"
| "minimum_model_capability Agent_Auditor = CriticalJudgment"

fun role_default_phase :: "agent_role \<Rightarrow> orchestration_phase option" where
  "role_default_phase Agent_Supervisor = Some Phase_Planning"
| "role_default_phase Agent_Researcher = Some Phase_Planning"
| "role_default_phase Agent_ChildOrchestrator = Some Phase_Implementation"
| "role_default_phase Agent_Worker = None"
| "role_default_phase Agent_GateClassifier = Some Phase_GateClassification"
| "role_default_phase Agent_Auditor = Some Phase_Audit"

definition validate_phase_model_binding ::
  "agent_role \<Rightarrow> orchestration_phase \<Rightarrow> mechanical_duty option \<Rightarrow> model_capability \<Rightarrow>
    policy_error + phase_model_decision" where
  "validate_phase_model_binding role phase duty selected =
     and_then
       (if phase = Phase_MechanicalTerminal
        then ensure (duty \<noteq> None) MechanicalPhaseNeedsDuty
        else ensure (duty = None) DutyOutsideMechanicalPhase) (\<lambda>_.
     (let required = max (required_model_capability phase) (minimum_model_capability role);
          weak_permitted = (role = Agent_Worker \<and> phase = Phase_MechanicalTerminal \<and> duty \<noteq> None)
      in if selected = WeakMechanical \<and> \<not> weak_permitted then Inl (WeakModelForbidden role phase)
         else if selected < required then Inl (BelowCapabilityFloor selected required role phase)
         else Inr \<lparr>pd_role = role, pd_phase = phase, pd_mechanical_duty = duty,
           pd_selected_capability = selected, pd_required_capability = required,
           pd_weak_model_permitted = weak_permitted\<rparr>))"

definition validate_budget_model_degradation ::
  "agent_role \<Rightarrow> orchestration_phase \<Rightarrow> mechanical_duty option \<Rightarrow> model_capability \<Rightarrow>
    policy_error + phase_model_decision" where
  "validate_budget_model_degradation role phase duty target =
     validate_phase_model_binding role phase duty target"

definition recorded_model_capability_class :: "policy_env \<Rightarrow> string \<Rightarrow> model_capability option" where
  "recorded_model_capability_class env model =
     map_option ce_capability (policy_lookup (current_model_capability_policy env) model)"

definition phase_permits_lite_instruction_profile :: "orchestration_phase \<Rightarrow> bool" where
  "phase_permits_lite_instruction_profile phase \<longleftrightarrow>
     \<not> hard_excludes_weak_models phase
     \<and> lp_applies_to_phase WEAK_MECHANICAL_LITE_PROFILE = Phase_MechanicalTerminal
     \<and> phase = Phase_MechanicalTerminal"

definition lite_instruction_profile_applies ::
  "policy_env \<Rightarrow> agent_role \<Rightarrow> orchestration_phase \<Rightarrow> string option \<Rightarrow> bool" where
  "lite_instruction_profile_applies env role phase model \<longleftrightarrow>
     role = Agent_Worker \<and> phase_permits_lite_instruction_profile phase
     \<and> Option.bind model (recorded_model_capability_class env) = Some WeakMechanical"

definition budget_degrade_attaches_lite_instruction_profile ::
  "agent_role \<Rightarrow> orchestration_phase \<Rightarrow> mechanical_duty option \<Rightarrow> model_capability \<Rightarrow> bool" where
  "budget_degrade_attaches_lite_instruction_profile role phase duty target \<longleftrightarrow>
     phase_permits_lite_instruction_profile phase
     \<and> (case validate_budget_model_degradation role phase duty target of
          Inr d \<Rightarrow> pd_weak_model_permitted d \<and> target = WeakMechanical
        | Inl _ \<Rightarrow> False)"

definition recorded_model_is_weak_mechanical :: "policy_env \<Rightarrow> string \<Rightarrow> bool" where
  "recorded_model_is_weak_mechanical env model \<longleftrightarrow>
     \<not> pe_routing_policy_active env \<and> recorded_model_capability_class env model = Some WeakMechanical"

section \<open>Authorisation\<close>

fun authority_role_for :: "agent_role \<Rightarrow> authority_role" where
  "authority_role_for Agent_Supervisor = AcceptanceGate"
| "authority_role_for Agent_ChildOrchestrator = Delegating"
| "authority_role_for Agent_Worker = TerminalLeaf"
| "authority_role_for Agent_Researcher = TerminalLeaf"
| "authority_role_for Agent_GateClassifier = FailureClassification"
| "authority_role_for Agent_Auditor = ReviewAuditor"

definition reject_static_tier_override_of_measured ::
  "policy_env \<Rightarrow> agent_role \<Rightarrow> string \<Rightarrow> policy_error + unit" where
  "reject_static_tier_override_of_measured env role model =
     (case current_measured_authority_eligibility env model (authority_role_for role) of
        Inl e \<Rightarrow> Inl (EligibilityUnavailable model e)
      | Inr (Ineligible reason) \<Rightarrow> Inl (MeasuredIneligible model role reason)
      | Inr Eligible \<Rightarrow> Inr ()
      | Inr NoDatedEvidence \<Rightarrow> Inr ())"

definition validate_selected_model :: "policy_env \<Rightarrow> string \<Rightarrow> string \<Rightarrow> policy_error + unit" where
  "validate_selected_model env role model =
     ensure (map_option ck_model (bt_get (pe_selected_authorizations env) role) = Some model)
       NoSelectorAuthorization"

definition validate_known_judgment_role_model ::
  "policy_env \<Rightarrow> agent_role \<Rightarrow> string option \<Rightarrow> policy_error + unit" where
  "validate_known_judgment_role_model env role model =
     (case model of None \<Rightarrow> Inl (NoAuthoritativeModel role)
      | Some m \<Rightarrow>
     if pe_routing_policy_active env then validate_selected_model env (agent_role_str role) m
     else
       and_then (reject_static_tier_override_of_measured env role m) (\<lambda>_.
       and_then (ok_or (trusted_model_capability env m) (NoTrustedCapability m)) (\<lambda>capability.
       case role_default_phase role of
         None \<Rightarrow> ensure (capability \<noteq> WeakMechanical) (WeakWorkerUnavailable m)
       | Some phase \<Rightarrow> and_then (validate_phase_model_binding role phase None capability) (\<lambda>_. Inr ()))))"

definition authorize_known_executor_role_model ::
  "policy_env \<Rightarrow> agent_role \<Rightarrow> string option \<Rightarrow> mechanical_duty option \<Rightarrow> policy_error + unit" where
  "authorize_known_executor_role_model env role model duty =
     (case model of None \<Rightarrow> Inl (NoAuthoritativeModel role)
      | Some m \<Rightarrow>
     if pe_routing_policy_active env then validate_selected_model env (agent_role_str role) m
     else
       and_then (reject_static_tier_override_of_measured env role m) (\<lambda>_.
       and_then (ok_or (trusted_model_capability env m) (NoTrustedCapability m)) (\<lambda>capability.
       if capability = WeakMechanical then
         and_then (ok_or duty (WeakWorkerUnavailable m)) (\<lambda>d.
         and_then (validate_phase_model_binding role Phase_MechanicalTerminal (Some d) capability)
           (\<lambda>_. Inr ()))
       else validate_known_judgment_role_model env role (Some m))))"

definition authorize_resolved_judgment_model ::
  "policy_env \<Rightarrow> agent_role \<Rightarrow> string option \<Rightarrow> string option \<Rightarrow> resolution_observation \<Rightarrow>
    runtime_id \<Rightarrow> policy_error + unit" where
  "authorize_resolved_judgment_model env role configured resolved observation runtime =
     (case resolved of
        Some m \<Rightarrow> validate_known_judgment_role_model env role (Some m)
      | None \<Rightarrow>
          if runtime = Fake then
            (if observation \<in> {PreferredModel, RuntimeDefault} \<and> configured = None then Inr ()
             else if observation = LocalDeterministicFake then Inr ()
             else validate_known_judgment_role_model env role configured)
          else validate_known_judgment_role_model env role None)"

definition authorize_resolved_executor_model ::
  "policy_env \<Rightarrow> agent_role \<Rightarrow> string option \<Rightarrow> string option \<Rightarrow> resolution_observation \<Rightarrow>
    runtime_id \<Rightarrow> mechanical_duty option \<Rightarrow> policy_error + unit" where
  "authorize_resolved_executor_model env role configured resolved observation runtime duty =
     (case resolved of
        Some m \<Rightarrow> authorize_known_executor_role_model env role (Some m) duty
      | None \<Rightarrow>
          if runtime = Fake then
            (if observation \<in> {PreferredModel, RuntimeDefault} \<and> configured = None then Inr ()
             else if observation = LocalDeterministicFake then Inr ()
             else authorize_known_executor_role_model env role configured duty)
          else authorize_known_executor_role_model env role None duty)"

definition model_is_eligible_degrade_target :: "policy_env \<Rightarrow> agent_role \<Rightarrow> string \<Rightarrow> bool" where
  "model_is_eligible_degrade_target env role model \<longleftrightarrow>
     \<not> isl (validate_known_judgment_role_model env role (Some model))"

section \<open>Phase bindings\<close>

lemma weak_least [simp]: "WeakMechanical \<le> c" "c < WeakMechanical \<longleftrightarrow> False"
  by (cases c; simp add: less_eq_model_capability_def less_model_capability_def)+

lemma capability_le_code [simp]:
  "c \<le> WeakMechanical \<longleftrightarrow> c = WeakMechanical"
  "CriticalJudgment \<le> c \<longleftrightarrow> c = CriticalJudgment"
  "GeneralJudgment \<le> c \<longleftrightarrow> c \<noteq> WeakMechanical"
  by (cases c; simp add: less_eq_model_capability_def)+

lemma phase_binding_Inr:
  "validate_phase_model_binding role phase duty selected = Inr d \<longleftrightarrow>
     (phase = Phase_MechanicalTerminal \<longleftrightarrow> duty \<noteq> None)
     \<and> required_model_capability phase \<le> selected \<and> minimum_model_capability role \<le> selected
     \<and> (selected = WeakMechanical \<longrightarrow> role = Agent_Worker \<and> phase = Phase_MechanicalTerminal)
     \<and> d = \<lparr>pd_role = role, pd_phase = phase, pd_mechanical_duty = duty,
         pd_selected_capability = selected,
         pd_required_capability = max (required_model_capability phase) (minimum_model_capability role),
         pd_weak_model_permitted = (role = Agent_Worker \<and> phase = Phase_MechanicalTerminal)\<rparr>"
proof (cases "phase = Phase_MechanicalTerminal \<longleftrightarrow> duty \<noteq> None")
  case True
  then show ?thesis
    unfolding validate_phase_model_binding_def Let_def
    by (auto simp: result_iffs not_less less_max_iff_disj split: if_splits)
next
  case False
  then show ?thesis by (auto simp: validate_phase_model_binding_def result_iffs split: if_splits)
qed



section \<open>Executors\<close>

lemma measured_gate_Inr:
  "reject_static_tier_override_of_measured env role m = Inr () \<longleftrightarrow>
     current_measured_authority_eligibility env m (authority_role_for role) \<in> {Inr Eligible, Inr NoDatedEvidence}"
  by (auto simp: reject_static_tier_override_of_measured_def
      split: sum.splits measured_eligibility.splits)

lemma default_phase_floor:
  "role_default_phase role = Some phase \<Longrightarrow>
     phase \<noteq> Phase_MechanicalTerminal \<and> required_model_capability phase = minimum_model_capability role
     \<and> role \<noteq> Agent_Worker"
  by (cases role) auto

lemma judgment_floor:
  "(case role_default_phase role of
      None \<Rightarrow> ensure (capability \<noteq> WeakMechanical) (WeakWorkerUnavailable m)
    | Some phase \<Rightarrow> and_then (validate_phase_model_binding role phase None capability) (\<lambda>_. Inr ())) = Inr ()
   \<longleftrightarrow> minimum_model_capability role \<le> capability \<and> capability \<noteq> WeakMechanical"
proof (cases "role_default_phase role")
  case None
  then have "role = Agent_Worker" by (cases role) auto
  then show ?thesis by (simp add: result_iffs)
next
  case (Some phase)
  from default_phase_floor [OF Some] Some show ?thesis
    by (auto simp: result_iffs phase_binding_Inr)
qed

lemma judgment_Inr:
  assumes "\<not> pe_routing_policy_active env"
  shows "validate_known_judgment_role_model env role (Some m) = Inr () \<longleftrightarrow>
    current_measured_authority_eligibility env m (authority_role_for role) \<in> {Inr Eligible, Inr NoDatedEvidence}
    \<and> (\<exists>c. trusted_model_capability env m = Some c \<and> minimum_model_capability role \<le> c
        \<and> c \<noteq> WeakMechanical)"
  using assms
  by (simp add: validate_known_judgment_role_model_def and_then_Inr_iff ok_or_Inr_iff judgment_floor
      measured_gate_Inr)

lemma executor_Inr:
  assumes "\<not> pe_routing_policy_active env"
  shows "authorize_known_executor_role_model env role (Some m) duty = Inr () \<longleftrightarrow>
    current_measured_authority_eligibility env m (authority_role_for role) \<in> {Inr Eligible, Inr NoDatedEvidence}
    \<and> (\<exists>c. trusted_model_capability env m = Some c \<and> minimum_model_capability role \<le> c
        \<and> (c = WeakMechanical \<longrightarrow> role = Agent_Worker \<and> duty \<noteq> None))"
proof (cases "trusted_model_capability env m")
  case None
  with assms show ?thesis
    by (simp add: authorize_known_executor_role_model_def and_then_Inr_iff)
next
  case (Some c)
  show ?thesis
  proof (cases "c = WeakMechanical")
    case True
    have "(\<exists>d. duty = Some d \<and> (\<exists>x. validate_phase_model_binding role Phase_MechanicalTerminal (Some d)
        WeakMechanical = Inr x)) \<longleftrightarrow> role = Agent_Worker \<and> duty \<noteq> None"
      by (auto simp: phase_binding_Inr)
    with Some True assms show ?thesis
      by (auto simp: authorize_known_executor_role_model_def result_iffs measured_gate_Inr phase_binding_Inr)
  next
    case False
    with Some assms show ?thesis
      by (auto simp: authorize_known_executor_role_model_def and_then_Inr_iff measured_gate_Inr judgment_Inr)
  qed
qed

text \<open>C22. On a real runtime without a routing policy, an executor is authorised exactly for a resolved
  model that the dated evidence does not exclude for the role's authority and whose trusted
  capability meets the role's floor; a weak model only for a worker with an enumerated duty. A model
  the catalog did not resolve is never authorised.\<close>

theorem executor_authorised_iff:
  assumes "runtime \<noteq> Fake" and "\<not> pe_routing_policy_active env"
  shows "authorize_resolved_executor_model env role configured resolved observation runtime duty = Inr () \<longleftrightarrow>
    (\<exists>m c. resolved = Some m \<and> trusted_model_capability env m = Some c
      \<and> current_measured_authority_eligibility env m (authority_role_for role)
          \<in> {Inr Eligible, Inr NoDatedEvidence}
      \<and> minimum_model_capability role \<le> c
      \<and> (c = WeakMechanical \<longrightarrow> role = Agent_Worker \<and> duty \<noteq> None))"
proof (cases resolved)
  case None
  with assms show ?thesis
    by (simp add: authorize_resolved_executor_model_def authorize_known_executor_role_model_def)
next
  case (Some m)
  with executor_Inr [OF assms(2)] show ?thesis
    by (auto simp: authorize_resolved_executor_model_def)
qed

definition sample_policy :: capability_policy where
  "sample_policy = \<lparr>cp_id = ''base'', cp_version = 1, cp_source = ''bundled'',
     cp_models = [\<lparr>ce_model = ''sol'', ce_capability = CriticalJudgment, ce_eligible = True,
       ce_evidence = [], ce_as_of = []\<rparr>]\<rparr>"

definition sample_env :: policy_env where
  "sample_env = \<lparr>pe_binding = None, pe_built_in_priors = Inr [], pe_default_policy = sample_policy,
     pe_lock_poisoned = False, pe_next_id = 0, pe_overlays = [], pe_routing_policy_active = False,
     pe_selected_authorizations = []\<rparr>"

theorem executor_authorised_iff_witness:
  "authorize_resolved_executor_model sample_env Agent_Auditor None (Some ''sol'') PreferredModel Codex None
    = Inr ()"
proof -
  have "trusted_model_capability sample_env ''sol'' = Some CriticalJudgment"
    and "current_measured_authority_eligibility sample_env ''sol'' ReviewAuditor = Inr NoDatedEvidence"
    and "\<not> pe_routing_policy_active sample_env"
    by code_simp+
  with executor_authorised_iff [of Codex sample_env Agent_Auditor None "Some ''sol''" PreferredModel None]
  show ?thesis by simp
qed

section \<open>Overlays\<close>

definition overlays_ok :: "policy_env \<Rightarrow> bool" where
  "overlays_ok env \<longleftrightarrow> bt_ordered (pe_overlays env)
     \<and> (\<forall>i \<in> fst ` set (pe_overlays env). i < pe_next_id env)"

lemma bt_insert_largest: "\<forall>k' \<in> fst ` set m. k' < k \<Longrightarrow> bt_insert k v m = m @ [(k, v)]"
  by (induction k v m rule: bt_insert.induct) auto

lemma find_filter: "List.find P (filter Q xs) = List.find (\<lambda>x. Q x \<and> P x) xs"
  by (induction xs) auto

lemma find_append:
  "List.find P (xs @ ys) = (case List.find P xs of None \<Rightarrow> List.find P ys | Some x \<Rightarrow> Some x)"
  by (induction xs) auto

lemma find_merge_entry:
  "List.find (\<lambda>x. ce_model x = m) (merge_entry e xs) =
     (if ce_model e = m then Some e else List.find (\<lambda>x. ce_model x = m) xs)"
proof -
  have "List.find (\<lambda>x. ce_model x \<noteq> ce_model e \<and> ce_model x = m) xs =
      (if ce_model e = m then None else List.find (\<lambda>x. ce_model x = m) xs)"
    by (induction xs) auto
  then show ?thesis
    by (auto simp: merge_entry_def find_append find_filter split: option.split)
qed

lemma find_merge_entries:
  "distinct (map ce_model es) \<Longrightarrow>
     List.find (\<lambda>x. ce_model x = m) (fold merge_entry es xs) =
       (case List.find (\<lambda>x. ce_model x = m) es of Some e \<Rightarrow> Some e
        | None \<Rightarrow> List.find (\<lambda>x. ce_model x = m) xs)"
proof (induction es arbitrary: xs)
  case Nil
  then show ?case by simp
next
  case (Cons e es)
  have "List.find (\<lambda>x. ce_model x = ce_model e) es = None"
    using Cons.prems by (auto simp: find_None_iff) (metis image_eqI)
  with Cons show ?case by (auto simp: find_merge_entry split: option.split)
qed

lemma validate_models_distinct:
  "validate_models es seen = Inr () \<Longrightarrow> distinct (map ce_model es) \<and> set seen \<inter> ce_model ` set es = {}"
proof (induction es seen rule: validate_models.induct)
  case (1 seen)
  then show ?case by simp
next
  case (2 e es seen)
  then show ?case by (auto simp: Let_def split: if_splits)
qed

lemma policy_lookup_merge:
  assumes "policy_validate overlay = Inr ()"
  shows "policy_lookup (merge_capability_overlay base overlay) m =
    (case policy_lookup overlay m of Some e \<Rightarrow> Some e | None \<Rightarrow> policy_lookup base m)"
proof -
  from assms have "distinct (map ce_model (cp_models overlay))"
    using validate_models_distinct by (auto simp: policy_validate_def split: if_splits)
  then show ?thesis
    by (simp add: policy_lookup_def merge_capability_overlay_def find_merge_entries
        split: option.split)
qed

text \<open>Installing a policy makes its rows shadow every earlier row of the same model and leaves all
  other rows; dropping the returned guard restores the previous overlays and with them the previous
  policy, also when other guards are alive.\<close>

theorem overlay_install_drop:
  assumes "overlays_ok env" and "pe_binding env = None" and "pe_next_id env \<noteq> - 1"
    and "install_model_capability_policy policy env = (Inr i, env')"
  shows "overlays_ok env'
    \<and> (\<forall>m. policy_lookup (current_model_capability_policy env') m =
        (case policy_lookup policy m of Some e \<Rightarrow> Some e
         | None \<Rightarrow> policy_lookup (current_model_capability_policy env) m))
    \<and> pe_overlays (drop_model_capability_policy i env') = pe_overlays env
    \<and> current_model_capability_policy (drop_model_capability_policy i env')
        = current_model_capability_policy env"
proof -
  from assms(4) have i: "i = pe_next_id env" and valid: "policy_validate policy = Inr ()"
    and free: "\<not> pe_lock_poisoned env"
    and env': "env' = env\<lparr>pe_next_id := saturating_add (pe_next_id env) 1,
        pe_overlays := bt_insert i policy (pe_overlays env)\<rparr>"
    by (auto simp: install_model_capability_policy_def split: sum.splits if_splits)
  from assms(1) have last: "pe_overlays env' = pe_overlays env @ [(i, policy)]"
    by (simp add: env' i overlays_ok_def bt_insert_largest)
  have succ: "saturating_add (pe_next_id env) 1 = pe_next_id env + 1"
    using assms(3) by (simp add: saturating_add_def checked_add_one)
  have "pe_next_id env < pe_next_id env + 1"
    using assms(3) checked_add_one_Some [of "pe_next_id env"] by (simp add: checked_add_one)
  with assms(1) have ok: "overlays_ok env'"
    by (auto simp: overlays_ok_def env' i succ fst_set_bt_insert bt_ordered_insert
        intro: order.strict_trans)
  have "current_model_capability_policy env' =
      merge_capability_overlay (current_model_capability_policy env) policy"
    using assms(2) free last by (simp add: current_model_capability_policy_def env')
  note look = policy_lookup_merge [OF valid, of "current_model_capability_policy env", folded this]
  have "bt_get (pe_overlays env) i = None"
    using assms(1) by (auto simp: overlays_ok_def i bt_get_None_iff)
  with assms(1) have dropped: "pe_overlays (drop_model_capability_policy i env') = pe_overlays env"
    using free by (simp add: drop_model_capability_policy_def env' overlays_ok_def bt.remove_insert)
  then have "current_model_capability_policy (drop_model_capability_policy i env')
      = current_model_capability_policy env"
    using free assms(2)
    by (simp add: current_model_capability_policy_def drop_model_capability_policy_def env')
  with ok look dropped show ?thesis by blast
qed

definition sample_overlay :: capability_policy where
  "sample_overlay = sample_policy\<lparr>cp_id := ''overlay'',
     cp_models := [\<lparr>ce_model = ''sol'', ce_capability = CriticalJudgment, ce_eligible = False,
       ce_evidence = [], ce_as_of = []\<rparr>]\<rparr>"

theorem overlay_install_drop_witness:
  "case install_model_capability_policy sample_overlay sample_env of (r, env') \<Rightarrow>
     policy_lookup (current_model_capability_policy env') ''sol'' = policy_lookup sample_overlay ''sol''
     \<and> current_model_capability_policy (drop_model_capability_policy 0 env')
        = current_model_capability_policy sample_env"
proof -
  obtain env' where step: "install_model_capability_policy sample_overlay sample_env = (Inr 0, env')"
  proof
    show "install_model_capability_policy sample_overlay sample_env
        = (Inr 0, snd (install_model_capability_policy sample_overlay sample_env))" by code_simp
  qed
  have "overlays_ok sample_env" and "pe_binding sample_env = None" and "pe_next_id sample_env \<noteq> - 1"
    by (simp_all add: overlays_ok_def sample_env_def)
  note installed = overlay_install_drop [OF this step]
  have "policy_lookup sample_overlay ''sol'' \<noteq> None" by code_simp
  with installed step show ?thesis by (auto split: option.splits)
qed

end
