(* ===== verification/Role_Authority.thy ===== *)
theory Role_Authority
  imports Hierarchy_Ledger Model_Policy
begin

text \<open>
  Role categories as authority boundaries (\<^verbatim>\<open>src/src/supervise/role_authority.rs\<close>) and the
  judged promotions and demotions that change them
  (\<^verbatim>\<open>src/src/supervise/role_transition.rs\<close>).

  The supervisor has its own enumerations of categories and decisions, converted to those of the
  ledger when a transition is recorded; the model keeps both.

  The lemmas characterise granted transitions, show that executing one always yields a record the
  ledger accepts and that journalling it leaves the ledger with the effective category of the
  execution, and that an assignment becomes a coordinator only on an accepted audit.
\<close>

section \<open>Data\<close>

datatype authority_category =
    Cat_DelegatingCoordinator
  | Cat_NonDelegatingTerminalWorker
  | Cat_ReadOnlyResearcher
  | Cat_ReadOnlyReviewAuditor

fun authority_category_str :: "authority_category \<Rightarrow> string" where
  "authority_category_str Cat_DelegatingCoordinator = ''delegating_coordinator''"
| "authority_category_str Cat_NonDelegatingTerminalWorker = ''non_delegating_terminal_worker''"
| "authority_category_str Cat_ReadOnlyResearcher = ''read_only_researcher''"
| "authority_category_str Cat_ReadOnlyReviewAuditor = ''read_only_review_auditor''"

definition may_delegate :: "authority_category \<Rightarrow> bool" where
  "may_delegate c \<longleftrightarrow> c = Cat_DelegatingCoordinator"

definition may_write :: "authority_category \<Rightarrow> bool" where
  "may_write c \<longleftrightarrow> c \<in> {Cat_DelegatingCoordinator, Cat_NonDelegatingTerminalWorker}"

definition may_judge_acceptance :: "authority_category \<Rightarrow> bool" where
  "may_judge_acceptance c \<longleftrightarrow> c = Cat_ReadOnlyReviewAuditor"

definition may_judge_role_transition :: "authority_category \<Rightarrow> bool" where
  "may_judge_role_transition c \<longleftrightarrow> c = Cat_ReadOnlyReviewAuditor"

definition is_read_only :: "authority_category \<Rightarrow> bool" where
  "is_read_only c \<longleftrightarrow> c \<in> {Cat_ReadOnlyResearcher, Cat_ReadOnlyReviewAuditor}"

definition is_non_delegating_terminal_worker :: "authority_category \<Rightarrow> bool" where
  "is_non_delegating_terminal_worker c \<longleftrightarrow> c = Cat_NonDelegatingTerminalWorker"

fun subject_capability_floor :: "authority_category \<Rightarrow> model_capability" where
  "subject_capability_floor Cat_DelegatingCoordinator = GeneralJudgment"
| "subject_capability_floor Cat_ReadOnlyReviewAuditor = CriticalJudgment"
| "subject_capability_floor Cat_NonDelegatingTerminalWorker = WeakMechanical"
| "subject_capability_floor Cat_ReadOnlyResearcher = WeakMechanical"

fun measured_authority_role :: "authority_category \<Rightarrow> authority_role" where
  "measured_authority_role Cat_DelegatingCoordinator = Delegating"
| "measured_authority_role Cat_NonDelegatingTerminalWorker = TerminalLeaf"
| "measured_authority_role Cat_ReadOnlyResearcher = TerminalLeaf"
| "measured_authority_role Cat_ReadOnlyReviewAuditor = ReviewAuditor"

fun category_bits :: "authority_category \<Rightarrow> u8" where
  "category_bits Cat_DelegatingCoordinator = 1 OR 2"
| "category_bits Cat_NonDelegatingTerminalWorker = 2"
| "category_bits Cat_ReadOnlyResearcher = 0"
| "category_bits Cat_ReadOnlyReviewAuditor = 4"

fun role_authority_category :: "agent_role \<Rightarrow> authority_category" where
  "role_authority_category Agent_Supervisor = Cat_DelegatingCoordinator"
| "role_authority_category Agent_ChildOrchestrator = Cat_DelegatingCoordinator"
| "role_authority_category Agent_Worker = Cat_NonDelegatingTerminalWorker"
| "role_authority_category Agent_Researcher = Cat_ReadOnlyResearcher"
| "role_authority_category Agent_GateClassifier = Cat_ReadOnlyReviewAuditor"
| "role_authority_category Agent_Auditor = Cat_ReadOnlyReviewAuditor"

datatype assignment_source = DerivedFromPlanRole | OperatorOverride

datatype transition_kind = Promotion | Demotion

datatype decision_kind = Dec_Granted | Dec_Refused

record gate_evidence =
  gv_acceptance_grade :: bool
  gv_recorded :: bool
  gv_uncertain :: bool

record role_provenance =
  rp_requester_agent_id :: string
  rp_judge_agent_id :: string
  rp_evidence :: gate_evidence
  rp_decision :: decision_kind

record role_assignment =
  ra_agent_id :: string
  ra_category :: authority_category
  ra_legacy_role :: string
  ra_source :: assignment_source
  ra_requester_agent_id :: string
  ra_judge_agent_id :: string
  ra_evidence :: gate_evidence
  ra_decision :: decision_kind
  ra_reason :: string

record transition_request =
  tq_agent_id :: string
  tq_from :: authority_category
  tq_to :: authority_category
  tq_requester_agent_id :: string
  tq_parent_agent_id :: string
  tq_judge_agent_id :: string
  tq_judge_category :: authority_category
  tq_judge_capability :: model_capability
  tq_subject_capability :: model_capability
  tq_evidence :: gate_evidence
  tq_reason :: string

record transition_outcome =
  to_kind :: transition_kind
  to_decision :: decision_kind
  to_agent_id :: string
  to_from :: authority_category
  to_to :: authority_category
  to_requester_agent_id :: string
  to_judge_agent_id :: string
  to_reason :: string

datatype role_error =
    IdentifierNotTrimmed string
  | RoleReasonNotTrimmed
  | UnprovenModel authority_category model_capability
  | CategoryIneligible string authority_category string
  | CategoryEligibilityUnavailable string string
  | CategoryBelowFloor authority_category model_capability model_capability
  | NoCategoryCapability string authority_category
  | AssignmentPayloadNotObject
  | AssignmentNotLedgerRecord
  | AssignmentNodeMismatch string string
  | LeafRuntimeForbidden agent_role
  | LedgerRejected ledger_error

text \<open>The payload of an event, as far as role assignments are concerned.\<close>

datatype assignment_payload = AP_NotObject | AP_Object "role_assignment payload_field"

record assignment_event =
  av_node :: string
  av_payload :: assignment_payload

section \<open>Assignments\<close>

definition granted_by :: "string \<Rightarrow> role_provenance" where
  "granted_by i = \<lparr>rp_requester_agent_id = i, rp_judge_agent_id = i,
     rp_evidence = \<lparr>gv_acceptance_grade = False, gv_recorded = True, gv_uncertain = False\<rparr>,
     rp_decision = Dec_Granted\<rparr>"

definition operator_override :: role_provenance where
  "operator_override = granted_by ''operator''"

definition require_trimmed_identifier :: "string \<Rightarrow> string \<Rightarrow> role_error + unit" where
  "require_trimmed_identifier field value =
     ensure (value \<noteq> [] \<and> value = trim value) (IdentifierNotTrimmed field)"

definition require_trimmed_reason :: "string \<Rightarrow> role_error + unit" where
  "require_trimmed_reason reason = ensure (reason \<noteq> [] \<and> reason = trim reason) RoleReasonNotTrimmed"

definition role_assignment_validate :: "role_assignment \<Rightarrow> role_error + unit" where
  "role_assignment_validate r =
     and_then (require_trimmed_identifier ''agent_id'' (ra_agent_id r)) (\<lambda>_.
     and_then (require_trimmed_identifier ''legacy_role'' (ra_legacy_role r)) (\<lambda>_.
     and_then (require_trimmed_identifier ''requester_agent_id'' (ra_requester_agent_id r)) (\<lambda>_.
     and_then (require_trimmed_identifier ''judge_agent_id'' (ra_judge_agent_id r)) (\<lambda>_.
     require_trimmed_reason (ra_reason r)))))"

definition request_validate_identifiers :: "transition_request \<Rightarrow> role_error + unit" where
  "request_validate_identifiers q =
     and_then (require_trimmed_identifier ''agent_id'' (tq_agent_id q)) (\<lambda>_.
     and_then (require_trimmed_identifier ''requester_agent_id'' (tq_requester_agent_id q)) (\<lambda>_.
     and_then (require_trimmed_identifier ''parent_agent_id'' (tq_parent_agent_id q)) (\<lambda>_.
     and_then (require_trimmed_identifier ''judge_agent_id'' (tq_judge_agent_id q)) (\<lambda>_.
     require_trimmed_reason (tq_reason q)))))"

definition assign_role_category_with_provenance ::
  "string \<Rightarrow> agent_role \<Rightarrow> authority_category option \<Rightarrow> role_provenance \<Rightarrow>
    role_error + role_assignment" where
  "assign_role_category_with_provenance agent role override provenance =
     (let derived = role_authority_category role;
          (category, source, reason, used) =
            (case override of
               Some requested \<Rightarrow>
                 if requested \<noteq> derived then
                   (requested, OperatorOverride,
                    ''operator override from '' @ agent_role_str role @ '' ('' @ authority_category_str derived
                      @ '') to '' @ authority_category_str requested,
                    if rp_requester_agent_id provenance = ''supervisor'' then operator_override
                    else provenance)
                 else
                   (derived, DerivedFromPlanRole,
                    ''derived from plan role '' @ agent_role_str role @ '' without a launch-tier designation'',
                    provenance)
             | None \<Rightarrow>
                 (derived, DerivedFromPlanRole,
                  ''derived from plan role '' @ agent_role_str role @ '' without a launch-tier designation'',
                  provenance));
          record = \<lparr>ra_agent_id = agent, ra_category = category, ra_legacy_role = agent_role_str role,
            ra_source = source, ra_requester_agent_id = rp_requester_agent_id used,
            ra_judge_agent_id = rp_judge_agent_id used, ra_evidence = rp_evidence used,
            ra_decision = rp_decision used, ra_reason = reason\<rparr>
      in and_then (role_assignment_validate record) (\<lambda>_. Inr record))"

definition assign_role_category ::
  "string \<Rightarrow> agent_role \<Rightarrow> authority_category option \<Rightarrow> role_error + role_assignment" where
  "assign_role_category agent role override =
     assign_role_category_with_provenance agent role override (granted_by ''supervisor'')"

definition admit_role_category ::
  "policy_env \<Rightarrow> authority_category \<Rightarrow> string option \<Rightarrow> role_error + unit" where
  "admit_role_category env category model =
     (let floor = subject_capability_floor category in
      case model of
        None \<Rightarrow> if WeakMechanical < floor then Inl (UnprovenModel category floor) else Inr ()
      | Some m \<Rightarrow>
          and_then
            (case current_measured_authority_eligibility env m (measured_authority_role category) of
               Inr (Ineligible reason) \<Rightarrow> Inl (CategoryIneligible m category reason)
             | Inr Eligible \<Rightarrow> Inr ()
             | Inr NoDatedEvidence \<Rightarrow> Inr ()
             | Inl e \<Rightarrow> Inl (CategoryEligibilityUnavailable m e)) (\<lambda>_.
          case trusted_model_capability env m of
            Some capability \<Rightarrow>
              if capability < floor then Inl (CategoryBelowFloor category capability floor) else Inr ()
          | None \<Rightarrow> if WeakMechanical < floor then Inl (NoCategoryCapability m category) else Inr ()))"

definition insert_role_assignment ::
  "assignment_payload \<Rightarrow> role_assignment \<Rightarrow> role_error + assignment_payload" where
  "insert_role_assignment p r =
     and_then (role_assignment_validate r) (\<lambda>_.
     case p of AP_NotObject \<Rightarrow> Inl AssignmentPayloadNotObject
     | AP_Object _ \<Rightarrow> Inr (AP_Object (Decoded r)))"

fun assignment_field :: "assignment_payload \<Rightarrow> role_assignment payload_field" where
  "assignment_field AP_NotObject = Absent"
| "assignment_field (AP_Object f) = f"

fun collect_role_assignments :: "assignment_event list \<Rightarrow> role_error + role_assignment list" where
  "collect_role_assignments [] = Inr []"
| "collect_role_assignments (event # events) =
     (case assignment_field (av_payload event) of
        Absent \<Rightarrow> collect_role_assignments events
      | Malformed \<Rightarrow> Inl AssignmentNotLedgerRecord
      | Decoded r \<Rightarrow>
          and_then (role_assignment_validate r) (\<lambda>_.
          and_then (ensure (ra_agent_id r = av_node event)
            (AssignmentNodeMismatch (ra_agent_id r) (av_node event))) (\<lambda>_.
          and_then (collect_role_assignments events) (\<lambda>rs. Inr (r # rs)))))"

definition authorize_bounded_leaf_runtime_role :: "agent_role \<Rightarrow> role_error + authority_category" where
  "authorize_bounded_leaf_runtime_role role =
     (let category = role_authority_category role in
      if \<not> is_non_delegating_terminal_worker category then Inl (LeafRuntimeForbidden role)
      else Inr category)"

section \<open>Transitions\<close>

definition kind_of_transition :: "authority_category \<Rightarrow> authority_category \<Rightarrow> transition_kind" where
  "kind_of_transition f t =
     (if category_bits t AND NOT (category_bits f) \<noteq> 0 then Promotion else Demotion)"

definition grant_transition :: "transition_request \<Rightarrow> transition_kind \<Rightarrow> string \<Rightarrow> transition_outcome" where
  "grant_transition q kind reason = \<lparr>to_kind = kind, to_decision = Dec_Granted,
     to_agent_id = tq_agent_id q, to_from = tq_from q, to_to = tq_to q,
     to_requester_agent_id = tq_requester_agent_id q, to_judge_agent_id = tq_judge_agent_id q,
     to_reason = reason\<rparr>"

definition refuse_transition :: "transition_request \<Rightarrow> transition_kind \<Rightarrow> string \<Rightarrow> transition_outcome" where
  "refuse_transition q kind reason = \<lparr>to_kind = kind, to_decision = Dec_Refused,
     to_agent_id = tq_agent_id q, to_from = tq_from q, to_to = tq_to q,
     to_requester_agent_id = tq_requester_agent_id q, to_judge_agent_id = tq_judge_agent_id q,
     to_reason = reason\<rparr>"

definition authorize_promotion :: "transition_request \<Rightarrow> transition_outcome" where
  "authorize_promotion q =
     (if tq_judge_agent_id q = tq_requester_agent_id q then
        refuse_transition q Promotion ''role transition cannot be judged by the requester''
      else if tq_judge_agent_id q = tq_parent_agent_id q then
        refuse_transition q Promotion ''promotion cannot be decided by the direct parent alone''
      else if \<not> may_judge_role_transition (tq_judge_category q) then
        refuse_transition q Promotion ''promotion judge must be a read-only review-auditor''
      else if tq_judge_capability q < CriticalJudgment then
        refuse_transition q Promotion
          ''promotion judge lacks critical-judgment capability; weak-model authority is forbidden''
      else if \<not> gv_acceptance_grade (tq_evidence q) then
        refuse_transition q Promotion ''promotion requires acceptance-grade gate evidence''
      else if tq_subject_capability q < subject_capability_floor (tq_to q) then
        refuse_transition q Promotion
          ''subject model is below the capability floor for the target category''
      else grant_transition q Promotion
        ''third-party auditor granted promotion on acceptance-grade evidence'')"

definition authorize_demotion :: "transition_request \<Rightarrow> transition_outcome" where
  "authorize_demotion q =
     (let judge_is_parent = (tq_judge_agent_id q = tq_parent_agent_id q);
          judge_is_auditor = (may_judge_role_transition (tq_judge_category q)
            \<and> CriticalJudgment \<le> tq_judge_capability q)
      in if \<not> judge_is_parent \<and> \<not> judge_is_auditor then
           refuse_transition q Demotion
             ''demotion judge must be the parent coordinator or a critical-judgment auditor''
         else if judge_is_parent \<and> \<not> may_delegate (tq_judge_category q) then
           refuse_transition q Demotion
             ''parent demotion judge must currently hold coordinator authority''
         else grant_transition q Demotion
           ''demotion granted after recorded third-party or parent judgment'')"

definition evaluate_role_transition :: "transition_request \<Rightarrow> role_error + transition_outcome" where
  "evaluate_role_transition q =
     and_then (request_validate_identifiers q) (\<lambda>_.
     if tq_from q = tq_to q then
       Inr (refuse_transition q Promotion ''same-category transition is not an authority change'')
     else
       (let kind = kind_of_transition (tq_from q) (tq_to q) in
        if tq_judge_agent_id q = tq_agent_id q then
          Inr (refuse_transition q kind ''role transition cannot be self-judged'')
        else if gv_uncertain (tq_evidence q) then
          Inr (refuse_transition q kind ''role transition fails closed on uncertain evidence'')
        else if \<not> gv_recorded (tq_evidence q) then
          Inr (refuse_transition q kind ''role transition requires recorded gate evidence'')
        else Inr (case kind of Promotion \<Rightarrow> authorize_promotion q | Demotion \<Rightarrow> authorize_demotion q)))"

section \<open>Execution\<close>

record judge_verdict =
  jv_judge_agent_id :: string
  jv_judge_role :: agent_role
  jv_judge_capability :: model_capability
  jv_accepted :: bool
  jv_uncertain :: bool

record executed_transition =
  xt_record :: role_transition
  xt_kind :: transition_kind
  xt_granted :: bool
  xt_effective_category :: authority_category
  xt_delegation_stripped :: bool

record resolved_authority =
  rs_model :: "string option"
  rs_capability :: model_capability

definition model_capability_or_weak :: "policy_env \<Rightarrow> string option \<Rightarrow> resolved_authority" where
  "model_capability_or_weak env model =
     \<lparr>rs_model = model,
      rs_capability = (case Option.bind model (trusted_model_capability env) of
        None \<Rightarrow> WeakMechanical | Some c \<Rightarrow> c)\<rparr>"

definition is_review_auditor_role :: "agent_role \<Rightarrow> bool" where
  "is_review_auditor_role role \<longleftrightarrow> role \<in> {Agent_Auditor, Agent_GateClassifier}"

definition grants_authority :: "authority_category \<Rightarrow> authority_category \<Rightarrow> bool" where
  "grants_authority f t \<longleftrightarrow>
     may_delegate t \<and> \<not> may_delegate f
     \<or> may_write t \<and> \<not> may_write f
     \<or> may_judge_acceptance t \<and> \<not> may_judge_acceptance f"

fun to_ledger_category :: "authority_category \<Rightarrow> role_category" where
  "to_ledger_category Cat_DelegatingCoordinator = DelegatingCoordinator"
| "to_ledger_category Cat_NonDelegatingTerminalWorker = NonDelegatingTerminalWorker"
| "to_ledger_category Cat_ReadOnlyResearcher = ReadOnlyResearcher"
| "to_ledger_category Cat_ReadOnlyReviewAuditor = ReadOnlyReviewAuditor"

definition contains :: "string \<Rightarrow> string \<Rightarrow> bool" where
  "contains s t \<longleftrightarrow> sublist t s"

definition ledger_reason_token :: "transition_outcome \<Rightarrow> string" where
  "ledger_reason_token d =
     (if to_decision d = Dec_Granted
      then (case to_kind d of Promotion \<Rightarrow> ''granted_promotion'' | Demotion \<Rightarrow> ''granted_demotion'')
      else
        (let reason = to_reason d in
         if contains reason ''self-judged'' then ''self_judged''
         else if contains reason ''judged by the requester'' then ''requester_judged''
         else if contains reason ''direct parent'' then ''direct_parent_judged''
         else if contains reason ''read-only review-auditor'' then ''judge_not_auditor''
         else if contains reason ''weak-model'' \<or> contains reason ''critical-judgment''
           then ''weak_model_judge''
         else if contains reason ''acceptance-grade'' then ''insufficient_gate_evidence''
         else if contains reason ''capability floor'' then ''weak_model_cannot_delegate''
         else if contains reason ''uncertain'' then ''uncertain_evidence''
         else if contains reason ''recorded'' then ''unrecorded_evidence''
         else ''refused_role_transition''))"

definition finish_transition ::
  "string \<Rightarrow> authority_category \<Rightarrow> authority_category \<Rightarrow> string \<Rightarrow> string \<Rightarrow> transition_kind \<Rightarrow> bool \<Rightarrow>
    string \<Rightarrow> gate_evidence \<Rightarrow> role_error + executed_transition" where
  "finish_transition agent f t requester judge kind granted reason evidence =
     (let record = \<lparr>rt_agent_id = agent, rt_from_category = to_ledger_category f,
            rt_to_category = to_ledger_category t, rt_requester_agent_id = requester,
            rt_judge_agent_id = judge,
            rt_evidence = \<lparr>te_acceptance_grade = gv_acceptance_grade evidence,
              te_recorded = gv_recorded evidence, te_uncertain = gv_uncertain evidence\<rparr>,
            rt_decision = (if granted then Granted else Refused), rt_reason = reason\<rparr>
      in case transition_validate record of
           Inl e \<Rightarrow> Inl (LedgerRejected e)
         | Inr _ \<Rightarrow> Inr \<lparr>xt_record = record, xt_kind = kind, xt_granted = granted,
             xt_effective_category = (if granted then t else f),
             xt_delegation_stripped = (granted \<and> kind = Demotion \<and> may_delegate f \<and> \<not> may_delegate t)\<rparr>)"

definition execute_judged_role_transition ::
  "policy_env \<Rightarrow> string \<Rightarrow> authority_category \<Rightarrow> authority_category \<Rightarrow> string \<Rightarrow> string \<Rightarrow>
    resolved_authority \<Rightarrow> judge_verdict \<Rightarrow> role_error + executed_transition" where
  "execute_judged_role_transition env agent f t requester parent subject verdict =
     (let promoting = grants_authority f t;
          kind = (if promoting then Promotion else Demotion);
          judge = jv_judge_agent_id verdict;
          evidence = \<lparr>gv_acceptance_grade = (jv_accepted verdict \<and> \<not> jv_uncertain verdict),
            gv_recorded = True, gv_uncertain = jv_uncertain verdict\<rparr>
      in
      if judge = agent then
        finish_transition agent f t requester judge kind False ''self_judged'' evidence
      else if promoting \<and> requester = agent then
        finish_transition agent f t requester judge Promotion False ''self_promotion'' evidence
      else if \<not> is_review_auditor_role (jv_judge_role verdict) then
        finish_transition agent f t requester judge kind False ''judge_not_auditor'' evidence
      else if judge = parent \<or> judge = requester then
        finish_transition agent f t requester judge kind False ''judge_not_third_party'' evidence
      else if jv_judge_capability verdict < CriticalJudgment then
        finish_transition agent f t requester judge kind False ''weak_model_judge'' evidence
      else
        and_then (evaluate_role_transition
          \<lparr>tq_agent_id = agent, tq_from = f, tq_to = t, tq_requester_agent_id = requester,
           tq_parent_agent_id = parent, tq_judge_agent_id = judge,
           tq_judge_category = role_authority_category (jv_judge_role verdict),
           tq_judge_capability = jv_judge_capability verdict,
           tq_subject_capability = rs_capability subject, tq_evidence = evidence,
           tq_reason = ''assignment_role_transition''\<rparr>) (\<lambda>decision.
        let initially_granted = (to_decision decision = Dec_Granted);
            eligible = (\<not> initially_granted \<or> t \<noteq> Cat_DelegatingCoordinator
              \<or> \<not> isl (validate_known_judgment_role_model env Agent_ChildOrchestrator (rs_model subject)));
            granted = (initially_granted \<and> eligible);
            reason = (if initially_granted \<and> \<not> eligible
              then ''subject_model_ineligible_for_coordinator'' else ledger_reason_token decision)
        in finish_transition agent f t requester judge (to_kind decision) granted reason evidence))"

datatype review_status = RS_Pending | RS_Succeeded | RS_Failed | RS_Rejected | RS_Missing

record auditor_report =
  ar_id :: string
  ar_role :: agent_role
  ar_accepted :: bool
  ar_rejected :: bool
  ar_status :: review_status

datatype aggregation_decision = Agg_Accept | Agg_Reject | Agg_ProceduralFailure

record review_report =
  rr_audit_reports :: "auditor_report list"
  rr_review_lens_decision :: "aggregation_decision option"

record orchestrator_assignment =
  oa_id :: string
  oa_role :: agent_role
  oa_worker_assignments :: "string list"

definition report_failed :: "auditor_report \<Rightarrow> bool" where
  "report_failed r \<longleftrightarrow> \<not> ar_accepted r \<or> ar_rejected r \<or> ar_status r \<noteq> RS_Succeeded"

definition parent_auditor_id :: "orchestrator_assignment \<Rightarrow> string" where
  "parent_auditor_id a = oa_id a @ ''-review-auditor''"

fun decimal :: "nat \<Rightarrow> string" where
  "decimal n = (if n < 10 then [char_of (48 + n)] else decimal (n div 10) @ [char_of (48 + n mod 10)])"

declare decimal.simps [simp del]

definition review_lens_auditor_id :: "orchestrator_assignment \<Rightarrow> nat \<Rightarrow> string" where
  "review_lens_auditor_id a lens = oa_id a @ ''-review-auditor-lens-'' @ decimal lens"

definition is_parent_auditor_id :: "orchestrator_assignment \<Rightarrow> string \<Rightarrow> bool" where
  "is_parent_auditor_id a i \<longleftrightarrow>
     i = parent_auditor_id a
     \<or> (let p = oa_id a @ ''-review-auditor-lens-''; index = drop (length p) i in
        prefix p i \<and> index \<noteq> [] \<and> list_all is_ascii_digit index)"

definition extract_assignment_judge ::
  "orchestrator_assignment \<Rightarrow> review_report \<Rightarrow> model_capability \<Rightarrow> judge_verdict" where
  "extract_assignment_judge a child capability =
     (case List.find (\<lambda>r. is_parent_auditor_id a (ar_id r)) (rr_audit_reports child) of
        Some report \<Rightarrow>
          \<lparr>jv_judge_agent_id = ar_id report, jv_judge_role = ar_role report,
           jv_judge_capability = capability,
           jv_accepted = (case rr_review_lens_decision child of
              Some decision \<Rightarrow> decision = Agg_Accept \<and> ar_accepted report \<and> \<not> report_failed report
            | None \<Rightarrow> ar_accepted report \<and> \<not> report_failed report),
           jv_uncertain = False\<rparr>
      | None \<Rightarrow>
          \<lparr>jv_judge_agent_id = review_lens_auditor_id a 0, jv_judge_role = Agent_Auditor,
           jv_judge_capability = capability, jv_accepted = False, jv_uncertain = True\<rparr>)"

definition consider_assignment_role_transition ::
  "policy_env \<Rightarrow> orchestrator_assignment \<Rightarrow> string \<Rightarrow> review_report \<Rightarrow> resolved_authority \<Rightarrow>
    model_capability \<Rightarrow> role_error + executed_transition option" where
  "consider_assignment_role_transition env a parent child subject auditor_capability =
     (let held = role_authority_category (oa_role a);
          verdict = extract_assignment_judge a child auditor_capability;
          execute = (\<lambda>f t. and_then
            (execute_judged_role_transition env (oa_id a) f t parent parent subject verdict)
            (\<lambda>x. Inr (Some x)))
      in
      if may_delegate held then
        (if jv_accepted verdict \<and> \<not> jv_uncertain verdict
         then execute Cat_NonDelegatingTerminalWorker Cat_DelegatingCoordinator
         else execute Cat_DelegatingCoordinator Cat_NonDelegatingTerminalWorker)
      else if oa_worker_assignments a = [] then Inr None
      else execute Cat_NonDelegatingTerminalWorker Cat_DelegatingCoordinator)"

section \<open>Granted transitions\<close>

lemma kind_of_transition_iff: "kind_of_transition f t = Promotion \<longleftrightarrow> grants_authority f t"
  by (cases f; cases t)
    (simp_all add: kind_of_transition_def grants_authority_def may_delegate_def may_write_def
      may_judge_acceptance_def)

lemma ledger_gain_iff:
  "authority_bits (to_ledger_category t) AND NOT (authority_bits (to_ledger_category f)) \<noteq> 0
     \<longleftrightarrow> grants_authority f t"
  by (cases f; cases t)
    (simp_all add: grants_authority_def may_delegate_def may_write_def may_judge_acceptance_def)

lemma to_ledger_category_inj: "to_ledger_category f = to_ledger_category t \<longleftrightarrow> f = t"
  by (cases f; cases t) simp_all

lemma not_critical [simp]: "c < CriticalJudgment \<longleftrightarrow> c \<noteq> CriticalJudgment"
  by (cases c) (simp_all add: less_model_capability_def)

lemmas judge_defs = may_judge_role_transition_def may_delegate_def

lemma promotion_decision:
  "to_decision (authorize_promotion q) = Dec_Granted \<longleftrightarrow>
     tq_judge_agent_id q \<noteq> tq_requester_agent_id q \<and> tq_judge_agent_id q \<noteq> tq_parent_agent_id q
     \<and> tq_judge_category q = Cat_ReadOnlyReviewAuditor \<and> tq_judge_capability q = CriticalJudgment
     \<and> gv_acceptance_grade (tq_evidence q)
     \<and> subject_capability_floor (tq_to q) \<le> tq_subject_capability q"
  by (auto simp: authorize_promotion_def refuse_transition_def grant_transition_def judge_defs not_less)

lemma demotion_decision:
  "to_decision (authorize_demotion q) = Dec_Granted \<longleftrightarrow>
     (if tq_judge_agent_id q = tq_parent_agent_id q then tq_judge_category q = Cat_DelegatingCoordinator
      else tq_judge_category q = Cat_ReadOnlyReviewAuditor \<and> tq_judge_capability q = CriticalJudgment)"
  by (simp add: authorize_demotion_def refuse_transition_def grant_transition_def judge_defs)

lemma outcome_kind [simp]:
  "to_kind (authorize_promotion q) = Promotion" "to_kind (authorize_demotion q) = Demotion"
  by (simp_all add: authorize_promotion_def authorize_demotion_def refuse_transition_def
      grant_transition_def Let_def)

lemma transition_decision_iff:
  assumes "evaluate_role_transition q = Inr d"
  shows "to_decision d = Dec_Granted \<longleftrightarrow>
    tq_from q \<noteq> tq_to q \<and> tq_judge_agent_id q \<noteq> tq_agent_id q
    \<and> gv_recorded (tq_evidence q) \<and> \<not> gv_uncertain (tq_evidence q)
    \<and> (if grants_authority (tq_from q) (tq_to q) then
         tq_judge_agent_id q \<noteq> tq_requester_agent_id q \<and> tq_judge_agent_id q \<noteq> tq_parent_agent_id q
         \<and> tq_judge_category q = Cat_ReadOnlyReviewAuditor \<and> tq_judge_capability q = CriticalJudgment
         \<and> gv_acceptance_grade (tq_evidence q)
         \<and> subject_capability_floor (tq_to q) \<le> tq_subject_capability q
       else if tq_judge_agent_id q = tq_parent_agent_id q then
         tq_judge_category q = Cat_DelegatingCoordinator
       else tq_judge_category q = Cat_ReadOnlyReviewAuditor \<and> tq_judge_capability q = CriticalJudgment)"
proof -
  have kind: "kind_of_transition (tq_from q) (tq_to q) =
      (if grants_authority (tq_from q) (tq_to q) then Promotion else Demotion)"
    using kind_of_transition_iff by (metis transition_kind.exhaust)
  show ?thesis
    using assms unfolding evaluate_role_transition_def kind
    by (auto simp: and_then_Inr_iff Let_def promotion_decision demotion_decision refuse_transition_def
        split: if_splits)
qed

text \<open>C23. A transition between different categories is granted exactly when somebody other than the
  agent judged it on recorded and certain evidence and, if it adds delegation, writing or judging
  authority, the judge is a critical-judgment review auditor who neither requested it nor is the
  parent, the evidence is acceptance-grade and the model meets the floor of the new category; if it
  adds none, the judge is the parent coordinator or a critical-judgment review auditor.\<close>

theorem transition_granted_iff:
  assumes "evaluate_role_transition q = Inr d"
  shows "to_decision d = Dec_Granted \<longleftrightarrow>
    tq_from q \<noteq> tq_to q \<and> tq_judge_agent_id q \<noteq> tq_agent_id q
    \<and> gv_recorded (tq_evidence q) \<and> \<not> gv_uncertain (tq_evidence q)
    \<and> (if grants_authority (tq_from q) (tq_to q) then
         tq_judge_agent_id q \<noteq> tq_requester_agent_id q \<and> tq_judge_agent_id q \<noteq> tq_parent_agent_id q
         \<and> tq_judge_category q = Cat_ReadOnlyReviewAuditor \<and> tq_judge_capability q = CriticalJudgment
         \<and> gv_acceptance_grade (tq_evidence q)
         \<and> subject_capability_floor (tq_to q) \<le> tq_subject_capability q
       else if tq_judge_agent_id q = tq_parent_agent_id q then
         tq_judge_category q = Cat_DelegatingCoordinator
       else tq_judge_category q = Cat_ReadOnlyReviewAuditor \<and> tq_judge_capability q = CriticalJudgment)"
  using assms by (rule transition_decision_iff)

definition sample_transition_request :: transition_request where
  "sample_transition_request = \<lparr>tq_agent_id = ''w1'', tq_from = Cat_NonDelegatingTerminalWorker,
     tq_to = Cat_DelegatingCoordinator, tq_requester_agent_id = ''root'', tq_parent_agent_id = ''root'',
     tq_judge_agent_id = ''w1-review-auditor'', tq_judge_category = Cat_ReadOnlyReviewAuditor,
     tq_judge_capability = CriticalJudgment, tq_subject_capability = CriticalJudgment,
     tq_evidence = \<lparr>gv_acceptance_grade = True, gv_recorded = True, gv_uncertain = False\<rparr>,
     tq_reason = ''promotion''\<rparr>"

theorem transition_granted_iff_witness:
  "\<exists>d. evaluate_role_transition sample_transition_request = Inr d \<and> to_decision d = Dec_Granted"
proof -
  have "isl (evaluate_role_transition sample_transition_request) = False" by code_simp
  then obtain d where d: "evaluate_role_transition sample_transition_request = Inr d"
    by (metis sum.collapse(2))
  with transition_granted_iff [OF d] show ?thesis
    by (simp add: sample_transition_request_def grants_authority_def may_delegate_def)
qed

section \<open>Execution\<close>

text \<open>The identifiers of a transition are acceptable to the ledger.\<close>

definition transition_ids_ok :: "string \<Rightarrow> string \<Rightarrow> string \<Rightarrow> string \<Rightarrow> bool" where
  "transition_ids_ok agent requester parent judge \<longleftrightarrow>
     require_identifier ''agent_id'' agent = Inr ()
     \<and> require_identifier ''requester_agent_id'' requester = Inr ()
     \<and> require_identifier ''parent_agent_id'' parent = Inr ()
     \<and> require_identifier ''judge_agent_id'' judge = Inr ()"

lemma ledger_identifier_trimmed:
  "require_identifier field v = Inr () \<Longrightarrow> require_trimmed_identifier field v = Inr ()"
  by (simp add: require_identifier_def require_trimmed_identifier_def result_iffs split: if_splits)

lemma fixed_reasons:
  "list_all (\<lambda>r. require_reason r = Inr ())
     [''self_judged'', ''self_promotion'', ''judge_not_auditor'', ''judge_not_third_party'',
      ''weak_model_judge'', ''subject_model_ineligible_for_coordinator'', ''granted_promotion'',
      ''granted_demotion'', ''requester_judged'', ''direct_parent_judged'',
      ''insufficient_gate_evidence'', ''weak_model_cannot_delegate'', ''uncertain_evidence'',
      ''unrecorded_evidence'', ''refused_role_transition'']"
  by code_simp

lemma fixed_reason [simp]:
  "require_reason ''self_judged'' = Inr ()" "require_reason ''self_promotion'' = Inr ()"
  "require_reason ''judge_not_auditor'' = Inr ()" "require_reason ''judge_not_third_party'' = Inr ()"
  "require_reason ''weak_model_judge'' = Inr ()"
  "require_reason ''subject_model_ineligible_for_coordinator'' = Inr ()"
  using fixed_reasons by simp_all

lemma ledger_reason_token_ok [simp]: "require_reason (ledger_reason_token d) = Inr ()"
  using fixed_reasons
  by (simp add: ledger_reason_token_def Let_def del: One_nat_def split: transition_kind.split)

text \<open>What is recorded and returned when a transition is finished.\<close>

definition finished ::
  "string \<Rightarrow> authority_category \<Rightarrow> authority_category \<Rightarrow> string \<Rightarrow> string \<Rightarrow> transition_kind \<Rightarrow> bool \<Rightarrow>
    string \<Rightarrow> gate_evidence \<Rightarrow> executed_transition" where
  "finished agent f t requester judge kind granted reason evidence =
     \<lparr>xt_record = \<lparr>rt_agent_id = agent, rt_from_category = to_ledger_category f,
        rt_to_category = to_ledger_category t, rt_requester_agent_id = requester,
        rt_judge_agent_id = judge,
        rt_evidence = \<lparr>te_acceptance_grade = gv_acceptance_grade evidence,
          te_recorded = gv_recorded evidence, te_uncertain = gv_uncertain evidence\<rparr>,
        rt_decision = (if granted then Granted else Refused), rt_reason = reason\<rparr>,
      xt_kind = kind, xt_granted = granted, xt_effective_category = (if granted then t else f),
      xt_delegation_stripped = (granted \<and> kind = Demotion \<and> may_delegate f \<and> \<not> may_delegate t)\<rparr>"

lemma finish_transition_ok:
  assumes "transition_ids_ok agent requester parent judge" and "require_reason reason = Inr ()"
    and "f \<noteq> t"
    and "granted \<Longrightarrow> judge \<noteq> agent \<and> gv_recorded evidence \<and> \<not> gv_uncertain evidence
      \<and> (grants_authority f t \<longrightarrow> gv_acceptance_grade evidence)"
  shows "finish_transition agent f t requester judge kind granted reason evidence =
    Inr (finished agent f t requester judge kind granted reason evidence)"
proof -
  let ?x = "finished agent f t requester judge kind granted reason evidence"
  have "transition_validate (xt_record ?x) = Inr ()"
    using assms ledger_gain_iff [of t f]
    by (auto simp: transition_validate_def finished_def transition_ids_ok_def result_iffs Let_def
        to_ledger_category_inj)
  then show ?thesis
    unfolding finish_transition_def Let_def finished_def by simp
qed

text \<open>The conditions under which a judged transition is granted.\<close>

definition judged_grant ::
  "policy_env \<Rightarrow> string \<Rightarrow> authority_category \<Rightarrow> authority_category \<Rightarrow> string \<Rightarrow> string \<Rightarrow>
    resolved_authority \<Rightarrow> judge_verdict \<Rightarrow> bool" where
  "judged_grant env agent f t requester parent subject v \<longleftrightarrow>
     jv_judge_agent_id v \<notin> {agent, requester, parent}
     \<and> is_review_auditor_role (jv_judge_role v) \<and> jv_judge_capability v = CriticalJudgment
     \<and> \<not> jv_uncertain v
     \<and> (grants_authority f t \<longrightarrow> requester \<noteq> agent \<and> jv_accepted v
          \<and> subject_capability_floor t \<le> rs_capability subject)
     \<and> (t = Cat_DelegatingCoordinator \<longrightarrow>
          validate_known_judgment_role_model env Agent_ChildOrchestrator (rs_model subject) = Inr ())"

lemma auditor_category:
  "is_review_auditor_role role \<Longrightarrow> role_authority_category role = Cat_ReadOnlyReviewAuditor"
  by (auto simp: is_review_auditor_role_def)

definition verdict_evidence :: "judge_verdict \<Rightarrow> gate_evidence" where
  "verdict_evidence v = \<lparr>gv_acceptance_grade = (jv_accepted v \<and> \<not> jv_uncertain v),
     gv_recorded = True, gv_uncertain = jv_uncertain v\<rparr>"

definition verdict_request ::
  "string \<Rightarrow> authority_category \<Rightarrow> authority_category \<Rightarrow> string \<Rightarrow> string \<Rightarrow> resolved_authority \<Rightarrow>
    judge_verdict \<Rightarrow> transition_request" where
  "verdict_request agent f t requester parent subject v =
     \<lparr>tq_agent_id = agent, tq_from = f, tq_to = t, tq_requester_agent_id = requester,
      tq_parent_agent_id = parent, tq_judge_agent_id = jv_judge_agent_id v,
      tq_judge_category = role_authority_category (jv_judge_role v),
      tq_judge_capability = jv_judge_capability v, tq_subject_capability = rs_capability subject,
      tq_evidence = verdict_evidence v, tq_reason = ''assignment_role_transition''\<rparr>"

definition judge_admissible ::
  "string \<Rightarrow> authority_category \<Rightarrow> authority_category \<Rightarrow> string \<Rightarrow> string \<Rightarrow> judge_verdict \<Rightarrow> bool" where
  "judge_admissible agent f t requester parent v \<longleftrightarrow>
     jv_judge_agent_id v \<notin> {agent, requester, parent} \<and> is_review_auditor_role (jv_judge_role v)
     \<and> jv_judge_capability v = CriticalJudgment \<and> \<not> (grants_authority f t \<and> requester = agent)"

lemma execute_inadmissible:
  assumes "\<not> judge_admissible agent f t requester parent v"
  obtains kind reason where "require_reason reason = Inr ()"
    and "execute_judged_role_transition env agent f t requester parent subject v =
      finish_transition agent f t requester (jv_judge_agent_id v) kind False reason (verdict_evidence v)"
proof -
  note unfold = execute_judged_role_transition_def Let_def verdict_evidence_def
  from assms consider
    (1) "jv_judge_agent_id v = agent"
    | (2) "jv_judge_agent_id v \<noteq> agent" "grants_authority f t \<and> requester = agent"
    | (3) "jv_judge_agent_id v \<noteq> agent" "\<not> (grants_authority f t \<and> requester = agent)"
        "\<not> is_review_auditor_role (jv_judge_role v)"
    | (4) "jv_judge_agent_id v \<noteq> agent" "\<not> (grants_authority f t \<and> requester = agent)"
        "is_review_auditor_role (jv_judge_role v)"
        "jv_judge_agent_id v = parent \<or> jv_judge_agent_id v = requester"
    | (5) "jv_judge_agent_id v \<noteq> agent" "\<not> (grants_authority f t \<and> requester = agent)"
        "is_review_auditor_role (jv_judge_role v)"
        "\<not> (jv_judge_agent_id v = parent \<or> jv_judge_agent_id v = requester)"
        "jv_judge_capability v < CriticalJudgment"
    unfolding judge_admissible_def not_critical by blast
  then show thesis
  proof cases
    case 1
    show thesis by (rule that [OF fixed_reason(1)]) (unfold unfold if_P [OF 1], rule refl)
  next
    case 2
    show thesis
      by (rule that [OF fixed_reason(2)]) (unfold unfold if_not_P [OF 2(1)] if_P [OF 2(2)], rule refl)
  next
    case 3
    show thesis
      by (rule that [OF fixed_reason(3)])
        (unfold unfold if_not_P [OF 3(1)] if_not_P [OF 3(2)] if_P [OF 3(3)], rule refl)
  next
    case 4
    then have "\<not> \<not> is_review_auditor_role (jv_judge_role v)" by simp
    note skip = if_not_P [OF 4(1)] if_not_P [OF 4(2)] if_not_P [OF this]
    show thesis
      by (rule that [OF fixed_reason(4)]) (unfold unfold skip if_P [OF 4(4)], rule refl)
  next
    case 5
    then have "\<not> \<not> is_review_auditor_role (jv_judge_role v)" by simp
    note skip = if_not_P [OF 5(1)] if_not_P [OF 5(2)] if_not_P [OF this] if_not_P [OF 5(4)]
    show thesis
      by (rule that [OF fixed_reason(5)]) (unfold unfold skip if_P [OF 5(5)], rule refl)
  qed
qed

lemma execute_admissible:
  assumes "judge_admissible agent f t requester parent v"
  shows "execute_judged_role_transition env agent f t requester parent subject v =
    and_then (evaluate_role_transition (verdict_request agent f t requester parent subject v)) (\<lambda>d.
      let initially = (to_decision d = Dec_Granted);
          eligible = (\<not> initially \<or> t \<noteq> Cat_DelegatingCoordinator
            \<or> \<not> isl (validate_known_judgment_role_model env Agent_ChildOrchestrator (rs_model subject)))
      in finish_transition agent f t requester (jv_judge_agent_id v) (to_kind d) (initially \<and> eligible)
        (if initially \<and> \<not> eligible then ''subject_model_ineligible_for_coordinator''
         else ledger_reason_token d) (verdict_evidence v))"
proof -
  from assms have c: "jv_judge_agent_id v \<noteq> agent" "\<not> (grants_authority f t \<and> requester = agent)"
    "\<not> \<not> is_review_auditor_role (jv_judge_role v)"
    "\<not> (jv_judge_agent_id v = parent \<or> jv_judge_agent_id v = requester)"
    "\<not> jv_judge_capability v < CriticalJudgment"
    by (auto simp: judge_admissible_def)
  show ?thesis
    unfolding execute_judged_role_transition_def Let_def verdict_request_def verdict_evidence_def
      if_not_P [OF c(1)] if_not_P [OF c(2)] if_not_P [OF c(3)] if_not_P [OF c(4)] if_not_P [OF c(5)]
    by (rule refl)
qed

lemma verdict_request_evaluates:
  assumes "transition_ids_ok agent requester parent (jv_judge_agent_id v)"
  obtains d where "evaluate_role_transition (verdict_request agent f t requester parent subject v) = Inr d"
proof -
  have "require_trimmed_reason ''assignment_role_transition'' = Inr ()" by code_simp
  with assms ledger_identifier_trimmed
  have "request_validate_identifiers (verdict_request agent f t requester parent subject v) = Inr ()"
    by (simp add: request_validate_identifiers_def transition_ids_ok_def verdict_request_def)
  then have "\<exists>d. evaluate_role_transition (verdict_request agent f t requester parent subject v) = Inr d"
    by (simp add: evaluate_role_transition_def Let_def)
  with that show thesis by blast
qed

lemma admissible_grant:
  assumes "judge_admissible agent f t requester parent v" and "f \<noteq> t"
    and "evaluate_role_transition (verdict_request agent f t requester parent subject v) = Inr d"
  shows "to_decision d = Dec_Granted
      \<and> (t \<noteq> Cat_DelegatingCoordinator
         \<or> validate_known_judgment_role_model env Agent_ChildOrchestrator (rs_model subject) = Inr ())
    \<longleftrightarrow> judged_grant env agent f t requester parent subject v"
proof -
  from assms(1) have "role_authority_category (jv_judge_role v) = Cat_ReadOnlyReviewAuditor"
    by (simp add: judge_admissible_def auditor_category)
  with assms(1,2) transition_decision_iff [OF assms(3)] show ?thesis
    by (auto simp: judge_admissible_def judged_grant_def verdict_request_def verdict_evidence_def)
qed

lemma not_isl_unit: "\<not> isl (r :: 'e + unit) \<longleftrightarrow> r = Inr ()"
  by (cases r) simp_all

lemma execute_finished:
  assumes ids: "transition_ids_ok agent requester parent (jv_judge_agent_id v)" and "f \<noteq> t"
  obtains kind reason where
    "execute_judged_role_transition env agent f t requester parent subject v =
      Inr (finished agent f t requester (jv_judge_agent_id v) kind
        (judged_grant env agent f t requester parent subject v) reason (verdict_evidence v))"
proof (cases "judge_admissible agent f t requester parent v")
  case False
  then have no: "judged_grant env agent f t requester parent subject v = False"
    by (auto simp: judged_grant_def judge_admissible_def)
  from execute_inadmissible [OF False] obtain kind reason where
    "require_reason reason = Inr ()" and
    ex: "execute_judged_role_transition env agent f t requester parent subject v =
      finish_transition agent f t requester (jv_judge_agent_id v) kind False reason (verdict_evidence v)" .
  with finish_transition_ok [OF ids this(1) assms(2), of False "verdict_evidence v" kind]
  show thesis by (intro that [of kind reason]) (simp add: ex no)
next
  case True
  let ?granted = "judged_grant env agent f t requester parent subject v"
  let ?eligible = "validate_known_judgment_role_model env Agent_ChildOrchestrator (rs_model subject) = Inr ()"
  obtain d where d: "evaluate_role_transition (verdict_request agent f t requester parent subject v) = Inr d"
    using verdict_request_evaluates [OF ids] .
  have granted: "(to_decision d = Dec_Granted \<and> (\<not> to_decision d = Dec_Granted
      \<or> t \<noteq> Cat_DelegatingCoordinator \<or> ?eligible)) = ?granted"
    using admissible_grant [OF True assms(2) d, of env] by blast
  let ?reason = "if to_decision d = Dec_Granted \<and> \<not> (\<not> to_decision d = Dec_Granted
      \<or> t \<noteq> Cat_DelegatingCoordinator \<or> ?eligible) then ''subject_model_ineligible_for_coordinator''
    else ledger_reason_token d"
  have "require_reason ?reason = Inr ()" by simp
  moreover have "jv_judge_agent_id v \<noteq> agent \<and> gv_recorded (verdict_evidence v)
      \<and> \<not> gv_uncertain (verdict_evidence v)
      \<and> (grants_authority f t \<longrightarrow> gv_acceptance_grade (verdict_evidence v))" if ?granted
    using that by (auto simp: judged_grant_def verdict_evidence_def)
  ultimately have "finish_transition agent f t requester (jv_judge_agent_id v) (to_kind d) ?granted
      ?reason (verdict_evidence v) = Inr (finished agent f t requester (jv_judge_agent_id v) (to_kind d)
      ?granted ?reason (verdict_evidence v))"
    by (intro finish_transition_ok [OF ids _ assms(2)])
  then show thesis
    by (intro that [of "to_kind d" ?reason])
      (simp only: execute_admissible [OF True] d and_then_simps Let_def not_isl_unit granted)
qed

lemma finish_transition_valid:
  "finish_transition agent f t requester judge kind granted reason evidence = Inr x \<Longrightarrow>
     transition_validate (xt_record x) = Inr ()"
  by (auto simp: finish_transition_def Let_def split: sum.splits)

lemma execute_valid:
  assumes "execute_judged_role_transition env agent f t requester parent subject v = Inr x"
  shows "transition_validate (xt_record x) = Inr ()"
proof (cases "judge_admissible agent f t requester parent v")
  case False
  from execute_inadmissible [OF False] assms show ?thesis by (metis finish_transition_valid)
next
  case True
  from assms show ?thesis
    unfolding execute_admissible [OF True] and_then_Inr_iff Let_def
    using finish_transition_valid by blast
qed

text \<open>Executing a judged transition between different categories with well-formed identifiers
  always returns, with a record the ledger accepts. It is granted exactly when the judge is a
  critical-judgment review auditor other than the agent, the requester and the parent, the verdict is
  certain and, for a promotion, not requested by the agent, accepted and above the floor of the new
  category, and, for a coordinator, the model is authorised for orchestration. The category is the
  new one when granted and the old one otherwise.\<close>

theorem executed_transition_outcome:
  assumes "transition_ids_ok agent requester parent (jv_judge_agent_id v)" and "f \<noteq> t"
  shows "\<exists>x. execute_judged_role_transition env agent f t requester parent subject v = Inr x
    \<and> role_transition_payload (xt_record x) =
        Inr (Object (no_fields\<lparr>lf_role_transition := Decoded (xt_record x)\<rparr>))
    \<and> (xt_granted x \<longleftrightarrow>
        jv_judge_agent_id v \<notin> {agent, requester, parent}
        \<and> is_review_auditor_role (jv_judge_role v) \<and> jv_judge_capability v = CriticalJudgment
        \<and> \<not> jv_uncertain v
        \<and> (grants_authority f t \<longrightarrow> requester \<noteq> agent \<and> jv_accepted v
             \<and> subject_capability_floor t \<le> rs_capability subject)
        \<and> (t = Cat_DelegatingCoordinator \<longrightarrow>
             validate_known_judgment_role_model env Agent_ChildOrchestrator (rs_model subject) = Inr ()))
    \<and> xt_effective_category x = (if xt_granted x then t else f)"
proof -
  from execute_finished [OF assms] obtain kind reason where
    x: "execute_judged_role_transition env agent f t requester parent subject v =
      Inr (finished agent f t requester (jv_judge_agent_id v) kind
        (judged_grant env agent f t requester parent subject v) reason (verdict_evidence v))" .
  from execute_valid [OF x] x show ?thesis
    by (simp add: role_transition_payload_def finished_def judged_grant_def)
qed

definition sample_verdict :: judge_verdict where
  "sample_verdict = \<lparr>jv_judge_agent_id = ''w1-review-auditor'', jv_judge_role = Agent_Auditor,
     jv_judge_capability = CriticalJudgment, jv_accepted = True, jv_uncertain = False\<rparr>"

definition sample_subject :: resolved_authority where
  "sample_subject = model_capability_or_weak sample_env (Some ''sol'')"

lemma sample_ids_ok: "transition_ids_ok ''w1'' ''root'' ''root'' (jv_judge_agent_id sample_verdict)"
  by code_simp

lemma sample_subject_ok:
  "validate_known_judgment_role_model sample_env Agent_ChildOrchestrator (rs_model sample_subject) = Inr ()"
  "GeneralJudgment \<le> rs_capability sample_subject"
  by code_simp+

theorem executed_transition_outcome_witness:
  "\<exists>x. execute_judged_role_transition sample_env ''w1'' Cat_NonDelegatingTerminalWorker
      Cat_DelegatingCoordinator ''root'' ''root'' sample_subject sample_verdict = Inr x \<and> xt_granted x"
proof -
  let ?f = Cat_NonDelegatingTerminalWorker
  let ?t = Cat_DelegatingCoordinator
  have "?f \<noteq> ?t" by simp
  from executed_transition_outcome [OF sample_ids_ok this, of sample_env sample_subject] obtain x where
    x: "execute_judged_role_transition sample_env ''w1'' ?f ?t ''root'' ''root'' sample_subject
      sample_verdict = Inr x"
    and granted: "xt_granted x \<longleftrightarrow>
        jv_judge_agent_id sample_verdict \<notin> {''w1'', ''root'', ''root''}
        \<and> is_review_auditor_role (jv_judge_role sample_verdict)
        \<and> jv_judge_capability sample_verdict = CriticalJudgment \<and> \<not> jv_uncertain sample_verdict
        \<and> (grants_authority ?f ?t \<longrightarrow> ''root'' \<noteq> ''w1'' \<and> jv_accepted sample_verdict
             \<and> subject_capability_floor ?t \<le> rs_capability sample_subject)
        \<and> (?t = Cat_DelegatingCoordinator \<longrightarrow> validate_known_judgment_role_model sample_env
             Agent_ChildOrchestrator (rs_model sample_subject) = Inr ())"
    by blast
  have "xt_granted x"
    unfolding granted using sample_subject_ok by (simp add: sample_verdict_def is_review_auditor_role_def)
  with x show ?thesis by blast
qed

section \<open>Transitions in the ledger\<close>

lemma finish_transition_record:
  assumes "finish_transition agent f t requester judge kind granted reason evidence = Inr x"
  shows "x = finished agent f t requester judge kind granted reason evidence"
  using assms unfolding finish_transition_def Let_def finished_def
  by (cases granted) (auto split: sum.splits)

lemma execute_record:
  assumes "execute_judged_role_transition env agent f t requester parent subject v = Inr x"
  obtains kind granted reason where
    "x = finished agent f t requester (jv_judge_agent_id v) kind granted reason (verdict_evidence v)"
proof (cases "judge_admissible agent f t requester parent v")
  case False
  from execute_inadmissible [OF False] assms that show thesis by (metis finish_transition_record)
next
  case True
  from assms that show thesis
    unfolding execute_admissible [OF True] and_then_Inr_iff Let_def
    using finish_transition_record by blast
qed



section \<open>Assignments under audit\<close>

lemma extract_accepted:
  assumes "jv_accepted (extract_assignment_judge a child capability)"
  obtains r where "r \<in> set (rr_audit_reports child)" and "is_parent_auditor_id a (ar_id r)"
    and "\<not> report_failed r" and "rr_review_lens_decision child \<in> {None, Some Agg_Accept}"
    and "jv_judge_role (extract_assignment_judge a child capability) = ar_role r"
    and "jv_judge_agent_id (extract_assignment_judge a child capability) = ar_id r"
  using assms by (auto simp: extract_assignment_judge_def split: option.splits dest: find_SomeD)

lemma execute_granted:
  assumes "execute_judged_role_transition env agent f t requester parent subject v = Inr x"
    and "xt_granted x" and "f \<noteq> t"
  shows "judged_grant env agent f t requester parent subject v"
proof (cases "judge_admissible agent f t requester parent v")
  case False
  from execute_inadmissible [OF False] assms(1) obtain kind reason where
    "finish_transition agent f t requester (jv_judge_agent_id v) kind False reason (verdict_evidence v)
      = Inr x" by metis
  with assms(2) show ?thesis by (auto dest!: finish_transition_record simp: finished_def)
next
  case True
  from assms(1) obtain d where
    d: "evaluate_role_transition (verdict_request agent f t requester parent subject v) = Inr d"
    and "finish_transition agent f t requester (jv_judge_agent_id v) (to_kind d)
      (to_decision d = Dec_Granted \<and> (\<not> to_decision d = Dec_Granted \<or> t \<noteq> Cat_DelegatingCoordinator
        \<or> validate_known_judgment_role_model env Agent_ChildOrchestrator (rs_model subject) = Inr ()))
      (if to_decision d = Dec_Granted \<and> \<not> (\<not> to_decision d = Dec_Granted \<or> t \<noteq> Cat_DelegatingCoordinator
        \<or> validate_known_judgment_role_model env Agent_ChildOrchestrator (rs_model subject) = Inr ())
       then ''subject_model_ineligible_for_coordinator'' else ledger_reason_token d)
      (verdict_evidence v) = Inr x"
    unfolding execute_admissible [OF True] and_then_Inr_iff Let_def not_isl_unit by blast
  from finish_transition_record [OF this(2)] assms(2)
  have "to_decision d = Dec_Granted \<and> (t \<noteq> Cat_DelegatingCoordinator
      \<or> validate_known_judgment_role_model env Agent_ChildOrchestrator (rs_model subject) = Inr ())"
    by (simp add: finished_def)
  with admissible_grant [OF True assms(3) d, of env] show ?thesis by blast
qed

lemma execute_effective:
  "execute_judged_role_transition env agent f t requester parent subject v = Inr x \<Longrightarrow>
     xt_granted x \<Longrightarrow> xt_effective_category x = t"
  by (erule execute_record) (simp add: finished_def)

lemma consider_granted:
  assumes "consider_assignment_role_transition env a parent child subject capability = Inr (Some x)"
    and "xt_granted x" and "xt_effective_category x = Cat_DelegatingCoordinator"
  shows "judged_grant env (oa_id a) Cat_NonDelegatingTerminalWorker Cat_DelegatingCoordinator parent parent
    subject (extract_assignment_judge a child capability)"
proof -
  let ?v = "extract_assignment_judge a child capability"
  from assms(1) consider
    "execute_judged_role_transition env (oa_id a) Cat_NonDelegatingTerminalWorker
      Cat_DelegatingCoordinator parent parent subject ?v = Inr x"
    | "execute_judged_role_transition env (oa_id a) Cat_DelegatingCoordinator
      Cat_NonDelegatingTerminalWorker parent parent subject ?v = Inr x"
    by (auto simp: consider_assignment_role_transition_def Let_def and_then_Inr_iff split: if_splits)
  then show ?thesis
  proof cases
    case 1
    then show ?thesis using assms(2) by (rule execute_granted) simp
  next
    case 2
    with execute_effective [OF 2 assms(2)] assms(3) show ?thesis by simp
  qed
qed

text \<open>C25. Considering an assignment makes it a coordinator only if its report contains an audit, under
  one of the auditor identities of the assignment and by an auditor role, that succeeded, accepted and
  did not reject, the aggregate of review lenses, if there is one, accepted, the auditor has critical
  judgment and is not the parent, and the model is authorised for orchestration.\<close>

theorem coordinator_needs_accepted_audit:
  assumes "consider_assignment_role_transition env a parent child subject capability = Inr (Some x)"
    and "xt_granted x" and "xt_effective_category x = Cat_DelegatingCoordinator"
  shows "\<exists>r \<in> set (rr_audit_reports child).
    is_parent_auditor_id a (ar_id r) \<and> ar_role r \<in> {Agent_Auditor, Agent_GateClassifier}
    \<and> ar_accepted r \<and> \<not> ar_rejected r \<and> ar_status r = RS_Succeeded
    \<and> rr_review_lens_decision child \<in> {None, Some Agg_Accept}
    \<and> capability = CriticalJudgment \<and> ar_id r \<noteq> parent
    \<and> validate_known_judgment_role_model env Agent_ChildOrchestrator (rs_model subject) = Inr ()"
proof -
  let ?v = "extract_assignment_judge a child capability"
  note grant = consider_granted [OF assms]
  have gain: "grants_authority Cat_NonDelegatingTerminalWorker Cat_DelegatingCoordinator"
    by (simp add: grants_authority_def may_delegate_def)
  with grant have "jv_accepted ?v" by (simp add: judged_grant_def)
  then obtain r where r: "r \<in> set (rr_audit_reports child)" "is_parent_auditor_id a (ar_id r)"
    "\<not> report_failed r" "rr_review_lens_decision child \<in> {None, Some Agg_Accept}"
    "jv_judge_role ?v = ar_role r" "jv_judge_agent_id ?v = ar_id r"
    by (rule extract_accepted)
  have "jv_judge_capability ?v = capability"
    by (simp add: extract_assignment_judge_def split: option.split)
  with grant r show ?thesis
    by (intro bexI [of _ r]) (auto simp: judged_grant_def is_review_auditor_role_def report_failed_def)
qed

definition sample_assignment :: orchestrator_assignment where
  "sample_assignment = \<lparr>oa_id = ''w1'', oa_role = Agent_Worker, oa_worker_assignments = [''w2'']\<rparr>"

definition sample_review :: review_report where
  "sample_review = \<lparr>rr_audit_reports = [\<lparr>ar_id = ''w1-review-auditor'', ar_role = Agent_Auditor,
     ar_accepted = True, ar_rejected = False, ar_status = RS_Succeeded\<rparr>],
     rr_review_lens_decision = Some Agg_Accept\<rparr>"

theorem coordinator_needs_accepted_audit_witness:
  "case consider_assignment_role_transition sample_env sample_assignment ''root'' sample_review
      sample_subject CriticalJudgment of
     Inr (Some x) \<Rightarrow> xt_granted x \<and> (\<exists>r \<in> set (rr_audit_reports sample_review). ar_accepted r)
   | _ \<Rightarrow> False"
proof -
  have v: "extract_assignment_judge sample_assignment sample_review CriticalJudgment = sample_verdict"
    by code_simp
  from execute_finished [OF sample_ids_ok] obtain kind reason where
    "execute_judged_role_transition sample_env ''w1'' Cat_NonDelegatingTerminalWorker
      Cat_DelegatingCoordinator ''root'' ''root'' sample_subject sample_verdict =
      Inr (finished ''w1'' Cat_NonDelegatingTerminalWorker Cat_DelegatingCoordinator ''root''
        (jv_judge_agent_id sample_verdict) kind (judged_grant sample_env ''w1''
          Cat_NonDelegatingTerminalWorker Cat_DelegatingCoordinator ''root'' ''root'' sample_subject
          sample_verdict) reason (verdict_evidence sample_verdict))" (is "_ = Inr ?x")
    by (metis authority_category.distinct(1))
  then have considered: "consider_assignment_role_transition sample_env sample_assignment ''root''
      sample_review sample_subject CriticalJudgment = Inr (Some ?x)"
    unfolding consider_assignment_role_transition_def Let_def v
    by (simp add: sample_assignment_def may_delegate_def)
  have granted: "xt_granted ?x"
    using sample_subject_ok
    by (simp add: finished_def judged_grant_def sample_verdict_def is_review_auditor_role_def)
  then have "xt_effective_category ?x = Cat_DelegatingCoordinator" by (simp add: finished_def)
  from coordinator_needs_accepted_audit [OF considered granted this] granted considered show ?thesis
    by auto
qed

end
