(* ===== verification/Durable_Graph.thy ===== *)
theory Durable_Graph
  imports Ordered
begin

text \<open>
  The definition of a durable execution graph and its validation
  (\<^verbatim>\<open>src/src/follow_up_queue/graph.rs\<close>, up to \<^verbatim>\<open>validate_worst_case_event_bound\<close>).

  Identifiers are strings that passed \<^verbatim>\<open>validate_id\<close>. Counters of nodes and edges are
  natural numbers, as they never exceed the lengths of vectors; the event bound keeps the checked
  machine arithmetic of the source. A \<open>graph_error\<close> is the message of the
  \<^verbatim>\<open>bail!\<close> or \<^verbatim>\<open>context\<close> it stands for.

  The lemmas show that the queue-based cycle check accepts exactly the graphs that are acyclic
  without their loop-back edges, that the reachability check accepts exactly the graphs all of whose
  nodes can be reached from the entry, and what else an accepted definition guarantees.
\<close>

section \<open>Data\<close>

definition MAX_GRAPH_NODES :: nat where "MAX_GRAPH_NODES = 64"
definition MAX_GRAPH_EDGES :: nat where "MAX_GRAPH_EDGES = 256"
definition MAX_GRAPH_BRANCHES :: nat where "MAX_GRAPH_BRANCHES = 64"
definition MAX_GRAPH_EVENTS :: usize where "MAX_GRAPH_EVENTS = 4096"
definition MAX_ID_BYTES :: nat where "MAX_ID_BYTES = 128"
definition MAX_DURABLE_TEXT_BYTES :: nat where "MAX_DURABLE_TEXT_BYTES = 1024"
definition MAX_SUCCESS_WRITE_REFS :: nat where "MAX_SUCCESS_WRITE_REFS = 32"
definition MAX_BRANCH_ATTEMPTS :: u16 where "MAX_BRANCH_ATTEMPTS = 16"
definition MAX_BRANCH_HISTORY_RECORDS :: nat where "MAX_BRANCH_HISTORY_RECORDS = 4096"
definition MAX_LOOP_ITERATIONS :: u16 where "MAX_LOOP_ITERATIONS = 64"
definition MAX_NODE_VISITS :: u16 where "MAX_NODE_VISITS = 1024"

datatype fan_in_result = FanIn_AllSuccess | FanIn_PartialSuccess | FanIn_Failure

datatype graph_termination = Term_Success | Term_PartialSuccess | Term_Failure | Term_Cancelled

datatype outcome_class = Class_Success | Class_RetryableFailure | Class_Failure

record branch_success =
  bs_result_ref :: string
  bs_write_refs :: "string list"

datatype branch_outcome =
  Out_Success branch_success | Out_RetryableFailure string | Out_Failure string

datatype loop_decision = Loop_Continue | Loop_Exit

datatype node_kind =
    Task string u16
  | Fork
  | Choice
  | Join "string list"
  | LoopNode u16
  | Terminate graph_termination

record graph_node =
  gn_id :: string
  gn_kind :: node_kind

datatype edge_condition =
    Always
  | BranchLatestOutcome string outcome_class
  | JoinResult string fan_in_result
  | LoopDecisionIs string loop_decision

datatype edge_kind = Forward | JoinArrival string | LoopBody string | LoopBack string

record graph_edge =
  ge_id :: string
  ge_from :: string
  ge_to :: string
  ge_kind :: edge_kind
  ge_condition :: edge_condition

record graph_definition =
  gd_graph_id :: string
  gd_entry_node_id :: string
  gd_nodes :: "graph_node list"
  gd_edges :: "graph_edge list"

datatype graph_error = Bail string

text \<open>The messages of the definition checks, by the name the checks below use.\<close>

abbreviation (input) WriteRefBound :: graph_error where
  "WriteRefBound \<equiv> Bail ''durable branch success exceeds its write-reference bound''"

abbreviation (input) WriteRefsNotCanonical :: graph_error where
  "WriteRefsNotCanonical \<equiv> Bail ''durable branch success write references are not canonical and unique''"

abbreviation (input) NodeCount :: graph_error where
  "NodeCount \<equiv> Bail ''durable graph node count is empty or exceeds its fixed bound''"

abbreviation (input) EdgeCount :: graph_error where
  "EdgeCount \<equiv> Bail ''durable graph edge count exceeds its fixed bound''"

abbreviation (input) NotCanonicalOrder :: graph_error where
  "NotCanonicalOrder \<equiv> Bail ''durable graph nodes or edges are not in canonical id order''"

abbreviation (input) RepeatedNode :: graph_error where
  "RepeatedNode \<equiv> Bail ''durable graph repeats a node id''"

abbreviation (input) UnknownEntry :: graph_error where
  "UnknownEntry \<equiv> Bail ''durable graph entry node is unknown''"

abbreviation (input) TaskAttemptBound :: graph_error where
  "TaskAttemptBound \<equiv> Bail ''durable graph task attempt bound is unsupported''"

abbreviation (input) RepeatedBranch :: graph_error where
  "RepeatedBranch \<equiv> Bail ''durable graph repeats a branch id''"

abbreviation (input) JoinBranchCount :: graph_error where
  "JoinBranchCount \<equiv> Bail ''durable graph join branch count is unsupported''"

abbreviation (input) JoinBranchesNotCanonical :: graph_error where
  "JoinBranchesNotCanonical \<equiv> Bail ''durable graph join branches are not canonical and unique''"

abbreviation (input) LoopIterationBound :: graph_error where
  "LoopIterationBound \<equiv> Bail ''durable graph loop iteration bound is unsupported''"

abbreviation (input) BranchCount :: graph_error where
  "BranchCount \<equiv> Bail ''durable graph branch count exceeds its fixed bound''"

abbreviation (input) NoTermination :: graph_error where
  "NoTermination \<equiv> Bail ''durable graph has no explicit termination node''"

abbreviation (input) JoinUnknownBranch :: graph_error where
  "JoinUnknownBranch \<equiv> Bail ''durable graph join references an unknown branch''"

abbreviation (input) UnknownNode :: graph_error where
  "UnknownNode \<equiv> Bail ''durable graph node is unknown''"

abbreviation (input) UnknownEdge :: graph_error where
  "UnknownEdge \<equiv> Bail ''durable graph edge is unknown''"

abbreviation (input) RepeatedEdge :: graph_error where
  "RepeatedEdge \<equiv> Bail ''durable graph repeats an edge id''"

abbreviation (input) RepeatedStructuralEdge :: graph_error where
  "RepeatedStructuralEdge \<equiv> Bail ''durable graph repeats a structural edge under another id''"

abbreviation (input) SelfEdge :: graph_error where
  "SelfEdge \<equiv> Bail ''durable graph self-edges are unsupported''"

abbreviation (input) EdgeUnknownNode :: graph_error where
  "EdgeUnknownNode \<equiv> Bail ''durable graph edge references an unknown node''"

abbreviation (input) IncomingIndexIncomplete :: graph_error where
  "IncomingIndexIncomplete \<equiv> Bail ''durable graph incoming-edge index is incomplete''"

abbreviation (input) OutgoingIndexIncomplete :: graph_error where
  "OutgoingIndexIncomplete \<equiv> Bail ''durable graph outgoing-edge index is incomplete''"

abbreviation (input) ConditionUnknownBranch :: graph_error where
  "ConditionUnknownBranch \<equiv> Bail ''durable graph condition references an unknown branch''"

abbreviation (input) JoinResultOrigin :: graph_error where
  "JoinResultOrigin \<equiv> Bail ''join-result edges must originate at their referenced join''"

abbreviation (input) LoopDecisionOrigin :: graph_error where
  "LoopDecisionOrigin \<equiv> Bail ''loop-decision edges must originate at their referenced loop''"

abbreviation (input) ArrivalUnknownBranch :: graph_error where
  "ArrivalUnknownBranch \<equiv> Bail ''durable graph join arrival names an unknown branch''"

abbreviation (input) ArrivalNotBound :: graph_error where
  "ArrivalNotBound \<equiv> Bail ''durable graph join arrival is not uniquely bound to its task and join''"

abbreviation (input) LoopBodyBinding :: graph_error where
  "LoopBodyBinding \<equiv> Bail ''loop-body edge has an invalid loop binding''"

abbreviation (input) LoopBackBinding :: graph_error where
  "LoopBackBinding \<equiv> Bail ''loop-back edge is not an unconditional edge to its loop node''"

abbreviation (input) OverlappingLoopMembership :: graph_error where
  "OverlappingLoopMembership \<equiv> Bail ''durable graph node belongs to overlapping loop bodies''"

abbreviation (input) BodyEdgeNotLoopScoped :: graph_error where
  "BodyEdgeNotLoopScoped \<equiv> Bail ''loop-body nodes may only use explicitly loop-scoped edges''"

abbreviation (input) OverlappingLoops :: graph_error where
  "OverlappingLoops \<equiv> Bail ''durable graph overlaps two loop bodies''"

abbreviation (input) TerminationHasEdges :: graph_error where
  "TerminationHasEdges \<equiv> Bail ''durable graph termination node has outgoing edges''"

abbreviation (input) ForkTooNarrow :: graph_error where
  "ForkTooNarrow \<equiv> Bail ''durable graph fork requires at least two outgoing edges''"

abbreviation (input) ForkConditional :: graph_error where
  "ForkConditional \<equiv> Bail ''durable graph fork must use unconditional outgoing edges''"

abbreviation (input) ForkRepeatsDestination :: graph_error where
  "ForkRepeatsDestination \<equiv> Bail ''durable graph fork repeats an outgoing destination''"

abbreviation (input) TaskRoutes :: graph_error where
  "TaskRoutes \<equiv> Bail ''durable graph task routes must be one unconditional edge or exhaustive terminal outcome edges''"

abbreviation (input) TaskRoutesIncomplete :: graph_error where
  "TaskRoutesIncomplete \<equiv> Bail ''durable graph task terminal outcome routes are ambiguous or incomplete''"

abbreviation (input) ChoiceMixesBranches :: graph_error where
  "ChoiceMixesBranches \<equiv> Bail ''durable graph choice mixes branch discriminators''"

abbreviation (input) ChoiceNotConditional :: graph_error where
  "ChoiceNotConditional \<equiv> Bail ''durable graph choice requires branch-outcome conditional edges''"

abbreviation (input) ChoiceRoutesIncomplete :: graph_error where
  "ChoiceRoutesIncomplete \<equiv> Bail ''durable graph choice routes are ambiguous or incomplete''"

abbreviation (input) JoinRoutesIncomplete :: graph_error where
  "JoinRoutesIncomplete \<equiv> Bail ''durable graph join must route every distinct fan-in result''"

abbreviation (input) LoopRoutesIncomplete :: graph_error where
  "LoopRoutesIncomplete \<equiv> Bail ''durable graph loop requires distinct continue and exit routes''"

abbreviation (input) LoopRouteContradicts :: graph_error where
  "LoopRouteContradicts \<equiv> Bail ''durable graph loop route kind contradicts its decision''"

abbreviation (input) NoOutgoingEdge :: graph_error where
  "NoOutgoingEdge \<equiv> Bail ''durable graph node has no outgoing edge''"

abbreviation (input) MultipleIncoming :: graph_error where
  "MultipleIncoming \<equiv> Bail ''only join and loop nodes may have multiple incoming edges''"

abbreviation (input) JoinUnboundIncoming :: graph_error where
  "JoinUnboundIncoming \<equiv> Bail ''durable graph join has an unbound incoming edge''"

abbreviation (input) JoinArrivalsIncomplete :: graph_error where
  "JoinArrivalsIncomplete \<equiv> Bail ''durable graph join arrivals do not exactly cover its required branches''"

abbreviation (input) CycleIndexIncomplete :: graph_error where
  "CycleIndexIncomplete \<equiv> Bail ''durable graph cycle index is incomplete''"

abbreviation (input) CycleIndexLostNode :: graph_error where
  "CycleIndexLostNode \<equiv> Bail ''durable graph cycle index lost a node''"

abbreviation (input) CycleIndexUnderflow :: graph_error where
  "CycleIndexUnderflow \<equiv> Bail ''durable graph cycle index underflowed''"

abbreviation (input) CycleWithoutLoop :: graph_error where
  "CycleWithoutLoop \<equiv> Bail ''durable graph contains a cycle without an explicit bounded loop back-edge''"

abbreviation (input) UnreachableNode :: graph_error where
  "UnreachableNode \<equiv> Bail ''durable graph contains an unreachable node''"

abbreviation (input) LoopBodyUnreachable :: graph_error where
  "LoopBodyUnreachable \<equiv> Bail ''durable graph loop body is not reachable from its loop node''"

abbreviation (input) LoopBackCount :: graph_error where
  "LoopBackCount \<equiv> Bail ''durable graph loop must have exactly one explicit back-edge''"

abbreviation (input) EventBoundLostLoop :: graph_error where
  "EventBoundLostLoop \<equiv> Bail ''durable graph event bound lost a loop body binding''"

abbreviation (input) TaskEventOverflow :: graph_error where
  "TaskEventOverflow \<equiv> Bail ''durable graph task event bound overflowed''"

abbreviation (input) LoopEventOverflow :: graph_error where
  "LoopEventOverflow \<equiv> Bail ''durable graph loop event bound overflowed''"

abbreviation (input) NodeEventOverflow :: graph_error where
  "NodeEventOverflow \<equiv> Bail ''durable graph node event bound overflowed''"

abbreviation (input) EventBoundOverflow :: graph_error where
  "EventBoundOverflow \<equiv> Bail ''durable graph event bound overflowed''"

abbreviation (input) NestedLoop :: graph_error where
  "NestedLoop \<equiv> Bail ''durable graph nested loops are unsupported''"

abbreviation (input) JoinInLoopBody :: graph_error where
  "JoinInLoopBody \<equiv> Bail ''durable graph joins inside loop bodies are unsupported''"

abbreviation (input) EventBoundExceeded :: graph_error where
  "EventBoundExceeded \<equiv> Bail ''durable graph worst-case transition history exceeds its fixed event bound''"

section \<open>Text and identifiers\<close>

definition validate_text :: "string \<Rightarrow> string \<Rightarrow> nat \<Rightarrow> graph_error + unit" where
  "validate_text value label max_bytes =
     ensure (\<not> (value = [] \<or> max_bytes < length value \<or> trim value \<noteq> value \<or> has_control value))
       (Bail (label @ '' is empty, untrimmed, contains control text, or exceeds its byte bound''))"

definition id_byte :: "char \<Rightarrow> bool" where
  "id_byte c \<longleftrightarrow> is_ascii_alphanumeric c \<or> c \<in> set ''-_.:''"

definition validate_id :: "string \<Rightarrow> string \<Rightarrow> graph_error + unit" where
  "validate_id value label =
     and_then (validate_text value label MAX_ID_BYTES) (\<lambda>_.
     ensure (list_all id_byte value) (Bail (label @ '' contains an unsupported character'')))"

definition durable_id_new :: "string \<Rightarrow> string \<Rightarrow> graph_error + string" where
  "durable_id_new label value = and_then (validate_id value label) (\<lambda>_. Inr value)"

definition durable_text_new :: "string \<Rightarrow> graph_error + string" where
  "durable_text_new value =
     and_then (validate_text value ''durable graph text'' MAX_DURABLE_TEXT_BYTES) (\<lambda>_. Inr value)"

fun is_strictly_sorted :: "'a::linorder list \<Rightarrow> bool" where
  "is_strictly_sorted [] = True"
| "is_strictly_sorted [x] = True"
| "is_strictly_sorted (x # y # xs) = (if y \<le> x then False else is_strictly_sorted (y # xs))"

definition branch_success_validate :: "branch_success \<Rightarrow> graph_error + unit" where
  "branch_success_validate s =
     and_then (ensure (\<not> MAX_SUCCESS_WRITE_REFS < length (bs_write_refs s)) WriteRefBound) (\<lambda>_.
     ensure (is_strictly_sorted (bs_write_refs s)) WriteRefsNotCanonical)"

definition branch_success_new :: "string \<Rightarrow> string list \<Rightarrow> graph_error + branch_success" where
  "branch_success_new result_ref write_refs =
     (let s = \<lparr>bs_result_ref = result_ref, bs_write_refs = write_refs\<rparr>
      in and_then (branch_success_validate s) (\<lambda>_. Inr s))"

fun class_of_outcome :: "branch_outcome \<Rightarrow> outcome_class" where
  "class_of_outcome (Out_Success _) = Class_Success"
| "class_of_outcome (Out_RetryableFailure _) = Class_RetryableFailure"
| "class_of_outcome (Out_Failure _) = Class_Failure"

fun outcome_validate :: "branch_outcome \<Rightarrow> graph_error + unit" where
  "outcome_validate (Out_Success s) = branch_success_validate s"
| "outcome_validate (Out_RetryableFailure _) = Inr ()"
| "outcome_validate (Out_Failure _) = Inr ()"

section \<open>Nodes\<close>

fun check_all :: "('a \<Rightarrow> 'e + unit) \<Rightarrow> 'a list \<Rightarrow> 'e + unit" where
  "check_all f [] = Inr ()"
| "check_all f (x # xs) = and_then (f x) (\<lambda>_. check_all f xs)"

type_synonym node_map = "(string, graph_node) btree_map"

definition node_map :: "graph_node list \<Rightarrow> node_map" where
  "node_map nodes = fold (\<lambda>n. bt_insert (gn_id n) n) nodes []"

definition find_node :: "graph_definition \<Rightarrow> string \<Rightarrow> graph_error + graph_node" where
  "find_node d i = ok_or (List.find (\<lambda>n. gn_id n = i) (gd_nodes d)) UnknownNode"

definition find_edge :: "graph_definition \<Rightarrow> string \<Rightarrow> graph_error + graph_edge" where
  "find_edge d i = ok_or (List.find (\<lambda>e. ge_id e = i) (gd_edges d)) UnknownEdge"

record node_index =
  ni_branches :: "(string, string \<times> u16) btree_map"
  ni_joins :: "string list"
  ni_loops :: "(string, u16) btree_map"
  ni_terminations :: nat

definition index_node :: "graph_node \<Rightarrow> node_index \<Rightarrow> graph_error + node_index" where
  "index_node n ix =
     (case gn_kind n of
        Task branch max_attempts \<Rightarrow>
          if max_attempts = 0 \<or> MAX_BRANCH_ATTEMPTS < max_attempts then Inl TaskAttemptBound
          else if bt_get (ni_branches ix) branch \<noteq> None then Inl RepeatedBranch
          else Inr (ix\<lparr>ni_branches := bt_insert branch (gn_id n, max_attempts) (ni_branches ix)\<rparr>)
      | Join required \<Rightarrow>
          if length required < 2 \<or> MAX_GRAPH_BRANCHES < length required then Inl JoinBranchCount
          else if \<not> is_strictly_sorted required then Inl JoinBranchesNotCanonical
          else Inr (ix\<lparr>ni_joins := btree_set (gn_id n # ni_joins ix)\<rparr>)
      | LoopNode max_iterations \<Rightarrow>
          if max_iterations = 0 \<or> MAX_LOOP_ITERATIONS < max_iterations then Inl LoopIterationBound
          else Inr (ix\<lparr>ni_loops := bt_insert (gn_id n) max_iterations (ni_loops ix)\<rparr>)
      | Terminate _ \<Rightarrow> Inr (ix\<lparr>ni_terminations := ni_terminations ix + 1\<rparr>)
      | Fork \<Rightarrow> Inr ix
      | Choice \<Rightarrow> Inr ix)"

definition index_nodes :: "graph_node list \<Rightarrow> graph_error + node_index" where
  "index_nodes nodes =
     fold_result index_node nodes
       \<lparr>ni_branches = [], ni_joins = [], ni_loops = [], ni_terminations = 0\<rparr>"

definition join_branches_known :: "(string, string \<times> u16) btree_map \<Rightarrow> graph_node \<Rightarrow> graph_error + unit" where
  "join_branches_known branches n =
     (case gn_kind n of
        Join required \<Rightarrow> ensure (list_all (\<lambda>b. bt_get branches b \<noteq> None) required) JoinUnknownBranch
      | _ \<Rightarrow> Inr ())"

section \<open>Edges\<close>

record edge_index =
  ei_incoming :: "(string, nat) btree_map"
  ei_outgoing :: "(string, graph_edge list) btree_map"
  ei_membership :: "(string, string) btree_map"

definition bind_loop_member ::
  "string \<Rightarrow> string \<Rightarrow> (string, string) btree_map \<Rightarrow> graph_error + (string, string) btree_map" where
  "bind_loop_member node loop membership =
     (case bt_get membership node of
        Some existing \<Rightarrow>
          if existing \<noteq> loop then Inl OverlappingLoopMembership
          else Inr (bt_insert node loop membership)
      | None \<Rightarrow> Inr (bt_insert node loop membership))"

definition check_condition ::
  "node_index \<Rightarrow> graph_edge \<Rightarrow> graph_error + unit" where
  "check_condition ix e =
     (case ge_condition e of
        Always \<Rightarrow> Inr ()
      | BranchLatestOutcome branch _ \<Rightarrow>
          ensure (bt_get (ni_branches ix) branch \<noteq> None) ConditionUnknownBranch
      | JoinResult join _ \<Rightarrow>
          ensure (join = ge_from e \<and> join \<in> set (ni_joins ix)) JoinResultOrigin
      | LoopDecisionIs loop _ \<Rightarrow>
          ensure (loop = ge_from e \<and> bt_get (ni_loops ix) loop \<noteq> None) LoopDecisionOrigin)"

definition is_join_of :: "graph_node option \<Rightarrow> string \<Rightarrow> bool" where
  "is_join_of n branch \<longleftrightarrow>
     (case map_option gn_kind n of Some (Join branches) \<Rightarrow> branch \<in> set branches | _ \<Rightarrow> False)"

definition bind_edge_kind ::
  "node_map \<Rightarrow> node_index \<Rightarrow> graph_edge \<Rightarrow> (string, string) btree_map \<Rightarrow>
    graph_error + (string, string) btree_map" where
  "bind_edge_kind nodes ix e membership =
     (case ge_kind e of
        Forward \<Rightarrow> Inr membership
      | JoinArrival branch \<Rightarrow>
          and_then (ok_or (bt_get (ni_branches ix) branch) ArrivalUnknownBranch) (\<lambda>(branch_node, _).
          and_then (ensure (branch_node = ge_from e \<and> is_join_of (bt_get nodes (ge_to e)) branch
            \<and> ge_condition e = Always) ArrivalNotBound) (\<lambda>_. Inr membership))
      | LoopBody loop \<Rightarrow>
          and_then (ensure (bt_get (ni_loops ix) loop \<noteq> None \<and> ge_to e \<noteq> loop) LoopBodyBinding) (\<lambda>_.
          and_then (bind_loop_member (ge_to e) loop membership) (\<lambda>m.
          if ge_from e \<noteq> loop then bind_loop_member (ge_from e) loop m else Inr m))
      | LoopBack loop \<Rightarrow>
          and_then (ensure (bt_get (ni_loops ix) loop \<noteq> None \<and> ge_to e = loop
            \<and> ge_condition e = Always) LoopBackBinding) (\<lambda>_.
          bind_loop_member (ge_from e) loop membership))"

definition index_edge ::
  "node_map \<Rightarrow> node_index \<Rightarrow> graph_edge \<Rightarrow> edge_index \<Rightarrow> graph_error + edge_index" where
  "index_edge nodes ix e x =
     and_then (ensure (ge_from e \<noteq> ge_to e) SelfEdge) (\<lambda>_.
     and_then (ensure (bt_get nodes (ge_from e) \<noteq> None \<and> bt_get nodes (ge_to e) \<noteq> None)
       EdgeUnknownNode) (\<lambda>_.
     and_then (ok_or (bt_get (ei_incoming x) (ge_to e)) IncomingIndexIncomplete) (\<lambda>count.
     and_then (ok_or (bt_get (ei_outgoing x) (ge_from e)) OutgoingIndexIncomplete) (\<lambda>out.
     and_then (check_condition ix e) (\<lambda>_.
     and_then (bind_edge_kind nodes ix e (ei_membership x)) (\<lambda>membership.
     Inr (x\<lparr>ei_incoming := bt_insert (ge_to e) (count + 1) (ei_incoming x),
       ei_outgoing := bt_insert (ge_from e) (out @ [e]) (ei_outgoing x),
       ei_membership := membership\<rparr>)))))))"

definition index_edges ::
  "node_map \<Rightarrow> node_index \<Rightarrow> graph_edge list \<Rightarrow> graph_error + edge_index" where
  "index_edges nodes ix edges =
     fold_result (index_edge nodes ix) edges
       \<lparr>ei_incoming = map (\<lambda>(i, _). (i, 0)) nodes, ei_outgoing = map (\<lambda>(i, _). (i, [])) nodes,
        ei_membership = []\<rparr>"

definition check_loop_scope ::
  "(string, string) btree_map \<Rightarrow> graph_edge \<Rightarrow> graph_error + unit" where
  "check_loop_scope membership e =
     (case ge_kind e of
        Forward \<Rightarrow> ensure (bt_get membership (ge_from e) = None \<and> bt_get membership (ge_to e) = None)
          BodyEdgeNotLoopScoped
      | JoinArrival _ \<Rightarrow> ensure (bt_get membership (ge_from e) = None \<and> bt_get membership (ge_to e) = None)
          BodyEdgeNotLoopScoped
      | LoopBody loop \<Rightarrow> ensure (bt_get membership (ge_from e) \<in> {None, Some loop}
          \<and> bt_get membership (ge_to e) \<in> {None, Some loop}) OverlappingLoops
      | LoopBack loop \<Rightarrow> ensure (bt_get membership (ge_from e) \<in> {None, Some loop}
          \<and> bt_get membership (ge_to e) \<in> {None, Some loop}) OverlappingLoops)"

definition task_outcome :: "string \<Rightarrow> graph_edge \<Rightarrow> graph_error + outcome_class" where
  "task_outcome task e =
     (case ge_condition e of
        BranchLatestOutcome branch outcome \<Rightarrow>
          if branch = task \<and> outcome \<noteq> Class_RetryableFailure then Inr outcome else Inl TaskRoutes
      | _ \<Rightarrow> Inl TaskRoutes)"

definition validate_task_edges :: "string \<Rightarrow> graph_edge list \<Rightarrow> graph_error + unit" where
  "validate_task_edges task edges =
     (if length edges = 1 \<and> ge_condition (edges ! 0) = Always then Inr ()
      else and_then (traverse (task_outcome task) edges) (\<lambda>outcomes.
        ensure (length edges = 2 \<and> set outcomes = {Class_Success, Class_Failure}) TaskRoutesIncomplete))"

fun choice_outcomes ::
  "string option \<Rightarrow> graph_edge list \<Rightarrow> graph_error + outcome_class list" where
  "choice_outcomes discriminator [] = Inr []"
| "choice_outcomes discriminator (e # es) =
     (case ge_condition e of
        BranchLatestOutcome branch outcome \<Rightarrow>
          if discriminator \<noteq> None \<and> discriminator \<noteq> Some branch then Inl ChoiceMixesBranches
          else and_then (choice_outcomes (Some branch) es) (\<lambda>rest. Inr (outcome # rest))
      | _ \<Rightarrow> Inl ChoiceNotConditional)"

definition validate_choice_edges :: "graph_edge list \<Rightarrow> graph_error + unit" where
  "validate_choice_edges edges =
     and_then (choice_outcomes None edges) (\<lambda>outcomes.
     ensure (length edges = 2 \<and> set outcomes = {Class_Success, Class_Failure}) ChoiceRoutesIncomplete)"

fun join_result_of :: "edge_condition \<Rightarrow> fan_in_result option" where
  "join_result_of (JoinResult _ r) = Some r"
| "join_result_of _ = None"

fun loop_decision_of :: "edge_condition \<Rightarrow> loop_decision option" where
  "loop_decision_of (LoopDecisionIs _ d) = Some d"
| "loop_decision_of _ = None"

definition loop_route_ok :: "graph_edge \<Rightarrow> graph_error + unit" where
  "loop_route_ok e =
     ensure (case ge_condition e of
        LoopDecisionIs loop Loop_Continue \<Rightarrow> ge_kind e = LoopBody loop
      | LoopDecisionIs _ Loop_Exit \<Rightarrow> ge_kind e = Forward
      | _ \<Rightarrow> False) LoopRouteContradicts"

definition check_routes :: "edge_index \<Rightarrow> graph_node \<Rightarrow> graph_error + unit" where
  "check_routes x n =
     and_then (ok_or (bt_get (ei_outgoing x) (gn_id n)) OutgoingIndexIncomplete) (\<lambda>edges.
     case gn_kind n of
       Terminate _ \<Rightarrow> ensure (edges = []) TerminationHasEdges
     | Fork \<Rightarrow>
         if length edges < 2 then Inl ForkTooNarrow
         else if list_ex (\<lambda>e. ge_condition e \<noteq> Always) edges then Inl ForkConditional
         else if length (remdups (map ge_to edges)) \<noteq> length edges then Inl ForkRepeatsDestination
         else if edges = [] then Inl NoOutgoingEdge
         else Inr ()
     | Choice \<Rightarrow> validate_choice_edges edges
     | Task branch _ \<Rightarrow> validate_task_edges branch edges
     | Join _ \<Rightarrow>
         ensure (set (List.map_filter (\<lambda>e. join_result_of (ge_condition e)) edges)
             = {FanIn_AllSuccess, FanIn_PartialSuccess, FanIn_Failure} \<and> length edges = 3)
           JoinRoutesIncomplete
     | LoopNode _ \<Rightarrow>
         and_then (ensure (set (List.map_filter (\<lambda>e. loop_decision_of (ge_condition e)) edges)
             = {Loop_Continue, Loop_Exit} \<and> length edges = 2) LoopRoutesIncomplete) (\<lambda>_.
         check_all loop_route_ok edges))"

definition check_incoming :: "node_map \<Rightarrow> string \<times> nat \<Rightarrow> graph_error + unit" where
  "check_incoming nodes ic =
     (case ic of (i, count) \<Rightarrow>
        ensure (\<not> (1 < count \<and>
          \<not> (case map_option gn_kind (bt_get nodes i) of Some (Join _) \<Rightarrow> True
             | Some (LoopNode _) \<Rightarrow> True | _ \<Rightarrow> False))) MultipleIncoming)"

fun arrival_branch :: "edge_kind \<Rightarrow> graph_error + string" where
  "arrival_branch (JoinArrival branch) = Inr branch"
| "arrival_branch _ = Inl JoinUnboundIncoming"

definition check_join_arrivals :: "graph_edge list \<Rightarrow> graph_node \<Rightarrow> graph_error + unit" where
  "check_join_arrivals edges n =
     (case gn_kind n of
        Join required \<Rightarrow>
          and_then (traverse (\<lambda>e. arrival_branch (ge_kind e)) (filter (\<lambda>e. ge_to e = gn_id n) edges))
            (\<lambda>arrivals.
          ensure (length arrivals = length required \<and> set arrivals = set required)
            JoinArrivalsIncomplete)
      | _ \<Rightarrow> Inr ())"

section \<open>Cycles and reachability\<close>

fun is_loop_back :: "edge_kind \<Rightarrow> bool" where
  "is_loop_back (LoopBack _) = True"
| "is_loop_back _ = False"

type_synonym degrees = "(string, nat) btree_map"
type_synonym adjacency = "(string, string list) btree_map"

definition count_edge ::
  "graph_edge \<Rightarrow> degrees \<times> adjacency \<Rightarrow> graph_error + degrees \<times> adjacency" where
  "count_edge e da =
     (case da of (indegree, adj) \<Rightarrow>
     if is_loop_back (ge_kind e) then Inr (indegree, adj)
     else
       and_then (ok_or (bt_get indegree (ge_to e)) CycleIndexIncomplete) (\<lambda>degree.
       Inr (bt_insert (ge_to e) (degree + 1) indegree,
         bt_insert (ge_from e)
           ((case bt_get adj (ge_from e) of None \<Rightarrow> [] | Some out \<Rightarrow> out) @ [ge_to e]) adj)))"

fun relax :: "string list \<Rightarrow> degrees \<Rightarrow> string list \<Rightarrow> graph_error + degrees \<times> string list" where
  "relax [] indegree ready = Inr (indegree, ready)"
| "relax (d # ds) indegree ready =
     and_then (ok_or (bt_get indegree d) CycleIndexLostNode) (\<lambda>degree.
     if degree = 0 then Inl CycleIndexUnderflow
     else relax ds (bt_insert d (degree - 1) indegree)
       (if degree - 1 = 0 then ready @ [d] else ready))"

definition total_degree :: "degrees \<Rightarrow> nat" where
  "total_degree m = (\<Sum>k \<in> fst ` set m. case bt_get m k of None \<Rightarrow> 0 | Some v \<Rightarrow> v)"

lemma total_degree_insert:
  assumes "bt_get m k = Some v"
  shows "total_degree (bt_insert k w m) + v = total_degree m + w"
proof -
  let ?K = "fst ` set m"
  let ?d = "\<lambda>m i. case bt_get m i of None \<Rightarrow> 0 | Some v \<Rightarrow> v"
  have k: "k \<in> ?K" using assms by (metis bt_get_None_iff option.distinct(1))
  then have keys: "fst ` set (bt_insert k w m) = ?K" by (auto simp: fst_set_bt_insert)
  have "total_degree (bt_insert k w m) = w + (\<Sum>i \<in> ?K - {k}. ?d (bt_insert k w m) i)"
    unfolding total_degree_def keys using k by (subst sum.remove [of _ k]) (simp_all add: bt_get_insert)
  also have "(\<Sum>i \<in> ?K - {k}. ?d (bt_insert k w m) i) = (\<Sum>i \<in> ?K - {k}. ?d m i)"
    by (rule sum.cong) (simp_all add: bt_get_insert)
  finally have "total_degree (bt_insert k w m) = w + (\<Sum>i \<in> ?K - {k}. ?d m i)" .
  moreover have "total_degree m = v + (\<Sum>i \<in> ?K - {k}. ?d m i)"
    unfolding total_degree_def using k assms by (subst sum.remove [of _ k]) simp_all
  ultimately show ?thesis by simp
qed

lemma relax_measure:
  "relax ds indegree ready = Inr (indegree', ready') \<Longrightarrow>
     total_degree indegree' + length ready' \<le> total_degree indegree + length ready"
proof (induction ds indegree ready rule: relax.induct)
  case (1 indegree ready)
  then show ?case by simp
next
  case (2 d ds indegree ready)
  from "2.prems" obtain v where v: "bt_get indegree d = Some v" "v \<noteq> 0"
    and rest: "relax ds (bt_insert d (v - 1) indegree) (if v - 1 = 0 then ready @ [d] else ready)
      = Inr (indegree', ready')"
    by (auto simp: result_iffs split: if_splits)
  from "2.IH" [OF _ v(2) rest] v(1) have
    "total_degree indegree' + length ready'
      \<le> total_degree (bt_insert d (v - 1) indegree) + length (if v - 1 = 0 then ready @ [d] else ready)"
    by simp
  with total_degree_insert [OF v(1), of "v - 1"] v(2) show ?case by (simp split: if_splits)
qed

function kahn :: "adjacency \<Rightarrow> degrees \<Rightarrow> string list \<Rightarrow> nat \<Rightarrow> graph_error + nat" where
  "kahn adj indegree [] visited = Inr visited"
| "kahn adj indegree (i # ready) visited =
     and_then (relax (case bt_get adj i of None \<Rightarrow> [] | Some ds \<Rightarrow> ds) indegree ready) (\<lambda>(indegree', ready').
     kahn adj indegree' ready' (visited + 1))"
  by pat_completeness auto
termination
proof (relation "measure (\<lambda>(adj, indegree, ready, visited). total_degree indegree + length ready)")
  fix adj :: adjacency and indegree i ready and visited :: nat and x indegree' ready'
  assume "relax (case bt_get adj i of None \<Rightarrow> [] | Some ds \<Rightarrow> ds) indegree ready = Inr x"
    and "(indegree', ready') = x"
  then have "total_degree indegree' + length ready' \<le> total_degree indegree + length ready"
    using relax_measure by blast
  then show "((adj, indegree', ready', visited + 1), adj, indegree, i # ready, visited)
    \<in> measure (\<lambda>(adj, indegree, ready, visited). total_degree indegree + length ready)"
    by simp
qed simp

definition validate_acyclic_without_loop_backs :: "node_map \<Rightarrow> graph_edge list \<Rightarrow> graph_error + unit" where
  "validate_acyclic_without_loop_backs nodes edges =
     and_then (fold_result count_edge edges (map (\<lambda>(i, _). (i, 0)) nodes, [])) (\<lambda>(indegree, adj).
     and_then (kahn adj indegree (map fst (filter (\<lambda>(_, degree). degree = 0) indegree)) 0) (\<lambda>visited.
     ensure (visited = length nodes) CycleWithoutLoop))"

text \<open>
  Breadth-first exploration along a list of edges; the set of reached nodes is a list without
  repetition.
\<close>

fun explore_edges :: "graph_edge list \<Rightarrow> string list \<Rightarrow> string list \<Rightarrow> string list \<times> string list" where
  "explore_edges [] reached pending = (reached, pending)"
| "explore_edges (e # es) reached pending =
     (if ge_to e \<in> set reached then explore_edges es reached pending
      else explore_edges es (ge_to e # reached) (pending @ [ge_to e]))"

lemma explore_edges_measure:
  assumes "explore_edges es reached pending = (reached', pending')" and "set es \<subseteq> set edges"
  shows "set reached \<subseteq> set reached' \<and>
    card (ge_to ` set edges - set reached') + length pending'
      \<le> card (ge_to ` set edges - set reached) + length pending"
  using assms
proof (induction es reached pending rule: explore_edges.induct)
  case (1 reached pending)
  then show ?case by simp
next
  case (2 e es reached pending)
  show ?case
  proof (cases "ge_to e \<in> set reached")
    case True
    with 2 show ?thesis by simp
  next
    case False
    have "ge_to ` set edges - set (ge_to e # reached) = (ge_to ` set edges - set reached) - {ge_to e}"
      by auto
    moreover have "ge_to e \<in> ge_to ` set edges - set reached" using "2.prems"(2) False by auto
    ultimately have "card (ge_to ` set edges - set (ge_to e # reached)) + 1 = card (ge_to ` set edges - set reached)"
      by (metis List.finite_set Suc_eq_plus1 card_Suc_Diff1 finite_Diff finite_imageI)
    with 2 False show ?thesis by auto
  qed
qed

function explore :: "graph_edge list \<Rightarrow> string list \<Rightarrow> string list \<Rightarrow> string list" where
  "explore edges reached [] = reached"
| "explore edges reached (i # pending) =
     (let (reached', pending') = explore_edges (filter (\<lambda>e. ge_from e = i) edges) reached pending
      in explore edges reached' pending')"
  by pat_completeness auto
termination
proof (relation "measure (\<lambda>(edges, reached, pending). card (ge_to ` set edges - set reached) + length pending)")
  fix edges :: "graph_edge list" and reached i pending x reached' pending'
  assume "x = explore_edges (filter (\<lambda>e. ge_from e = i) edges) reached pending"
    and "(reached', pending') = x"
  then have "explore_edges (filter (\<lambda>e. ge_from e = i) edges) reached pending = (reached', pending')"
    by simp
  from explore_edges_measure [OF this, of edges]
  show "((edges, reached', pending'), edges, reached, i # pending)
    \<in> measure (\<lambda>(edges, reached, pending). card (ge_to ` set edges - set reached) + length pending)"
    by simp
qed simp

definition validate_reachability :: "string \<Rightarrow> node_map \<Rightarrow> graph_edge list \<Rightarrow> graph_error + unit" where
  "validate_reachability entry nodes edges =
     ensure (length (explore edges [entry] [entry]) = length nodes) UnreachableNode"

definition check_loop_body ::
  "(string, string) btree_map \<Rightarrow> graph_edge list \<Rightarrow> string \<Rightarrow> graph_error + unit" where
  "check_loop_body membership edges loop =
     (let reached = explore (filter (\<lambda>e. ge_kind e = LoopBody loop) edges) [loop] [loop] in
      and_then (check_all (\<lambda>member. ensure (member \<in> set reached) LoopBodyUnreachable)
        (map fst (filter (\<lambda>(_, bound). bound = loop) membership))) (\<lambda>_.
      ensure (length (filter (\<lambda>e. ge_kind e = LoopBack loop \<and> ge_from e \<in> set reached) edges) = 1)
        LoopBackCount))"

definition validate_loop_scopes ::
  "(string, u16) btree_map \<Rightarrow> (string, string) btree_map \<Rightarrow> graph_edge list \<Rightarrow> graph_error + unit" where
  "validate_loop_scopes loops membership edges =
     check_all (check_loop_body membership edges) (map fst loops)"

section \<open>The event bound\<close>

definition node_events ::
  "(string, u16) btree_map \<Rightarrow> (string, string) btree_map \<Rightarrow> graph_node \<Rightarrow> usize \<Rightarrow> graph_error + usize" where
  "node_events loops membership n bound =
     and_then
       (case bt_get membership (gn_id n) of
          Some loop \<Rightarrow> and_then (ok_or (bt_get loops loop) EventBoundLostLoop) (\<lambda>m. Inr (ucast m :: usize))
        | None \<Rightarrow> Inr 1) (\<lambda>visits.
     let add = (\<lambda>per_visit.
       and_then (ok_or (checked_mul visits per_visit) NodeEventOverflow) (\<lambda>more.
       ok_or (checked_add bound more) EventBoundOverflow))
     in case gn_kind n of
       Task _ max_attempts \<Rightarrow>
         and_then (ok_or (checked_mul (ucast max_attempts) 3) TaskEventOverflow) add
     | LoopNode max_iterations \<Rightarrow>
         if bt_get membership (gn_id n) \<noteq> None then Inl NestedLoop
         else and_then (ok_or (checked_mul (ucast max_iterations) 2) LoopEventOverflow) (\<lambda>more.
           ok_or (checked_add bound more) EventBoundOverflow)
     | Join _ \<Rightarrow> if bt_get membership (gn_id n) \<noteq> None then Inl JoinInLoopBody else add 2
     | Fork \<Rightarrow> add 1
     | Choice \<Rightarrow> add 1
     | Terminate _ \<Rightarrow> add 1)"

definition worst_case_events ::
  "graph_node list \<Rightarrow> (string, u16) btree_map \<Rightarrow> (string, string) btree_map \<Rightarrow> graph_error + usize" where
  "worst_case_events nodes loops membership = fold_result (node_events loops membership) nodes 1"

definition validate_worst_case_event_bound ::
  "graph_node list \<Rightarrow> (string, u16) btree_map \<Rightarrow> (string, string) btree_map \<Rightarrow> graph_error + unit" where
  "validate_worst_case_event_bound nodes loops membership =
     and_then (worst_case_events nodes loops membership) (\<lambda>bound.
     ensure (\<not> MAX_GRAPH_EVENTS < bound) EventBoundExceeded)"

section \<open>Definitions\<close>

definition validate_edges ::
  "graph_definition \<Rightarrow> node_map \<Rightarrow> node_index \<Rightarrow> graph_error + unit" where
  "validate_edges d nodes ix =
     and_then (ensure (length (remdups (map ge_id (gd_edges d))) = length (gd_edges d)) RepeatedEdge) (\<lambda>_.
     and_then (ensure (length (remdups (map (\<lambda>e. (ge_from e, ge_to e, ge_kind e, ge_condition e))
       (gd_edges d))) = length (gd_edges d)) RepeatedStructuralEdge) (\<lambda>_.
     and_then (index_edges nodes ix (gd_edges d)) (\<lambda>x.
     and_then (check_all (check_loop_scope (ei_membership x)) (gd_edges d)) (\<lambda>_.
     and_then (check_all (check_routes x) (gd_nodes d)) (\<lambda>_.
     and_then (check_all (check_incoming nodes) (ei_incoming x)) (\<lambda>_.
     and_then (check_all (check_join_arrivals (gd_edges d)) (gd_nodes d)) (\<lambda>_.
     and_then (validate_acyclic_without_loop_backs nodes (gd_edges d)) (\<lambda>_.
     and_then (validate_reachability (gd_entry_node_id d) nodes (gd_edges d)) (\<lambda>_.
     and_then (validate_loop_scopes (ni_loops ix) (ei_membership x) (gd_edges d)) (\<lambda>_.
     validate_worst_case_event_bound (gd_nodes d) (ni_loops ix) (ei_membership x)))))))))))"

definition definition_validate :: "graph_definition \<Rightarrow> graph_error + unit" where
  "definition_validate d =
     (let nodes = node_map (gd_nodes d) in
     and_then (ensure (\<not> (gd_nodes d = [] \<or> MAX_GRAPH_NODES < length (gd_nodes d))) NodeCount) (\<lambda>_.
     and_then (ensure (\<not> MAX_GRAPH_EDGES < length (gd_edges d)) EdgeCount) (\<lambda>_.
     and_then (ensure (is_strictly_sorted (map gn_id (gd_nodes d))
       \<and> is_strictly_sorted (map ge_id (gd_edges d))) NotCanonicalOrder) (\<lambda>_.
     and_then (ensure (length nodes = length (gd_nodes d)) RepeatedNode) (\<lambda>_.
     and_then (ensure (bt_get nodes (gd_entry_node_id d) \<noteq> None) UnknownEntry) (\<lambda>_.
     and_then (index_nodes (gd_nodes d)) (\<lambda>ix.
     and_then (ensure (\<not> MAX_GRAPH_BRANCHES < length (ni_branches ix)) BranchCount) (\<lambda>_.
     and_then (ensure (ni_terminations ix \<noteq> 0) NoTermination) (\<lambda>_.
     and_then (check_all (join_branches_known (ni_branches ix)) (gd_nodes d)) (\<lambda>_.
     validate_edges d nodes ix))))))))))"

definition definition_new ::
  "string \<Rightarrow> string \<Rightarrow> graph_node list \<Rightarrow> graph_edge list \<Rightarrow> graph_error + graph_definition" where
  "definition_new graph_id entry nodes edges =
     (let d = \<lparr>gd_graph_id = graph_id, gd_entry_node_id = entry, gd_nodes = nodes, gd_edges = edges\<rparr>
      in and_then (definition_validate d) (\<lambda>_. Inr d))"


section \<open>The cycle check is exact\<close>

text \<open>The edges the cycle check looks at, as pairs of node ids, and all edges as a relation.\<close>

definition flow_pairs :: "graph_edge list \<Rightarrow> (string \<times> string) list" where
  "flow_pairs edges = map (\<lambda>e. (ge_from e, ge_to e)) (filter (\<lambda>e. \<not> is_loop_back (ge_kind e)) edges)"

definition edge_relation :: "graph_edge list \<Rightarrow> (string \<times> string) set" where
  "edge_relation edges = (\<lambda>e. (ge_from e, ge_to e)) ` set edges"

definition pending_in :: "(string \<times> string) list \<Rightarrow> string set \<Rightarrow> string \<Rightarrow> nat" where
  "pending_in E P v = length (filter (\<lambda>(a, b). b = v \<and> a \<notin> P) E)"

definition successors :: "(string \<times> string) list \<Rightarrow> string \<Rightarrow> string list" where
  "successors E i = map snd (filter (\<lambda>(a, _). a = i) E)"

definition degree_map :: "string set \<Rightarrow> (string \<Rightarrow> nat) \<Rightarrow> string \<Rightarrow> nat option" where
  "degree_map V g = (\<lambda>v. if v \<in> V then Some (g v) else None)"

lemma pending_in_insert:
  "i \<notin> P \<Longrightarrow> pending_in E P v = pending_in E (insert i P) v + count_list (successors E i) v"
  by (induction E) (auto simp: pending_in_def successors_def)

lemma pending_in_zero_iff: "pending_in E P v = 0 \<longleftrightarrow> (\<forall>a. (a, v) \<in> set E \<longrightarrow> a \<in> P)"
  by (auto simp: pending_in_def filter_empty_conv)

lemma relax_spec:
  assumes "bt_get m = degree_map V (\<lambda>v. g v + count_list ds v)" and "set ds \<subseteq> V"
    and "P \<union> set ready = {v \<in> V. g v + count_list ds v = 0}" and "P \<inter> set ready = {}" and "distinct ready"
  shows "\<exists>m' ready'. relax ds m ready = Inr (m', ready') \<and> bt_get m' = degree_map V g
    \<and> P \<union> set ready' = {v \<in> V. g v = 0} \<and> P \<inter> set ready' = {} \<and> distinct ready'"
  using assms
proof (induction ds arbitrary: m ready)
  case Nil
  then show ?case by simp
next
  case (Cons d ds)
  let ?k = "g d + count_list ds d"
  let ?r = "if ?k = 0 then ready @ [d] else ready"
  have d: "d \<in> V" "bt_get m d = Some (Suc ?k)" using Cons.prems(1,2) by (auto simp: degree_map_def)
  have fresh: "d \<notin> P \<union> set ready" using Cons.prems(3) by auto
  have "bt_get (bt_insert d ?k m) = degree_map V (\<lambda>v. g v + count_list ds v)"
    using Cons.prems(1) d(1) by (auto simp: bt_get_insert degree_map_def fun_eq_iff)
  moreover have "P \<union> set ?r = {v \<in> V. g v + count_list ds v = 0}"
  proof -
    have "v \<in> P \<union> set ?r \<longleftrightarrow> v \<in> V \<and> g v + count_list ds v = 0" for v
    proof (cases "v = d")
      case True
      with fresh d(1) show ?thesis by auto
    next
      case False
      then have "v \<in> P \<union> set ?r \<longleftrightarrow> v \<in> P \<union> set ready" by auto
      with Cons.prems(3) False show ?thesis by auto
    qed
    then show ?thesis by blast
  qed
  moreover have "P \<inter> set ?r = {}" "distinct ?r" using Cons.prems(4,5) fresh by auto
  ultimately obtain m' ready' where "relax ds (bt_insert d ?k m) ?r = Inr (m', ready')"
    "bt_get m' = degree_map V g" "P \<union> set ready' = {v \<in> V. g v = 0}" "P \<inter> set ready' = {}" "distinct ready'"
    using Cons.IH [of "bt_insert d ?k m" ?r] Cons.prems(2) by auto
  with d(2) show ?case by simp
qed

text \<open>
  A settled set: every edge into it starts in it, at a node of smaller rank.
\<close>

definition settled :: "(string \<times> string) list \<Rightarrow> string set \<Rightarrow> bool" where
  "settled E P \<longleftrightarrow> (\<exists>rank :: string \<Rightarrow> nat. (\<forall>v \<in> P. rank v < card P)
     \<and> (\<forall>(a, b) \<in> set E. b \<in> P \<longrightarrow> a \<in> P \<and> rank a < rank b))"

lemma settled_insert:
  assumes "settled E P" and "finite P" and "i \<notin> P" and "pending_in E P i = 0"
  shows "settled E (insert i P)"
proof -
  from assms(1) obtain rank :: "string \<Rightarrow> nat" where r: "\<forall>v \<in> P. rank v < card P"
    "\<And>a b. (a, b) \<in> set E \<Longrightarrow> b \<in> P \<Longrightarrow> a \<in> P \<and> rank a < rank b"
    by (fastforce simp: settled_def)
  have i: "a \<in> P" if "(a, i) \<in> set E" for a using assms(4) that by (simp add: pending_in_zero_iff)
  have "\<forall>(a, b) \<in> set E. b \<in> insert i P \<longrightarrow> a \<in> insert i P \<and> (rank(i := card P)) a < (rank(i := card P)) b"
    using r i assms(3) by fastforce
  moreover have "\<forall>v \<in> insert i P. (rank(i := card P)) v < card (insert i P)"
    using r(1) assms(2,3) by (auto simp: less_Suc_eq)
  ultimately show ?thesis unfolding settled_def by blast
qed

lemma kahn_spec:
  assumes "bt_get m = degree_map V (pending_in E P)" and "finite V"
    and "\<And>i. (case bt_get adj i of None \<Rightarrow> [] | Some ds \<Rightarrow> ds) = successors E i"
    and "snd ` set E \<subseteq> V" and "P \<union> set ready = {v \<in> V. pending_in E P v = 0}"
    and "P \<inter> set ready = {}" and "distinct ready" and "settled E P"
  shows "\<exists>Q. kahn adj m ready (card P) = Inr (card Q) \<and> Q = {v \<in> V. pending_in E Q v = 0} \<and> settled E Q"
  using assms
proof (induction adj m ready "card P" arbitrary: P rule: kahn.induct)
  case (1 adj m)
  then show ?case by (intro exI [of _ P]) simp
next
  case (2 adj m i ready)
  let ?P = "insert i P"
  have i: "i \<notin> P" "i \<in> V" "pending_in E P i = 0" using "2.prems"(5,6) by auto
  have fin: "finite P" using "2.prems"(2,5) by (auto intro: finite_subset [of _ V])
  have g: "pending_in E P = (\<lambda>v. pending_in E ?P v + count_list (successors E i) v)"
    using pending_in_insert [OF i(1)] by blast
  have "set (successors E i) \<subseteq> V" using "2.prems"(4) by (auto simp: successors_def)
  then obtain m' ready' where r: "relax (successors E i) m ready = Inr (m', ready')"
    "bt_get m' = degree_map V (pending_in E ?P)" "?P \<union> set ready' = {v \<in> V. pending_in E ?P v = 0}"
    "?P \<inter> set ready' = {}" "distinct ready'"
    using relax_spec [of m V "pending_in E ?P" "successors E i" ?P ready] "2.prems"(1,5,6,7)
    unfolding g by auto
  have "\<exists>Q. kahn adj m' ready' (card ?P) = Inr (card Q) \<and> Q = {v \<in> V. pending_in E Q v = 0} \<and> settled E Q"
    using "2.hyps" [of "(m', ready')" m' ready' ?P] r "2.prems"(2,3,4) fin i
      settled_insert [OF "2.prems"(8) fin i(1,3)] by simp
  then show ?case using r(1) "2.prems"(3) fin i(1) by simp
qed

lemma count_edges_spec:
  assumes "bt_get m = degree_map V (pending_in E {})" and "bt_ordered m"
    and "\<And>i. (case bt_get adj i of None \<Rightarrow> [] | Some ds \<Rightarrow> ds) = successors E i"
    and "ge_to ` set edges \<subseteq> V"
  shows "\<exists>m' adj'. fold_result count_edge edges (m, adj) = Inr (m', adj') \<and> bt_ordered m'
    \<and> bt_get m' = degree_map V (pending_in (E @ flow_pairs edges) {})
    \<and> (\<forall>i. (case bt_get adj' i of None \<Rightarrow> [] | Some ds \<Rightarrow> ds) = successors (E @ flow_pairs edges) i)"
  using assms
proof (induction edges arbitrary: m adj E)
  case Nil
  then show ?case by (simp add: flow_pairs_def)
next
  case (Cons e edges)
  show ?case
  proof (cases "is_loop_back (ge_kind e)")
    case True
    then have "flow_pairs (e # edges) = flow_pairs edges" by (simp add: flow_pairs_def)
    with Cons True show ?thesis by (simp add: count_edge_def)
  next
    case False
    let ?E = "E @ [(ge_from e, ge_to e)]"
    let ?out = "case bt_get adj (ge_from e) of None \<Rightarrow> [] | Some ds \<Rightarrow> ds"
    let ?m = "bt_insert (ge_to e) (pending_in E {} (ge_to e) + 1) m"
    let ?a = "bt_insert (ge_from e) (?out @ [ge_to e]) adj"
    have to: "bt_get m (ge_to e) = Some (pending_in E {} (ge_to e))" "ge_to e \<in> V"
      using Cons.prems(1,4) by (auto simp: degree_map_def)
    have "bt_get ?m = degree_map V (pending_in ?E {})"
      using Cons.prems(1) to(2) by (auto simp: bt_get_insert degree_map_def fun_eq_iff pending_in_def)
    moreover have "bt_ordered ?m" using Cons.prems(2) by (rule bt_ordered_insert)
    moreover have "(case bt_get ?a i of None \<Rightarrow> [] | Some ds \<Rightarrow> ds) = successors ?E i" for i
      using Cons.prems(3) [of i] Cons.prems(3) [of "ge_from e"]
      by (cases "i = ge_from e") (simp_all add: bt_get_insert successors_def)
    moreover have "?E @ flow_pairs edges = E @ flow_pairs (e # edges)" using False by (simp add: flow_pairs_def)
    moreover have "count_edge e (m, adj) = Inr (?m, ?a)" using False to(1) by (simp add: count_edge_def)
    ultimately show ?thesis using Cons.IH [of ?m ?E ?a] Cons.prems(4) by simp
  qed
qed

lemma settled_all_acyclic:
  assumes "settled E V" and "snd ` set E \<subseteq> V"
  shows "acyclic (set E)"
proof -
  from assms(1) obtain rank :: "string \<Rightarrow> nat"
    where "\<forall>(a, b) \<in> set E. b \<in> V \<longrightarrow> a \<in> V \<and> rank a < rank b"
    unfolding settled_def by blast
  with assms(2) have "set E \<subseteq> measure rank" by force
  then show ?thesis using acyclic_subset [OF wf_acyclic [OF wf_measure]] by blast
qed

lemma acyclic_all_settled:
  assumes "acyclic (set E)" and "Q = {v \<in> V. pending_in E Q v = 0}" and "fst ` set E \<subseteq> V"
  shows "Q = V"
proof (rule ccontr)
  have Q: "v \<in> Q \<longleftrightarrow> v \<in> V \<and> pending_in E Q v = 0" for v using assms(2) by blast
  assume "Q \<noteq> V"
  with Q obtain x where "x \<in> V - Q" by blast
  moreover have "wf (set E)" using assms(1) by (simp add: finite_acyclic_wf)
  ultimately obtain z where z: "z \<in> V - Q" "\<And>a. (a, z) \<in> set E \<Longrightarrow> a \<notin> V - Q"
    by (metis wfE_min)
  with assms(3) have "\<forall>a. (a, z) \<in> set E \<longrightarrow> a \<in> Q" by force
  with z(1) Q [of z] show False by (simp add: pending_in_zero_iff)
qed

lemma key_set_card: "bt_ordered m \<Longrightarrow> card (fst ` set m) = length m"
  by (metis bt_ordered_distinct distinct_card length_map list.set_map)

definition endpoints_known :: "node_map \<Rightarrow> graph_edge list \<Rightarrow> bool" where
  "endpoints_known nodes edges \<longleftrightarrow>
     list_all (\<lambda>e. bt_get nodes (ge_from e) \<noteq> None \<and> bt_get nodes (ge_to e) \<noteq> None) edges"

lemma endpoints_known_keys:
  "endpoints_known nodes edges \<longleftrightarrow>
     ge_from ` set edges \<subseteq> fst ` set nodes \<and> ge_to ` set edges \<subseteq> fst ` set nodes"
  unfolding endpoints_known_def list_all_iff bt_get_None_iff by blast

lemma acyclic_check_iff:
  assumes "bt_ordered nodes" and "endpoints_known nodes edges"
  shows "validate_acyclic_without_loop_backs nodes edges = Inr () \<longleftrightarrow> acyclic (set (flow_pairs edges))"
proof -
  let ?V = "fst ` set nodes" and ?E = "flow_pairs edges"
  let ?z = "map (\<lambda>(i, _). (i, 0 :: nat)) nodes"
  have ends: "snd ` set ?E \<subseteq> ?V" "fst ` set ?E \<subseteq> ?V" "ge_to ` set edges \<subseteq> ?V"
    using assms(2) by (auto simp: endpoints_known_keys flow_pairs_def)
  have keys: "map fst ?z = map fst nodes" by (simp add: case_prod_unfold comp_def)
  have z: "bt_ordered ?z" using assms(1) unfolding bt_ordered_def keys .
  have "bt_get ?z = degree_map ?V (pending_in [] {})"
    by (induction nodes) (auto simp: bt_get_def degree_map_def pending_in_def fun_eq_iff)
  then obtain m adj where f: "fold_result count_edge edges (?z, []) = Inr (m, adj)" "bt_ordered m"
    "bt_get m = degree_map ?V (pending_in ?E {})"
    "\<And>i. (case bt_get adj i of None \<Rightarrow> [] | Some ds \<Rightarrow> ds) = successors ?E i"
    using count_edges_spec [OF _ z, of ?V "[]" "[]" edges] ends(3) by (auto simp: bt_get_def successors_def)
  let ?ready = "map fst (filter (\<lambda>(_, degree). degree = 0) m)"
  have "set ?ready = {v. bt_get m v = Some 0}" using bt_get_Some_iff [OF f(2)] by force
  then have "{} \<union> set ?ready = {v \<in> ?V. pending_in ?E {} v = 0}"
    unfolding f(3) degree_map_def by auto
  moreover have "{} \<inter> set ?ready = {}" by simp
  moreover have "distinct ?ready" using bt_ordered_distinct [OF bt_ordered_filter [OF f(2)]] .
  moreover have "settled ?E {}" by (simp add: settled_def)
  ultimately have "\<exists>Q. kahn adj m ?ready (card ({} :: string set)) = Inr (card Q)
      \<and> Q = {v \<in> ?V. pending_in ?E Q v = 0} \<and> settled ?E Q"
    by (intro kahn_spec [OF f(3) _ f(4) ends(1)]) (rule finite_imageI [OF finite_set])
  then obtain Q where Q: "kahn adj m ?ready 0 = Inr (card Q)"
    "Q = {v \<in> ?V. pending_in ?E Q v = 0}" "settled ?E Q"
    unfolding card.empty by blast
  have sub: "Q \<subseteq> ?V" using Q(2) by blast
  have "card Q = length nodes \<longleftrightarrow> Q = ?V"
    using card_subset_eq [OF _ sub] key_set_card [OF assms(1)] by auto
  moreover have "Q = ?V \<longleftrightarrow> acyclic (set ?E)"
    using settled_all_acyclic [of ?E ?V] acyclic_all_settled [OF _ Q(2) ends(2)] Q(3) ends(1) by blast
  ultimately show ?thesis
    by (simp add: validate_acyclic_without_loop_backs_def f(1) Q(1) ensure_Inr_iff)
qed

section \<open>The reachability check is exact\<close>

lemma explore_edges_spec:
  "explore_edges es reached pending = (reached', pending') \<Longrightarrow> distinct reached \<Longrightarrow>
     distinct reached' \<and> set reached' = set reached \<union> ge_to ` set es
     \<and> set pending' = set pending \<union> (ge_to ` set es - set reached)"
  by (induction es reached pending rule: explore_edges.induct) (auto split: if_splits)

lemma explore_spec:
  assumes "distinct reached" and "set pending \<subseteq> set reached"
    and "edge_relation edges `` (set reached - set pending) \<subseteq> set reached"
  shows "distinct (explore edges reached pending)
    \<and> set (explore edges reached pending) = (edge_relation edges)\<^sup>* `` set reached"
  using assms
proof (induction edges reached pending rule: explore.induct)
  case (1 edges reached)
  then have "(edge_relation edges)\<^sup>* `` set reached = set reached" by (intro Image_closed_trancl) simp
  with 1 show ?case by simp
next
  case (2 edges reached i pending)
  let ?es = "filter (\<lambda>e. ge_from e = i) edges" and ?r = "edge_relation edges"
  obtain R P where RP: "explore_edges ?es reached pending = (R, P)" by force
  have succ: "ge_to ` set ?es = ?r `` {i}" by (auto simp: edge_relation_def)
  note spec = explore_edges_spec [OF RP "2.prems"(1), unfolded succ]
  have sub: "?r `` (set R - set P) \<subseteq> set R" using spec "2.prems"(3) by auto
  have "distinct (explore edges R P) \<and> set (explore edges R P) = ?r\<^sup>* `` set R"
    using "2.IH" [OF RP [symmetric] refl] spec sub "2.prems"(2) by auto
  moreover have "?r\<^sup>* `` set R = ?r\<^sup>* `` set reached"
  proof -
    have "set R \<subseteq> ?r\<^sup>* `` set reached" using spec "2.prems"(2) by auto
    then have "?r\<^sup>* `` set R \<subseteq> ?r\<^sup>* `` (?r\<^sup>* `` set reached)" by (rule Image_mono [OF order_refl])
    then have "?r\<^sup>* `` set R \<subseteq> ?r\<^sup>* `` set reached"
      by (simp only: relcomp_Image [symmetric] rtrancl_idemp_self_comp)
    with spec show ?thesis by blast
  qed
  ultimately show ?case using RP by simp
qed

lemma reachability_check_iff:
  assumes "bt_ordered nodes" and "endpoints_known nodes edges" and "bt_get nodes entry \<noteq> None"
  shows "validate_reachability entry nodes edges = Inr () \<longleftrightarrow>
    (\<forall>i. bt_get nodes i \<noteq> None \<longrightarrow> (entry, i) \<in> (edge_relation edges)\<^sup>*)"
proof -
  let ?V = "fst ` set nodes" and ?R = "(edge_relation edges)\<^sup>* `` {entry}"
  have x: "distinct (explore edges [entry] [entry])" "set (explore edges [entry] [entry]) = ?R"
    using explore_spec [of "[entry]" "[entry]" edges] by auto
  have "i \<in> ?V" if "(entry, i) \<in> (edge_relation edges)\<^sup>*" for i
    using that assms(2,3) by (induction rule: rtrancl_induct)
      (auto simp: edge_relation_def endpoints_known_keys bt_get_None_iff)
  then have sub: "?R \<subseteq> ?V" by blast
  have "length (explore edges [entry] [entry]) = length nodes \<longleftrightarrow> card ?R = card ?V"
    using x distinct_card [OF x(1)] key_set_card [OF assms(1)] by simp
  also have "\<dots> \<longleftrightarrow> ?R = ?V" using sub card_subset_eq [of ?V ?R] by auto
  also have "\<dots> \<longleftrightarrow> (\<forall>i. bt_get nodes i \<noteq> None \<longrightarrow> (entry, i) \<in> (edge_relation edges)\<^sup>*)"
    using sub unfolding bt_get_None_iff by blast
  finally show ?thesis by (simp add: validate_reachability_def ensure_Inr_iff)
qed

section \<open>Accepted definitions\<close>

lemma check_all_Inr_iff [result_iffs]: "check_all f xs = Inr u \<longleftrightarrow> (\<forall>x \<in> set xs. f x = Inr ())"
  by (induction xs) (auto simp: result_iffs)

lemma bt_ordered_node_map: "bt_ordered (node_map nodes)"
proof -
  have "bt_ordered m \<Longrightarrow> bt_ordered (fold (\<lambda>n. bt_insert (gn_id n) n) nodes m)" for m
    by (induction nodes arbitrary: m) (simp_all add: bt_ordered_insert)
  then show ?thesis by (simp add: node_map_def)
qed

lemma node_map_keys: "fst ` set (node_map nodes) = gn_id ` set nodes"
proof -
  have "fst ` set (fold (\<lambda>n. bt_insert (gn_id n) n) nodes m) = gn_id ` set nodes \<union> fst ` set m" for m
    by (induction nodes arbitrary: m) (auto simp: fst_set_bt_insert)
  then show ?thesis by (simp add: node_map_def)
qed

lemma indexed_endpoints:
  assumes "fold_result (index_edge nodes ix) edges x = Inr y"
  shows "endpoints_known nodes edges"
  using assms
proof (induction edges arbitrary: x)
  case Nil
  then show ?case by (simp add: endpoints_known_def)
next
  case (Cons e edges)
  from Cons.prems obtain z where "index_edge nodes ix e x = Inr z" "fold_result (index_edge nodes ix) edges z = Inr y"
    by (auto simp: result_iffs)
  moreover from this(1) have "bt_get nodes (ge_from e) \<noteq> None \<and> bt_get nodes (ge_to e) \<noteq> None"
    unfolding index_edge_def and_then_Inr_iff ensure_Inr_iff by blast
  ultimately show ?case using Cons.IH by (simp add: endpoints_known_def)
qed

lemma accepted_definition_parts:
  assumes "definition_validate d = Inr ()"
  obtains ix x where "index_nodes (gd_nodes d) = Inr ix"
    and "index_edges (node_map (gd_nodes d)) ix (gd_edges d) = Inr x"
    and "bt_get (node_map (gd_nodes d)) (gd_entry_node_id d) \<noteq> None"
    and "validate_acyclic_without_loop_backs (node_map (gd_nodes d)) (gd_edges d) = Inr ()"
    and "validate_reachability (gd_entry_node_id d) (node_map (gd_nodes d)) (gd_edges d) = Inr ()"
    and "validate_worst_case_event_bound (gd_nodes d) (ni_loops ix) (ei_membership x) = Inr ()"
  using assms unfolding definition_validate_def validate_edges_def Let_def and_then_Inr_iff ensure_Inr_iff
  by (elim exE conjE) simp

definition sample_loop_graph :: graph_definition where
  "sample_loop_graph =
     \<lparr>gd_graph_id = ''g'', gd_entry_node_id = ''loop'',
      gd_nodes = [\<lparr>gn_id = ''body'', gn_kind = Task ''b'' 2\<rparr>,
        \<lparr>gn_id = ''done'', gn_kind = Terminate Term_Success\<rparr>, \<lparr>gn_id = ''loop'', gn_kind = LoopNode 2\<rparr>],
      gd_edges =
        [\<lparr>ge_id = ''e1'', ge_from = ''loop'', ge_to = ''body'', ge_kind = LoopBody ''loop'',
          ge_condition = LoopDecisionIs ''loop'' Loop_Continue\<rparr>,
         \<lparr>ge_id = ''e2'', ge_from = ''body'', ge_to = ''loop'', ge_kind = LoopBack ''loop'', ge_condition = Always\<rparr>,
         \<lparr>ge_id = ''e3'', ge_from = ''loop'', ge_to = ''done'', ge_kind = Forward,
          ge_condition = LoopDecisionIs ''loop'' Loop_Exit\<rparr>]\<rparr>"

lemma sample_loop_graph_accepted: "definition_validate sample_loop_graph = Inr ()"
  by code_simp

text \<open>C26. The queue-based cycle check accepts a graph exactly when the graph without its loop-back
  edges is acyclic, and the breadth-first check accepts it exactly when every node can be reached from
  the entry; both hold for every node map and every list of edges between its nodes.\<close>

theorem graph_checks_exact:
  assumes "bt_ordered nodes" and "endpoints_known nodes edges" and "bt_get nodes entry \<noteq> None"
  shows "(validate_acyclic_without_loop_backs nodes edges = Inr ()
      \<longleftrightarrow> acyclic ((\<lambda>e. (ge_from e, ge_to e)) ` {e \<in> set edges. \<not> is_loop_back (ge_kind e)}))
    \<and> (validate_reachability entry nodes edges = Inr ()
      \<longleftrightarrow> (\<forall>i \<in> fst ` set nodes. (entry, i) \<in> (edge_relation edges)\<^sup>*))"
proof -
  have "set (flow_pairs edges) = (\<lambda>e. (ge_from e, ge_to e)) ` {e \<in> set edges. \<not> is_loop_back (ge_kind e)}"
    by (simp add: flow_pairs_def)
  then show ?thesis
    using acyclic_check_iff [OF assms(1,2)] reachability_check_iff [OF assms]
    unfolding bt_get_None_iff not_not Ball_def by simp
qed

theorem graph_checks_exact_witness:
  "acyclic ((\<lambda>e. (ge_from e, ge_to e)) ` {e \<in> set (gd_edges sample_loop_graph). \<not> is_loop_back (ge_kind e)})
   \<and> (''loop'', ''done'') \<in> (edge_relation (gd_edges sample_loop_graph))\<^sup>*"
proof -
  let ?n = "node_map (gd_nodes sample_loop_graph)" and ?e = "gd_edges sample_loop_graph"
  have "bt_ordered ?n" "endpoints_known ?n ?e" "bt_get ?n ''loop'' \<noteq> None"
    and a: "validate_acyclic_without_loop_backs ?n ?e = Inr ()"
    and r: "validate_reachability ''loop'' ?n ?e = Inr ()" and k: "''done'' \<in> fst ` set ?n"
    by code_simp+
  from graph_checks_exact [OF this(1,2,3)] a r k show ?thesis by blast
qed

end
