(* ===== verification/Graph_Runtime.thy ===== *)
theory Graph_Runtime
  imports Durable_Graph
begin

text \<open>
  The runtime of a durable execution graph: its state, the validation of a state, and the reducer
  that derives a state from a journal of events (\<^verbatim>\<open>src/src/follow_up_queue/graph.rs\<close>, from
  \<^verbatim>\<open>BranchAttemptRecord\<close> on).

  Every handler returns the next state or the message of the failed requirement. The reducer
  validates the state after each event, as the source does.

  The lemmas show that recorded attempts, join results and the termination never change, what a join
  result means, and that a graph whose entry lies in a loop body cannot proceed.
\<close>

section \<open>State\<close>

text \<open>The messages of the runtime, by the name the definitions below use.\<close>

abbreviation (input) NotInitialized :: graph_error where
  "NotInitialized \<equiv> Bail ''durable graph must begin with its definition event''"

abbreviation (input) DefinitionRepeated :: graph_error where
  "DefinitionRepeated \<equiv> Bail ''durable graph definition event cannot repeat''"

abbreviation (input) AlreadyTerminated :: graph_error where
  "AlreadyTerminated \<equiv> Bail ''durable graph cannot transition after explicit termination''"

abbreviation (input) EventHistoryFull :: graph_error where
  "EventHistoryFull \<equiv> Bail ''durable graph transition exceeds its fixed event-history bound''"

abbreviation (input) EventCountOverflow :: graph_error where
  "EventCountOverflow \<equiv> Bail ''durable graph event-history count overflowed''"

abbreviation (input) EmptyJournal :: graph_error where
  "EmptyJournal \<equiv> Bail ''durable graph replay has no definition event''"

abbreviation (input) JournalTooLong :: graph_error where
  "JournalTooLong \<equiv> Bail ''durable graph replay exceeds its fixed event bound''"

abbreviation (input) NoRuntimeState :: graph_error where
  "NoRuntimeState \<equiv> Bail ''durable graph replay produced no runtime state''"

abbreviation (input) BranchHistoryBound :: graph_error where
  "BranchHistoryBound \<equiv> Bail ''durable branch runtime exceeds its attempt or history bound''"

abbreviation (input) AttemptBound :: graph_error where
  "AttemptBound \<equiv> Bail ''durable branch attempt history exceeds a visit attempt bound''"

abbreviation (input) RetryAttemptOverflow :: graph_error where
  "RetryAttemptOverflow \<equiv> Bail ''durable branch retry attempt overflowed''"

abbreviation (input) VisitHistoryOverflow :: graph_error where
  "VisitHistoryOverflow \<equiv> Bail ''durable branch visit history overflowed''"

abbreviation (input) BranchVisitOverflow :: graph_error where
  "BranchVisitOverflow \<equiv> Bail ''durable branch visit overflowed''"

abbreviation (input) AttemptsNotContiguous :: graph_error where
  "AttemptsNotContiguous \<equiv> Bail ''durable branch attempt history is not contiguous by visit''"

abbreviation (input) AttemptsNotFromOne :: graph_error where
  "AttemptsNotFromOne \<equiv> Bail ''durable branch attempt history does not begin at visit one''"

abbreviation (input) RetryableAtBound :: graph_error where
  "RetryableAtBound \<equiv> Bail ''durable branch ends with retryable failure at its hard attempt bound''"

abbreviation (input) InProgressContradicts :: graph_error where
  "InProgressContradicts \<equiv> Bail ''durable branch in-progress attempt is contradictory''"

abbreviation (input) RetryMarkerContradicts :: graph_error where
  "RetryMarkerContradicts \<equiv> Bail ''durable branch retry marker has no matching retryable failure''"

abbreviation (input) QueryUnknownSource :: graph_error where
  "QueryUnknownSource \<equiv> Bail ''durable graph edge query names an unknown source node''"

abbreviation (input) QueryNoRouted :: graph_error where
  "QueryNoRouted \<equiv> Bail ''durable graph edge query source has no routed state''"

abbreviation (input) QueryNotUnrouted :: graph_error where
  "QueryNotUnrouted \<equiv> Bail ''durable graph edge query source is not at an unrouted visit''"

abbreviation (input) ReadinessNotJoin :: graph_error where
  "ReadinessNotJoin \<equiv> Bail ''durable graph fan-in readiness query names a non-join node''"

abbreviation (input) FanInNotJoin :: graph_error where
  "FanInNotJoin \<equiv> Bail ''durable graph fan-in query names a non-join node''"

abbreviation (input) FanInTooEarly :: graph_error where
  "FanInTooEarly \<equiv> Bail ''durable graph fan-in query occurs before every required branch arrives''"

abbreviation (input) FanInNoFrontier :: graph_error where
  "FanInNoFrontier \<equiv> Bail ''durable graph fan-in query has no arrival frontier''"

abbreviation (input) EventCountBound :: graph_error where
  "EventCountBound \<equiv> Bail ''durable graph runtime event history count is out of bounds''"

abbreviation (input) RuntimeIndexMismatch :: graph_error where
  "RuntimeIndexMismatch \<equiv> Bail ''durable graph runtime indexes do not match its definition''"

abbreviation (input) NoVisitEntry :: graph_error where
  "NoVisitEntry \<equiv> Bail ''durable graph runtime has no node-visit entry''"

abbreviation (input) NoRoutedEntry :: graph_error where
  "NoRoutedEntry \<equiv> Bail ''durable graph runtime has no routed-visit entry''"

abbreviation (input) VisitsMalformed :: graph_error where
  "VisitsMalformed \<equiv> Bail ''durable graph runtime node visits are malformed or out of bounds''"

abbreviation (input) FrontierMismatch :: graph_error where
  "FrontierMismatch \<equiv> Bail ''durable graph runtime active frontier contradicts its visit history''"

abbreviation (input) TraversedUnknownEdge :: graph_error where
  "TraversedUnknownEdge \<equiv> Bail ''durable graph runtime traversed an unknown edge''"

abbreviation (input) ZeroTraversal :: graph_error where
  "ZeroTraversal \<equiv> Bail ''durable graph runtime stores a zero-count edge traversal''"

abbreviation (input) ForwardRepeated :: graph_error where
  "ForwardRepeated \<equiv> Bail ''durable graph forward edge repeated''"

abbreviation (input) LoopEdgeLostLoop :: graph_error where
  "LoopEdgeLostLoop \<equiv> Bail ''durable graph loop-scoped edge lost its loop''"

abbreviation (input) LoopEdgeBound :: graph_error where
  "LoopEdgeBound \<equiv> Bail ''durable graph loop-scoped edge exceeds its loop bound''"

abbreviation (input) BranchNotTask :: graph_error where
  "BranchNotTask \<equiv> Bail ''durable graph runtime branch names a non-task node''"

abbreviation (input) BranchBinding :: graph_error where
  "BranchBinding \<equiv> Bail ''durable graph runtime branch binding contradicts its definition''"

abbreviation (input) BranchFrontier :: graph_error where
  "BranchFrontier \<equiv> Bail ''durable graph runtime branch history exceeds its reached visit frontier''"

abbreviation (input) JoinResultNotJoin :: graph_error where
  "JoinResultNotJoin \<equiv> Bail ''durable graph runtime join result names a non-join node''"

abbreviation (input) JoinResultNotDerived :: graph_error where
  "JoinResultNotDerived \<equiv> Bail ''durable graph runtime join result is not derived from its branches''"

abbreviation (input) ArrivalNotJoin :: graph_error where
  "ArrivalNotJoin \<equiv> Bail ''durable graph runtime join arrival names a non-join node''"

abbreviation (input) ArrivalUnrelated :: graph_error where
  "ArrivalUnrelated \<equiv> Bail ''durable graph runtime join arrival names an unrelated branch''"

abbreviation (input) ArrivalContradicts :: graph_error where
  "ArrivalContradicts \<equiv> Bail ''durable graph runtime join arrival contradicts edge traversal history''"

abbreviation (input) LoopStateNotLoop :: graph_error where
  "LoopStateNotLoop \<equiv> Bail ''durable graph runtime loop state names a non-loop node''"

abbreviation (input) LoopExceeded :: graph_error where
  "LoopExceeded \<equiv> Bail ''durable graph runtime loop exceeds its hard bound''"

abbreviation (input) LoopDecisionSequence :: graph_error where
  "LoopDecisionSequence \<equiv> Bail ''durable graph runtime loop decision is out of sequence''"

abbreviation (input) LoopContinuesAtBound :: graph_error where
  "LoopContinuesAtBound \<equiv> Bail ''durable graph runtime continues at its hard loop bound''"

abbreviation (input) RuntimeIncomplete :: graph_error where
  "RuntimeIncomplete \<equiv> Bail ''durable graph runtime branch or loop index is incomplete''"

abbreviation (input) ArrivalIndexIncomplete :: graph_error where
  "ArrivalIndexIncomplete \<equiv> Bail ''durable graph runtime join-arrival index is incomplete''"

abbreviation (input) TerminationProvenance :: graph_error where
  "TerminationProvenance \<equiv> Bail ''durable graph runtime termination provenance is invalid''"

abbreviation (input) AttemptUnknownBranch :: graph_error where
  "AttemptUnknownBranch \<equiv> Bail ''durable graph branch attempt names an unknown branch''"

abbreviation (input) AttemptOutOfOrder :: graph_error where
  "AttemptOutOfOrder \<equiv> Bail ''durable graph branch attempt skips or repeats a visit or attempt number''"

abbreviation (input) AttemptInProgress :: graph_error where
  "AttemptInProgress \<equiv> Bail ''durable graph branch already has an attempt in progress''"

abbreviation (input) InitialAttemptRetry :: graph_error where
  "InitialAttemptRetry \<equiv> Bail ''durable graph initial visit attempt contradicts a retry marker''"

abbreviation (input) RetryNotScheduled :: graph_error where
  "RetryNotScheduled \<equiv> Bail ''durable graph branch retry was not durably scheduled''"

abbreviation (input) BranchNoVisit :: graph_error where
  "BranchNoVisit \<equiv> Bail ''durable graph branch node has no visit state''"

abbreviation (input) BranchNoRouted :: graph_error where
  "BranchNoRouted \<equiv> Bail ''durable graph branch node has no routed-visit state''"

abbreviation (input) AttemptBeforeReached :: graph_error where
  "AttemptBeforeReached \<equiv> Bail ''durable graph branch attempt starts before its task node is reached''"

abbreviation (input) CompletionUnknownBranch :: graph_error where
  "CompletionUnknownBranch \<equiv> Bail ''durable graph branch completion names an unknown branch''"

abbreviation (input) CompletionContradicts :: graph_error where
  "CompletionContradicts \<equiv> Bail ''durable graph branch completion skips, repeats, or contradicts its start''"

abbreviation (input) RetryableReachedBound :: graph_error where
  "RetryableReachedBound \<equiv> Bail ''durable graph retryable failure reached the hard attempt bound''"

abbreviation (input) RetryUnknownBranch :: graph_error where
  "RetryUnknownBranch \<equiv> Bail ''durable graph retry names an unknown branch''"

abbreviation (input) RetryOverlap :: graph_error where
  "RetryOverlap \<equiv> Bail ''durable graph retry transition repeats or overlaps another attempt''"

abbreviation (input) RetryOutOfOrder :: graph_error where
  "RetryOutOfOrder \<equiv> Bail ''durable graph retry skips a visit or attempt or exceeds its hard bound''"

abbreviation (input) RetryWithoutFailure :: graph_error where
  "RetryWithoutFailure \<equiv> Bail ''durable graph retry does not follow a retryable failure''"

abbreviation (input) RetryNotActive :: graph_error where
  "RetryNotActive \<equiv> Bail ''durable graph retry does not belong to the active task visit''"

abbreviation (input) JoinRepeated :: graph_error where
  "JoinRepeated \<equiv> Bail ''durable graph join resolution repeated''"

abbreviation (input) JoinBeforeReached :: graph_error where
  "JoinBeforeReached \<equiv> Bail ''durable graph join resolved before it was reached''"

abbreviation (input) NotJoin :: graph_error where
  "NotJoin \<equiv> Bail ''durable graph join resolution names a non-join node''"

abbreviation (input) NoArrivalFrontier :: graph_error where
  "NoArrivalFrontier \<equiv> Bail ''durable graph join has no arrival frontier''"

abbreviation (input) JoinNotComplete :: graph_error where
  "JoinNotComplete \<equiv> Bail ''durable graph join cannot resolve before every required branch arrives''"

abbreviation (input) JoinResultContradicts :: graph_error where
  "JoinResultContradicts \<equiv> Bail ''durable graph join result contradicts immutable branch outcomes''"

abbreviation (input) LoopBeforeReached :: graph_error where
  "LoopBeforeReached \<equiv> Bail ''durable graph loop decision occurs before the loop is reached''"

abbreviation (input) NotLoop :: graph_error where
  "NotLoop \<equiv> Bail ''durable graph loop decision names a non-loop node''"

abbreviation (input) NoLoopRuntime :: graph_error where
  "NoLoopRuntime \<equiv> Bail ''durable graph loop has no runtime state''"

abbreviation (input) LoopDecisionRepeated :: graph_error where
  "LoopDecisionRepeated \<equiv> Bail ''durable graph loop decision repeats before its route is selected''"

abbreviation (input) LoopIterationOverflow :: graph_error where
  "LoopIterationOverflow \<equiv> Bail ''durable graph loop iteration overflowed''"

abbreviation (input) LoopIterationOrder :: graph_error where
  "LoopIterationOrder \<equiv> Bail ''durable graph loop iteration skips, repeats, or exceeds its bound''"

abbreviation (input) LoopContinueAtBound :: graph_error where
  "LoopContinueAtBound \<equiv> Bail ''durable graph loop cannot continue at its hard iteration bound''"

abbreviation (input) LoopNoVisit :: graph_error where
  "LoopNoVisit \<equiv> Bail ''durable graph loop has no visit state''"

abbreviation (input) LoopVisitMismatch :: graph_error where
  "LoopVisitMismatch \<equiv> Bail ''durable graph loop iteration does not match its durable visit''"

abbreviation (input) SelectionBound :: graph_error where
  "SelectionBound \<equiv> Bail ''durable graph edge selection is empty or exceeds its bound''"

abbreviation (input) SelectionUnknownSource :: graph_error where
  "SelectionUnknownSource \<equiv> Bail ''durable graph edge selection names an unknown source node''"

abbreviation (input) SelectionNoRouted :: graph_error where
  "SelectionNoRouted \<equiv> Bail ''durable graph source node has no routed-visit state''"

abbreviation (input) RoutedOverflow :: graph_error where
  "RoutedOverflow \<equiv> Bail ''durable graph routed-visit count overflowed''"

abbreviation (input) SelectionVisit :: graph_error where
  "SelectionVisit \<equiv> Bail ''durable graph edge selection skips or repeats a source visit''"

abbreviation (input) SelectionMismatch :: graph_error where
  "SelectionMismatch \<equiv> Bail ''durable graph edge selection is partial, repeated, or condition-mismatched''"

abbreviation (input) ForwardTransitionRepeated :: graph_error where
  "ForwardTransitionRepeated \<equiv> Bail ''durable graph forward edge transition repeated''"

abbreviation (input) LoopEdgeNoRuntime :: graph_error where
  "LoopEdgeNoRuntime \<equiv> Bail ''durable graph loop-scoped edge has no loop runtime''"

abbreviation (input) LoopEdgeIteration :: graph_error where
  "LoopEdgeIteration \<equiv> Bail ''durable graph loop-scoped edge skips or repeats an iteration''"

abbreviation (input) TraversalOverflow :: graph_error where
  "TraversalOverflow \<equiv> Bail ''durable graph edge traversal count overflowed''"

abbreviation (input) SourceLostVisit :: graph_error where
  "SourceLostVisit \<equiv> Bail ''durable graph routed source lost its visit state''"

abbreviation (input) NoLoopDecision :: graph_error where
  "NoLoopDecision \<equiv> Bail ''durable graph loop route has no decision''"

abbreviation (input) LoopRouteRepeated :: graph_error where
  "LoopRouteRepeated \<equiv> Bail ''durable graph loop decision route repeated''"

abbreviation (input) TaskNoBranch :: graph_error where
  "TaskNoBranch \<equiv> Bail ''durable graph task has no branch runtime''"

abbreviation (input) TaskNotComplete :: graph_error where
  "TaskNotComplete \<equiv> Bail ''durable graph task routes before its exact attempt completes''"

abbreviation (input) JoinNotResolved :: graph_error where
  "JoinNotResolved \<equiv> Bail ''durable graph join routes before its immutable result is resolved''"

abbreviation (input) LoopNotDecided :: graph_error where
  "LoopNotDecided \<equiv> Bail ''durable graph loop routes before its exact decision is recorded''"

abbreviation (input) TerminationSelects :: graph_error where
  "TerminationSelects \<equiv> Bail ''durable graph termination node cannot select edges''"

abbreviation (input) NoRoute :: graph_error where
  "NoRoute \<equiv> Bail ''durable graph reached a node with no currently valid route''"

abbreviation (input) ConditionLostBranch :: graph_error where
  "ConditionLostBranch \<equiv> Bail ''durable graph edge condition lost its branch runtime''"

abbreviation (input) ConditionLostLoop :: graph_error where
  "ConditionLostLoop \<equiv> Bail ''durable graph edge condition lost its loop runtime''"

abbreviation (input) ArrivalNoFrontier :: graph_error where
  "ArrivalNoFrontier \<equiv> Bail ''durable graph join arrival has no destination frontier''"

abbreviation (input) ArrivalRepeated :: graph_error where
  "ArrivalRepeated \<equiv> Bail ''durable graph join branch arrival repeated''"

abbreviation (input) DestinationNoVisit :: graph_error where
  "DestinationNoVisit \<equiv> Bail ''durable graph destination has no visit state''"

abbreviation (input) LoopVisitOverflow :: graph_error where
  "LoopVisitOverflow \<equiv> Bail ''durable graph loop visit count overflowed''"

abbreviation (input) ForwardReachesAgain :: graph_error where
  "ForwardReachesAgain \<equiv> Bail ''durable graph forward transition repeats a reached node''"

abbreviation (input) NodeVisitOverflow :: graph_error where
  "NodeVisitOverflow \<equiv> Bail ''durable graph node visit count overflowed''"

abbreviation (input) VisitBound :: graph_error where
  "VisitBound \<equiv> Bail ''durable graph node visit count exceeds its fixed bound''"

abbreviation (input) TerminationBeforeReached :: graph_error where
  "TerminationBeforeReached \<equiv> Bail ''durable graph terminates before its termination node is reached''"

abbreviation (input) NotTermination :: graph_error where
  "NotTermination \<equiv> Bail ''durable graph termination event names a non-termination node''"

abbreviation (input) TerminationOutcome :: graph_error where
  "TerminationOutcome \<equiv> Bail ''durable graph termination outcome contradicts its definition''"

abbreviation (input) StillActive :: graph_error where
  "StillActive \<equiv> Bail ''durable graph cannot terminate while another graph visit remains active''"

abbreviation (input) TerminationLostVisit :: graph_error where
  "TerminationLostVisit \<equiv> Bail ''durable graph termination node lost its visit state''"

abbreviation (input) JoinLostBranch :: graph_error where
  "JoinLostBranch \<equiv> Bail ''durable graph join lost a required branch''"

abbreviation (input) JoinBranchNoVisit :: graph_error where
  "JoinBranchNoVisit \<equiv> Bail ''durable graph join branch lost its visit state''"

abbreviation (input) JoinBranchNoRouted :: graph_error where
  "JoinBranchNoRouted \<equiv> Bail ''durable graph join branch lost its routed state''"

abbreviation (input) BranchNotSettled :: graph_error where
  "BranchNotSettled \<equiv> Bail ''durable graph join cannot resolve while a branch is retryable or in progress''"

record attempt_record =
  at_visit :: u16
  at_attempt :: u16
  at_outcome :: branch_outcome

record attempt_cursor =
  ac_visit :: u16
  ac_attempt :: u16

record branch_runtime =
  gb_node_id :: string
  gb_max_attempts :: u16
  gb_attempts :: "attempt_record list"
  gb_attempt_in_progress :: "attempt_cursor option"
  gb_retry_scheduled :: "attempt_cursor option"

record loop_decision_record =
  ld_iteration :: u16
  ld_decision :: loop_decision
  ld_routed :: bool

record loop_runtime =
  lr_completed_iterations :: u16
  lr_current_decision :: "loop_decision_record option"

record termination_record =
  tm_node_id :: string
  tm_outcome :: graph_termination

record graph_state =
  gs_definition :: graph_definition
  gs_event_count :: usize
  gs_node_visits :: "(string, u16) btree_map"
  gs_routed_visits :: "(string, u16) btree_map"
  gs_active_nodes :: "string list"
  gs_edge_traversals :: "(string, u16) btree_map"
  gs_branches :: "(string, branch_runtime) btree_map"
  gs_joins :: "(string, fan_in_result) btree_map"
  gs_join_arrivals :: "(string, string list) btree_map"
  gs_loops :: "(string, loop_runtime) btree_map"
  gs_termination :: "termination_record option"

datatype graph_event =
    GraphDefined graph_definition
  | BranchAttemptStarted string u16 u16
  | BranchAttemptCompleted string u16 u16 branch_outcome
  | BranchRetryScheduled string u16 u16
  | JoinResolved string fan_in_result
  | LoopIterationCompleted string u16 loop_decision
  | EdgesSelected string u16 "string list"
  | GraphTerminated string graph_termination

fun event_phase :: "graph_event \<Rightarrow> string" where
  "event_phase (GraphDefined _) = ''graph_defined''"
| "event_phase (BranchAttemptStarted _ _ _) = ''graph_branch_attempt_started''"
| "event_phase (BranchAttemptCompleted _ _ _ _) = ''graph_branch_attempt_completed''"
| "event_phase (BranchRetryScheduled _ _ _) = ''graph_branch_retry_scheduled''"
| "event_phase (JoinResolved _ _) = ''graph_join_resolved''"
| "event_phase (LoopIterationCompleted _ _ _) = ''graph_loop_iteration_completed''"
| "event_phase (EdgesSelected _ _ _) = ''graph_edges_selected''"
| "event_phase (GraphTerminated _ _) = ''graph_terminated''"

fun event_subject :: "graph_event \<Rightarrow> string option" where
  "event_subject (GraphDefined _) = None"
| "event_subject (BranchAttemptStarted branch _ _) = Some branch"
| "event_subject (BranchAttemptCompleted branch _ _ _) = Some branch"
| "event_subject (BranchRetryScheduled branch _ _) = Some branch"
| "event_subject (JoinResolved node _) = Some node"
| "event_subject (LoopIterationCompleted node _ _) = Some node"
| "event_subject (EdgesSelected node _ _) = Some node"
| "event_subject (GraphTerminated node _) = Some node"

section \<open>Branches\<close>

fun is_retryable :: "branch_outcome \<Rightarrow> bool" where
  "is_retryable (Out_RetryableFailure _) = True"
| "is_retryable _ = False"

fun success_of :: "branch_outcome \<Rightarrow> branch_success option" where
  "success_of (Out_Success s) = Some s"
| "success_of _ = None"

definition last_attempt :: "branch_runtime \<Rightarrow> attempt_record option" where
  "last_attempt b = (if gb_attempts b = [] then None else Some (last (gb_attempts b)))"

definition successful_outcome :: "branch_runtime \<Rightarrow> branch_success option" where
  "successful_outcome b = Option.bind (last_attempt b) (\<lambda>a. success_of (at_outcome a))"

definition is_terminal_for_visit :: "branch_runtime \<Rightarrow> u16 \<Rightarrow> bool" where
  "is_terminal_for_visit b visit \<longleftrightarrow>
     gb_attempt_in_progress b = None \<and> gb_retry_scheduled b = None
     \<and> (case last_attempt b of None \<Rightarrow> False
        | Some a \<Rightarrow> at_visit a = visit \<and> \<not> is_retryable (at_outcome a))"

definition route_class_for_visit :: "branch_runtime \<Rightarrow> u16 \<Rightarrow> outcome_class option" where
  "route_class_for_visit b visit =
     (if gb_attempt_in_progress b \<noteq> None \<or> gb_retry_scheduled b \<noteq> None then None
      else case last_attempt b of None \<Rightarrow> None
      | Some a \<Rightarrow> if at_visit a = visit then Some (class_of_outcome (at_outcome a)) else None)"

definition next_attempt_cursor :: "attempt_record list \<Rightarrow> graph_error + attempt_cursor" where
  "next_attempt_cursor attempts =
     (if attempts = [] then Inr \<lparr>ac_visit = 1, ac_attempt = 1\<rparr>
      else let previous = last attempts in
        if is_retryable (at_outcome previous)
        then and_then (ok_or (checked_add (at_attempt previous) 1) RetryAttemptOverflow) (\<lambda>attempt.
          Inr \<lparr>ac_visit = at_visit previous, ac_attempt = attempt\<rparr>)
        else and_then (ok_or (checked_add (at_visit previous) 1) BranchVisitOverflow) (\<lambda>visit.
          Inr \<lparr>ac_visit = visit, ac_attempt = 1\<rparr>))"

definition expected_cursor :: "attempt_record \<Rightarrow> graph_error + attempt_cursor" where
  "expected_cursor previous =
     (if is_retryable (at_outcome previous)
      then and_then (ok_or (checked_add (at_attempt previous) 1) RetryAttemptOverflow) (\<lambda>attempt.
        Inr \<lparr>ac_visit = at_visit previous, ac_attempt = attempt\<rparr>)
      else and_then (ok_or (checked_add (at_visit previous) 1) VisitHistoryOverflow) (\<lambda>visit.
        Inr \<lparr>ac_visit = visit, ac_attempt = 1\<rparr>))"

fun validate_attempts :: "u16 \<Rightarrow> attempt_record option \<Rightarrow> attempt_record list \<Rightarrow> graph_error + unit" where
  "validate_attempts max_attempts previous [] = Inr ()"
| "validate_attempts max_attempts previous (a # attempts) =
     and_then (ensure (\<not> (at_visit a = 0 \<or> at_attempt a = 0 \<or> max_attempts < at_attempt a))
       AttemptBound) (\<lambda>_.
     and_then (outcome_validate (at_outcome a)) (\<lambda>_.
     and_then
       (case previous of
          Some p \<Rightarrow> and_then (expected_cursor p) (\<lambda>expected.
            ensure (at_visit a = ac_visit expected \<and> at_attempt a = ac_attempt expected)
              AttemptsNotContiguous)
        | None \<Rightarrow> ensure (at_visit a = 1 \<and> at_attempt a = 1) AttemptsNotFromOne) (\<lambda>_.
     validate_attempts max_attempts (Some a) attempts)))"

definition branch_validate :: "branch_runtime \<Rightarrow> graph_error + unit" where
  "branch_validate b =
     and_then (ensure (\<not> (gb_max_attempts b = 0 \<or> MAX_BRANCH_ATTEMPTS < gb_max_attempts b
       \<or> MAX_BRANCH_HISTORY_RECORDS < length (gb_attempts b))) BranchHistoryBound) (\<lambda>_.
     and_then (validate_attempts (gb_max_attempts b) None (gb_attempts b)) (\<lambda>_.
     and_then (ensure (\<not> (case last_attempt b of None \<Rightarrow> False
       | Some a \<Rightarrow> is_retryable (at_outcome a) \<and> at_attempt a = gb_max_attempts b)) RetryableAtBound) (\<lambda>_.
     and_then
       (case gb_attempt_in_progress b of None \<Rightarrow> Inr ()
        | Some in_progress \<Rightarrow> and_then (next_attempt_cursor (gb_attempts b)) (\<lambda>expected.
            ensure (\<not> (in_progress \<noteq> expected \<or> gb_max_attempts b < ac_attempt in_progress
              \<or> gb_retry_scheduled b \<noteq> None)) InProgressContradicts)) (\<lambda>_.
     case gb_retry_scheduled b of None \<Rightarrow> Inr ()
     | Some retry \<Rightarrow>
         if gb_attempt_in_progress b \<noteq> None then Inl RetryMarkerContradicts
         else and_then (next_attempt_cursor (gb_attempts b)) (\<lambda>expected.
           ensure (retry = expected \<and> (case last_attempt b of None \<Rightarrow> False
             | Some a \<Rightarrow> is_retryable (at_outcome a))) RetryMarkerContradicts)))))"

section \<open>Queries\<close>

definition visits_of :: "graph_state \<Rightarrow> string \<Rightarrow> u16" where
  "visits_of s i = (case bt_get (gs_node_visits s) i of None \<Rightarrow> 0 | Some v \<Rightarrow> v)"

definition routed_of :: "graph_state \<Rightarrow> string \<Rightarrow> u16" where
  "routed_of s i = (case bt_get (gs_routed_visits s) i of None \<Rightarrow> 0 | Some v \<Rightarrow> v)"

definition traversals_of :: "graph_state \<Rightarrow> string \<Rightarrow> u16" where
  "traversals_of s i = (case bt_get (gs_edge_traversals s) i of None \<Rightarrow> 0 | Some v \<Rightarrow> v)"

definition graph_reached :: "graph_state \<Rightarrow> string \<Rightarrow> bool" where
  "graph_reached s i \<longleftrightarrow> 0 < visits_of s i"

definition loop_iterations :: "graph_state \<Rightarrow> string \<Rightarrow> u16 option" where
  "loop_iterations s i = map_option lr_completed_iterations (bt_get (gs_loops s) i)"

definition state_termination :: "graph_state \<Rightarrow> graph_termination option" where
  "state_termination s = map_option tm_outcome (gs_termination s)"

definition condition_matches :: "graph_state \<Rightarrow> edge_condition \<Rightarrow> graph_error + bool" where
  "condition_matches s c =
     (case c of
        Always \<Rightarrow> Inr True
      | BranchLatestOutcome branch outcome \<Rightarrow>
          and_then (ok_or (bt_get (gs_branches s) branch) ConditionLostBranch) (\<lambda>b.
          Inr (route_class_for_visit b (visits_of s (gb_node_id b)) = Some outcome))
      | JoinResult join result \<Rightarrow> Inr (bt_get (gs_joins s) join = Some result)
      | LoopDecisionIs loop decision \<Rightarrow>
          and_then (ok_or (bt_get (gs_loops s) loop) ConditionLostLoop) (\<lambda>runtime.
          Inr (case lr_current_decision runtime of None \<Rightarrow> False
            | Some r \<Rightarrow> \<not> ld_routed r \<and> ld_decision r = decision)))"

fun eligible_among :: "graph_state \<Rightarrow> graph_edge list \<Rightarrow> graph_error + string list" where
  "eligible_among s [] = Inr []"
| "eligible_among s (e # es) =
     and_then (condition_matches s (ge_condition e)) (\<lambda>matches.
     and_then (eligible_among s es) (\<lambda>rest. Inr (if matches then ge_id e # rest else rest)))"

definition compute_eligible_edge_ids :: "graph_state \<Rightarrow> string \<Rightarrow> graph_error + string list" where
  "compute_eligible_edge_ids s source =
     and_then (eligible_among s (filter (\<lambda>e. ge_from e = source) (gd_edges (gs_definition s)))) (\<lambda>ids.
     and_then (ensure (sort ids \<noteq> []) NoRoute) (\<lambda>_. Inr (sort ids)))"

definition ensure_source_visit_complete :: "graph_state \<Rightarrow> string \<Rightarrow> u16 \<Rightarrow> graph_error + unit" where
  "ensure_source_visit_complete s source visit =
     and_then (find_node (gs_definition s) source) (\<lambda>n.
     case gn_kind n of
       Task branch _ \<Rightarrow>
         and_then (ok_or (bt_get (gs_branches s) branch) TaskNoBranch) (\<lambda>b.
         ensure (is_terminal_for_visit b visit) TaskNotComplete)
     | Join _ \<Rightarrow> ensure (visit = 1 \<and> bt_get (gs_joins s) source \<noteq> None) JoinNotResolved
     | LoopNode _ \<Rightarrow>
         and_then (ok_or (bt_get (gs_loops s) source) NoLoopRuntime) (\<lambda>runtime.
         ensure (case lr_current_decision runtime of None \<Rightarrow> False
           | Some r \<Rightarrow> ld_iteration r = visit \<and> \<not> ld_routed r) LoopNotDecided)
     | Terminate _ \<Rightarrow> Inl TerminationSelects
     | Fork \<Rightarrow> Inr ()
     | Choice \<Rightarrow> Inr ())"

definition eligible_edge_ids :: "graph_state \<Rightarrow> string \<Rightarrow> graph_error + string list" where
  "eligible_edge_ids s source =
     and_then (ok_or (bt_get (gs_node_visits s) source) QueryUnknownSource) (\<lambda>visit.
     and_then (ok_or (bt_get (gs_routed_visits s) source) QueryNoRouted) (\<lambda>routed.
     and_then (ensure (checked_add routed 1 = Some visit) QueryNotUnrouted) (\<lambda>_.
     and_then (ensure_source_visit_complete s source visit) (\<lambda>_.
     compute_eligible_edge_ids s source))))"

definition join_arrivals_complete :: "graph_state \<Rightarrow> string \<Rightarrow> string list \<Rightarrow> graph_error + bool" where
  "join_arrivals_complete s join branches =
     and_then (ok_or (bt_get (gs_join_arrivals s) join) FanInNoFrontier) (\<lambda>arrivals.
     Inr (arrivals = btree_set branches))"

definition count_success :: "graph_state \<Rightarrow> string \<Rightarrow> nat \<Rightarrow> graph_error + nat" where
  "count_success s branch successes =
     and_then (ok_or (bt_get (gs_branches s) branch) JoinLostBranch) (\<lambda>b.
     and_then (ok_or (bt_get (gs_node_visits s) (gb_node_id b)) JoinBranchNoVisit) (\<lambda>visit.
     and_then (ok_or (bt_get (gs_routed_visits s) (gb_node_id b)) JoinBranchNoRouted) (\<lambda>routed.
     and_then (ensure (is_terminal_for_visit b visit \<and> routed = visit) BranchNotSettled) (\<lambda>_.
     Inr (if successful_outcome b \<noteq> None then successes + 1 else successes)))))"

definition derive_fan_in_result :: "graph_state \<Rightarrow> string list \<Rightarrow> graph_error + fan_in_result" where
  "derive_fan_in_result s branches =
     and_then (fold_result (count_success s) branches 0) (\<lambda>successes.
     Inr (if successes = length branches then FanIn_AllSuccess
       else if successes = 0 then FanIn_Failure
       else FanIn_PartialSuccess))"

definition join_ready :: "graph_state \<Rightarrow> string \<Rightarrow> graph_error + bool" where
  "join_ready s join =
     and_then (find_node (gs_definition s) join) (\<lambda>n.
     case gn_kind n of
       Join branches \<Rightarrow> join_arrivals_complete s join branches
     | _ \<Rightarrow> Inl ReadinessNotJoin)"

definition expected_join_result :: "graph_state \<Rightarrow> string \<Rightarrow> graph_error + fan_in_result" where
  "expected_join_result s join =
     and_then (find_node (gs_definition s) join) (\<lambda>n.
     case gn_kind n of
       Join branches \<Rightarrow>
         and_then (join_arrivals_complete s join branches) (\<lambda>complete.
         and_then (ensure complete FanInTooEarly) (\<lambda>_.
         derive_fan_in_result s branches))
     | _ \<Rightarrow> Inl FanInNotJoin)"

section \<open>State validation\<close>

definition check_visits :: "graph_state \<Rightarrow> graph_node \<Rightarrow> string list \<Rightarrow> graph_error + string list" where
  "check_visits s n active =
     and_then (ok_or (bt_get (gs_node_visits s) (gn_id n)) NoVisitEntry) (\<lambda>visits.
     and_then (ok_or (bt_get (gs_routed_visits s) (gn_id n)) NoRoutedEntry) (\<lambda>routed.
     and_then (ensure (\<not> (MAX_NODE_VISITS < visits \<or> visits < routed)) VisitsMalformed) (\<lambda>_.
     Inr (if routed < visits then btree_set (gn_id n # active) else active))))"

definition check_traversal :: "graph_state \<Rightarrow> graph_edge \<Rightarrow> graph_error + unit" where
  "check_traversal s e =
     (let traversals = traversals_of s (ge_id e) in
     and_then (ensure (\<not> (bt_get (gs_edge_traversals s) (ge_id e) \<noteq> None \<and> traversals = 0))
       ZeroTraversal) (\<lambda>_.
     case ge_kind e of
       Forward \<Rightarrow> ensure (\<not> 1 < traversals) ForwardRepeated
     | JoinArrival _ \<Rightarrow> ensure (\<not> 1 < traversals) ForwardRepeated
     | LoopBody loop \<Rightarrow>
         and_then (find_node (gs_definition s) loop) (\<lambda>n.
         case gn_kind n of LoopNode m \<Rightarrow> ensure (\<not> m < traversals) LoopEdgeBound | _ \<Rightarrow> Inl LoopEdgeLostLoop)
     | LoopBack loop \<Rightarrow>
         and_then (find_node (gs_definition s) loop) (\<lambda>n.
         case gn_kind n of LoopNode m \<Rightarrow> ensure (\<not> m < traversals) LoopEdgeBound | _ \<Rightarrow> Inl LoopEdgeLostLoop)))"

definition branch_frontier_ok :: "branch_runtime \<Rightarrow> u16 \<Rightarrow> u16 \<Rightarrow> bool" where
  "branch_frontier_ok b visits routed \<longleftrightarrow>
     (let last_visit = (case last_attempt b of None \<Rightarrow> 0 | Some a \<Rightarrow> at_visit a) in
      \<not> (visits < last_visit
         \<or> saturating_add last_visit 1 < visits
         \<or> last_visit < routed
         \<or> (case checked_add routed 1 of None \<Rightarrow> True | Some n \<Rightarrow> n < visits)
         \<or> (case gb_attempt_in_progress b of None \<Rightarrow> False
            | Some c \<Rightarrow> ac_visit c \<noteq> visits \<or> visits \<le> routed)
         \<or> (case gb_retry_scheduled b of None \<Rightarrow> False
            | Some c \<Rightarrow> ac_visit c \<noteq> visits \<or> visits \<le> routed)))"

definition check_branch :: "graph_state \<Rightarrow> string \<times> branch_runtime \<Rightarrow> graph_error + unit" where
  "check_branch s kb =
     (case kb of (branch, b) \<Rightarrow>
     and_then (branch_validate b) (\<lambda>_.
     and_then (find_node (gs_definition s) (gb_node_id b)) (\<lambda>n.
     case gn_kind n of
       Task expected max_attempts \<Rightarrow>
         and_then (ensure (\<not> (branch \<noteq> expected \<or> gb_max_attempts b \<noteq> max_attempts)) BranchBinding) (\<lambda>_.
         ensure (branch_frontier_ok b (visits_of s (gb_node_id b)) (routed_of s (gb_node_id b)))
           BranchFrontier)
     | _ \<Rightarrow> Inl BranchNotTask)))"

definition check_join :: "graph_state \<Rightarrow> string \<times> fan_in_result \<Rightarrow> graph_error + unit" where
  "check_join s kr =
     (case kr of (i, result) \<Rightarrow>
     and_then (find_node (gs_definition s) i) (\<lambda>n.
     case gn_kind n of
       Join branches \<Rightarrow>
         if bt_get (gs_join_arrivals s) i \<noteq> Some (btree_set branches) then Inl JoinResultNotDerived
         else and_then (derive_fan_in_result s branches) (\<lambda>derived.
           ensure (derived = result) JoinResultNotDerived)
     | _ \<Rightarrow> Inl JoinResultNotJoin))"

definition check_arrivals :: "graph_state \<Rightarrow> string \<times> string list \<Rightarrow> graph_error + unit" where
  "check_arrivals s ka =
     (case ka of (i, arrivals) \<Rightarrow>
     and_then (find_node (gs_definition s) i) (\<lambda>n.
     case gn_kind n of
       Join branches \<Rightarrow> ensure (set arrivals \<subseteq> set branches) ArrivalUnrelated
     | _ \<Rightarrow> Inl ArrivalNotJoin))"

definition check_arrival_edge :: "graph_state \<Rightarrow> graph_edge \<Rightarrow> graph_error + unit" where
  "check_arrival_edge s e =
     (case ge_kind e of
        JoinArrival branch \<Rightarrow>
          (let traversed = (traversals_of s (ge_id e) = 1);
               arrived = (case bt_get (gs_join_arrivals s) (ge_to e) of None \<Rightarrow> False
                 | Some arrivals \<Rightarrow> branch \<in> set arrivals)
           in ensure (traversed = arrived) ArrivalContradicts)
      | _ \<Rightarrow> Inr ())"

definition check_loop :: "graph_state \<Rightarrow> string \<times> loop_runtime \<Rightarrow> graph_error + unit" where
  "check_loop s kl =
     (case kl of (i, runtime) \<Rightarrow>
     and_then (find_node (gs_definition s) i) (\<lambda>n.
     case gn_kind n of
       LoopNode max_iterations \<Rightarrow>
         and_then (ensure (\<not> max_iterations < lr_completed_iterations runtime) LoopExceeded) (\<lambda>_.
         case lr_current_decision runtime of None \<Rightarrow> Inr ()
         | Some r \<Rightarrow>
             and_then (ensure (ld_iteration r = lr_completed_iterations runtime) LoopDecisionSequence) (\<lambda>_.
             ensure (\<not> (ld_decision r = Loop_Continue \<and> max_iterations \<le> ld_iteration r))
               LoopContinuesAtBound))
     | _ \<Rightarrow> Inl LoopStateNotLoop))"

fun is_task :: "node_kind \<Rightarrow> bool" where
  "is_task (Task _ _) = True" | "is_task _ = False"

fun is_loop :: "node_kind \<Rightarrow> bool" where
  "is_loop (LoopNode _) = True" | "is_loop _ = False"

fun is_join :: "node_kind \<Rightarrow> bool" where
  "is_join (Join _) = True" | "is_join _ = False"

definition check_termination :: "graph_state \<Rightarrow> graph_error + unit" where
  "check_termination s =
     (case gs_termination s of None \<Rightarrow> Inr ()
      | Some t \<Rightarrow>
          and_then (find_node (gs_definition s) (tm_node_id t)) (\<lambda>n.
          ensure (gn_kind n = Terminate (tm_outcome t)
            \<and> bt_get (gs_node_visits s) (tm_node_id t) = bt_get (gs_routed_visits s) (tm_node_id t)
            \<and> gs_active_nodes s = []) TerminationProvenance))"

definition runtime_validate :: "graph_state \<Rightarrow> graph_error + unit" where
  "runtime_validate s =
     (let d = gs_definition s; count = (\<lambda>P. length (filter (\<lambda>n. P (gn_kind n)) (gd_nodes d))) in
     and_then (definition_validate d) (\<lambda>_.
     and_then (ensure (\<not> (gs_event_count s = 0 \<or> MAX_GRAPH_EVENTS < gs_event_count s)) EventCountBound) (\<lambda>_.
     and_then (ensure (\<not> (length (gs_node_visits s) \<noteq> length (gd_nodes d)
       \<or> length (gs_routed_visits s) \<noteq> length (gd_nodes d)
       \<or> length (gd_edges d) < length (gs_edge_traversals s))) RuntimeIndexMismatch) (\<lambda>_.
     and_then (fold_result (check_visits s) (gd_nodes d) []) (\<lambda>expected_active.
     and_then (ensure (gs_active_nodes s = expected_active) FrontierMismatch) (\<lambda>_.
     and_then (check_all (\<lambda>i. ensure (list_ex (\<lambda>e. ge_id e = i) (gd_edges d)) TraversedUnknownEdge)
       (map fst (gs_edge_traversals s))) (\<lambda>_.
     and_then (check_all (check_traversal s) (gd_edges d)) (\<lambda>_.
     and_then (check_all (check_branch s) (gs_branches s)) (\<lambda>_.
     and_then (check_all (check_join s) (gs_joins s)) (\<lambda>_.
     and_then (check_all (check_arrivals s) (gs_join_arrivals s)) (\<lambda>_.
     and_then (check_all (check_arrival_edge s) (gd_edges d)) (\<lambda>_.
     and_then (check_all (check_loop s) (gs_loops s)) (\<lambda>_.
     and_then (ensure (length (gs_branches s) = count is_task \<and> length (gs_loops s) = count is_loop)
       RuntimeIncomplete) (\<lambda>_.
     and_then (ensure (length (gs_join_arrivals s) = count is_join) ArrivalIndexIncomplete) (\<lambda>_.
     check_termination s)))))))))))))))"

section \<open>Handlers\<close>

definition start_branch_attempt ::
  "graph_state \<Rightarrow> string \<Rightarrow> u16 \<Rightarrow> u16 \<Rightarrow> graph_error + graph_state" where
  "start_branch_attempt s branch visit attempt =
     and_then (ok_or (bt_get (gs_branches s) branch) AttemptUnknownBranch) (\<lambda>b.
     let observed = \<lparr>ac_visit = visit, ac_attempt = attempt\<rparr> in
     and_then (next_attempt_cursor (gb_attempts b)) (\<lambda>expected.
     and_then (ensure (\<not> (observed \<noteq> expected \<or> attempt = 0 \<or> gb_max_attempts b < attempt))
       AttemptOutOfOrder) (\<lambda>_.
     and_then (ensure (gb_attempt_in_progress b = None) AttemptInProgress) (\<lambda>_.
     and_then (ensure (\<not> (attempt = 1 \<and> gb_retry_scheduled b \<noteq> None)) InitialAttemptRetry) (\<lambda>_.
     and_then (ensure (\<not> (1 < attempt \<and> gb_retry_scheduled b \<noteq> Some observed)) RetryNotScheduled) (\<lambda>_.
     and_then (ok_or (bt_get (gs_node_visits s) (gb_node_id b)) BranchNoVisit) (\<lambda>visits.
     and_then (ok_or (bt_get (gs_routed_visits s) (gb_node_id b)) BranchNoRouted) (\<lambda>routed.
     and_then (ensure (\<not> (visits \<noteq> visit \<or> checked_add routed 1 \<noteq> Some visit)) AttemptBeforeReached) (\<lambda>_.
     Inr (s\<lparr>gs_branches := bt_insert branch
       (b\<lparr>gb_retry_scheduled := None, gb_attempt_in_progress := Some observed\<rparr>) (gs_branches s)\<rparr>))))))))))"

definition complete_branch_attempt ::
  "graph_state \<Rightarrow> string \<Rightarrow> u16 \<Rightarrow> u16 \<Rightarrow> branch_outcome \<Rightarrow> graph_error + graph_state" where
  "complete_branch_attempt s branch visit attempt outcome =
     and_then (outcome_validate outcome) (\<lambda>_.
     and_then (ok_or (bt_get (gs_branches s) branch) CompletionUnknownBranch) (\<lambda>b.
     and_then (ensure (gb_attempt_in_progress b = Some \<lparr>ac_visit = visit, ac_attempt = attempt\<rparr>)
       CompletionContradicts) (\<lambda>_.
     and_then (ensure (\<not> (is_retryable outcome \<and> gb_max_attempts b \<le> attempt)) RetryableReachedBound) (\<lambda>_.
     Inr (s\<lparr>gs_branches := bt_insert branch
       (b\<lparr>gb_attempts := gb_attempts b
            @ [\<lparr>at_visit = visit, at_attempt = attempt, at_outcome = outcome\<rparr>],
          gb_attempt_in_progress := None\<rparr>) (gs_branches s)\<rparr>)))))"

definition schedule_branch_retry ::
  "graph_state \<Rightarrow> string \<Rightarrow> u16 \<Rightarrow> u16 \<Rightarrow> graph_error + graph_state" where
  "schedule_branch_retry s branch visit next_attempt =
     and_then (ok_or (bt_get (gs_branches s) branch) RetryUnknownBranch) (\<lambda>b.
     let observed = \<lparr>ac_visit = visit, ac_attempt = next_attempt\<rparr> in
     and_then (ensure (gb_attempt_in_progress b = None \<and> gb_retry_scheduled b = None) RetryOverlap) (\<lambda>_.
     and_then (next_attempt_cursor (gb_attempts b)) (\<lambda>expected.
     and_then (ensure (\<not> (observed \<noteq> expected \<or> gb_max_attempts b < next_attempt)) RetryOutOfOrder) (\<lambda>_.
     and_then (ensure (case last_attempt b of None \<Rightarrow> False | Some a \<Rightarrow> is_retryable (at_outcome a))
       RetryWithoutFailure) (\<lambda>_.
     and_then (ok_or (bt_get (gs_routed_visits s) (gb_node_id b)) BranchNoRouted) (\<lambda>routed.
     and_then (ok_or (bt_get (gs_node_visits s) (gb_node_id b)) BranchNoVisit) (\<lambda>visits.
     and_then (ensure (\<not> (visits \<noteq> visit \<or> checked_add routed 1 \<noteq> Some visit)) RetryNotActive) (\<lambda>_.
     Inr (s\<lparr>gs_branches := bt_insert branch (b\<lparr>gb_retry_scheduled := Some observed\<rparr>)
       (gs_branches s)\<rparr>)))))))))"

definition resolve_join ::
  "graph_state \<Rightarrow> string \<Rightarrow> fan_in_result \<Rightarrow> graph_error + graph_state" where
  "resolve_join s join observed =
     and_then (ensure (bt_get (gs_joins s) join = None) JoinRepeated) (\<lambda>_.
     and_then (ensure (graph_reached s join) JoinBeforeReached) (\<lambda>_.
     and_then (find_node (gs_definition s) join) (\<lambda>n.
     case gn_kind n of
       Join branches \<Rightarrow>
         and_then (ok_or (bt_get (gs_join_arrivals s) join) NoArrivalFrontier) (\<lambda>arrivals.
         and_then (ensure (arrivals = btree_set branches) JoinNotComplete) (\<lambda>_.
         and_then (derive_fan_in_result s branches) (\<lambda>derived.
         and_then (ensure (observed = derived) JoinResultContradicts) (\<lambda>_.
         Inr (s\<lparr>gs_joins := bt_insert join derived (gs_joins s)\<rparr>)))))
     | _ \<Rightarrow> Inl NotJoin)))"

definition complete_loop_iteration ::
  "graph_state \<Rightarrow> string \<Rightarrow> u16 \<Rightarrow> loop_decision \<Rightarrow> graph_error + graph_state" where
  "complete_loop_iteration s loop iteration decision =
     and_then (ensure (graph_reached s loop) LoopBeforeReached) (\<lambda>_.
     and_then (find_node (gs_definition s) loop) (\<lambda>n.
     case gn_kind n of
       LoopNode max_iterations \<Rightarrow>
         and_then (ok_or (bt_get (gs_loops s) loop) NoLoopRuntime) (\<lambda>runtime.
         and_then (ensure (\<not> (case lr_current_decision runtime of None \<Rightarrow> False
           | Some r \<Rightarrow> \<not> ld_routed r)) LoopDecisionRepeated) (\<lambda>_.
         and_then (ok_or (checked_add (lr_completed_iterations runtime) 1) LoopIterationOverflow) (\<lambda>expected.
         and_then (ensure (\<not> (iteration \<noteq> expected \<or> max_iterations < iteration)) LoopIterationOrder) (\<lambda>_.
         and_then (ensure (\<not> (decision = Loop_Continue \<and> max_iterations \<le> iteration)) LoopContinueAtBound) (\<lambda>_.
         and_then (ok_or (bt_get (gs_node_visits s) loop) LoopNoVisit) (\<lambda>visits.
         and_then (ensure (visits = iteration) LoopVisitMismatch) (\<lambda>_.
         Inr (s\<lparr>gs_loops := bt_insert loop
           \<lparr>lr_completed_iterations = iteration,
            lr_current_decision = Some \<lparr>ld_iteration = iteration, ld_decision = decision,
              ld_routed = False\<rparr>\<rparr> (gs_loops s)\<rparr>))))))))
     | _ \<Rightarrow> Inl NotLoop))"

definition check_selected :: "graph_state \<Rightarrow> graph_edge \<Rightarrow> graph_error + unit" where
  "check_selected s e =
     (let count = traversals_of s (ge_id e);
          in_loop = (\<lambda>loop.
            and_then (ok_or (bt_get (gs_loops s) loop) LoopEdgeNoRuntime) (\<lambda>runtime.
            ensure (\<not> lr_completed_iterations runtime \<le> count) LoopEdgeIteration))
      in case ge_kind e of
        Forward \<Rightarrow> ensure (count = 0) ForwardTransitionRepeated
      | JoinArrival _ \<Rightarrow> ensure (count = 0) ForwardTransitionRepeated
      | LoopBody loop \<Rightarrow> in_loop loop
      | LoopBack loop \<Rightarrow> in_loop loop)"

definition arrive :: "graph_edge \<Rightarrow> graph_state \<Rightarrow> graph_error + graph_state" where
  "arrive e s =
     (case ge_kind e of
        JoinArrival branch \<Rightarrow>
          and_then (ok_or (bt_get (gs_join_arrivals s) (ge_to e)) ArrivalNoFrontier) (\<lambda>arrivals.
          and_then (ensure (branch \<notin> set arrivals) ArrivalRepeated) (\<lambda>_.
          Inr (s\<lparr>gs_join_arrivals := bt_insert (ge_to e) (btree_set (branch # arrivals))
            (gs_join_arrivals s)\<rparr>)))
      | _ \<Rightarrow> Inr s)"

definition next_visit :: "node_kind \<Rightarrow> edge_kind \<Rightarrow> u16 \<Rightarrow> graph_error + u16" where
  "next_visit destination kind visits =
     (if is_join destination then Inr 1
      else if is_loop destination \<and> is_loop_back kind
        then ok_or (checked_add visits 1) LoopVisitOverflow
      else
        and_then (ensure (\<not> ((case kind of Forward \<Rightarrow> True | JoinArrival _ \<Rightarrow> True | _ \<Rightarrow> False) \<and> visits \<noteq> 0))
          ForwardReachesAgain) (\<lambda>_.
        ok_or (checked_add visits 1) NodeVisitOverflow))"

definition reach_destination :: "graph_edge \<Rightarrow> graph_state \<Rightarrow> graph_error + graph_state" where
  "reach_destination e s =
     and_then (arrive e s) (\<lambda>s.
     and_then (find_node (gs_definition s) (ge_to e)) (\<lambda>destination.
     and_then (ok_or (bt_get (gs_node_visits s) (ge_to e)) DestinationNoVisit) (\<lambda>visits.
     and_then (next_visit (gn_kind destination) (ge_kind e) visits) (\<lambda>visits'.
     and_then (ensure (\<not> MAX_NODE_VISITS < visits') VisitBound) (\<lambda>_.
     Inr (s\<lparr>gs_node_visits := bt_insert (ge_to e) visits' (gs_node_visits s),
       gs_active_nodes := btree_set (ge_to e # gs_active_nodes s)\<rparr>))))))"

definition traverse_edge :: "graph_edge \<Rightarrow> graph_state \<Rightarrow> graph_error + graph_state" where
  "traverse_edge e s =
     and_then (ok_or (checked_add (traversals_of s (ge_id e)) 1) TraversalOverflow) (\<lambda>count.
     reach_destination e (s\<lparr>gs_edge_traversals := bt_insert (ge_id e) count (gs_edge_traversals s)\<rparr>))"

definition mark_loop_routed :: "string \<Rightarrow> graph_state \<Rightarrow> graph_error + graph_state" where
  "mark_loop_routed source s =
     (case bt_get (gs_loops s) source of
        None \<Rightarrow> Inr s
      | Some runtime \<Rightarrow>
          and_then (ok_or (lr_current_decision runtime) NoLoopDecision) (\<lambda>r.
          and_then (ensure (\<not> ld_routed r) LoopRouteRepeated) (\<lambda>_.
          Inr (s\<lparr>gs_loops := bt_insert source
            (runtime\<lparr>lr_current_decision := Some (r\<lparr>ld_routed := True\<rparr>)\<rparr>) (gs_loops s)\<rparr>))))"

definition select_edges ::
  "graph_state \<Rightarrow> string \<Rightarrow> u16 \<Rightarrow> string list \<Rightarrow> graph_error + graph_state" where
  "select_edges s source visit observed =
     and_then (ensure (\<not> (observed = [] \<or> MAX_GRAPH_EDGES < length observed)) SelectionBound) (\<lambda>_.
     and_then (ok_or (bt_get (gs_node_visits s) source) SelectionUnknownSource) (\<lambda>visits.
     and_then (ok_or (bt_get (gs_routed_visits s) source) SelectionNoRouted) (\<lambda>routed.
     and_then (ok_or (checked_add routed 1) RoutedOverflow) (\<lambda>expected_visit.
     and_then (ensure (\<not> (visit \<noteq> expected_visit \<or> visits < visit)) SelectionVisit) (\<lambda>_.
     and_then (ensure_source_visit_complete s source visit) (\<lambda>_.
     and_then (compute_eligible_edge_ids s source) (\<lambda>expected.
     and_then (ensure (observed = expected) SelectionMismatch) (\<lambda>_.
     and_then (traverse (find_edge (gs_definition s)) observed) (\<lambda>selected.
     and_then (check_all (check_selected s) selected) (\<lambda>_.
     and_then (fold_result traverse_edge selected s) (\<lambda>t.
     let u = t\<lparr>gs_routed_visits := bt_insert source visit (gs_routed_visits t)\<rparr> in
     and_then (ok_or (bt_get (gs_node_visits u) source) SourceLostVisit) (\<lambda>remaining.
     mark_loop_routed source
       (if remaining = visit
        then u\<lparr>gs_active_nodes := filter (\<lambda>i. i \<noteq> source) (gs_active_nodes u)\<rparr> else u)))))))))))))"

definition terminate_graph ::
  "graph_state \<Rightarrow> string \<Rightarrow> graph_termination \<Rightarrow> graph_error + graph_state" where
  "terminate_graph s node observed =
     and_then (ensure (graph_reached s node) TerminationBeforeReached) (\<lambda>_.
     and_then (find_node (gs_definition s) node) (\<lambda>n.
     case gn_kind n of
       Terminate outcome \<Rightarrow>
         and_then (ensure (outcome = observed) TerminationOutcome) (\<lambda>_.
         and_then (ensure (gs_active_nodes s = [node]) StillActive) (\<lambda>_.
         and_then (ok_or (bt_get (gs_node_visits s) node) TerminationLostVisit) (\<lambda>visits.
         Inr (s\<lparr>gs_routed_visits := bt_insert node visits (gs_routed_visits s),
           gs_active_nodes := filter (\<lambda>i. i \<noteq> node) (gs_active_nodes s),
           gs_termination := Some \<lparr>tm_node_id = node, tm_outcome = observed\<rparr>\<rparr>))))
     | _ \<Rightarrow> Inl NotTermination))"

section \<open>The reducer\<close>

definition initial_entry :: "graph_node \<Rightarrow> graph_state \<Rightarrow> graph_state" where
  "initial_entry n s =
     (let s = s\<lparr>gs_node_visits := bt_insert (gn_id n) 0 (gs_node_visits s),
        gs_routed_visits := bt_insert (gn_id n) 0 (gs_routed_visits s)\<rparr>
      in case gn_kind n of
        Task branch max_attempts \<Rightarrow>
          s\<lparr>gs_branches := bt_insert branch
            \<lparr>gb_node_id = gn_id n, gb_max_attempts = max_attempts, gb_attempts = [],
             gb_attempt_in_progress = None, gb_retry_scheduled = None\<rparr> (gs_branches s)\<rparr>
      | LoopNode _ \<Rightarrow>
          s\<lparr>gs_loops := bt_insert (gn_id n)
            \<lparr>lr_completed_iterations = 0, lr_current_decision = None\<rparr> (gs_loops s)\<rparr>
      | Join _ \<Rightarrow> s\<lparr>gs_join_arrivals := bt_insert (gn_id n) [] (gs_join_arrivals s)\<rparr>
      | Fork \<Rightarrow> s
      | Choice \<Rightarrow> s
      | Terminate _ \<Rightarrow> s)"

definition initialize_state :: "graph_definition \<Rightarrow> graph_error + graph_state" where
  "initialize_state d =
     and_then (definition_validate d) (\<lambda>_.
     let s = fold initial_entry (gd_nodes d)
       \<lparr>gs_definition = d, gs_event_count = 1, gs_node_visits = [], gs_routed_visits = [],
        gs_active_nodes = [gd_entry_node_id d], gs_edge_traversals = [], gs_branches = [],
        gs_joins = [], gs_join_arrivals = [], gs_loops = [], gs_termination = None\<rparr>;
       t = s\<lparr>gs_node_visits := bt_insert (gd_entry_node_id d) 1 (gs_node_visits s)\<rparr>
     in and_then (runtime_validate t) (\<lambda>_. Inr t))"

fun apply_initialized_event :: "graph_state \<Rightarrow> graph_event \<Rightarrow> graph_error + graph_state" where
  "apply_initialized_event s (GraphDefined _) = Inl DefinitionRepeated"
| "apply_initialized_event s (BranchAttemptStarted branch visit attempt) =
     start_branch_attempt s branch visit attempt"
| "apply_initialized_event s (BranchAttemptCompleted branch visit attempt outcome) =
     complete_branch_attempt s branch visit attempt outcome"
| "apply_initialized_event s (BranchRetryScheduled branch visit next_attempt) =
     schedule_branch_retry s branch visit next_attempt"
| "apply_initialized_event s (JoinResolved join result) = resolve_join s join result"
| "apply_initialized_event s (LoopIterationCompleted loop iteration decision) =
     complete_loop_iteration s loop iteration decision"
| "apply_initialized_event s (EdgesSelected source visit edge_ids) = select_edges s source visit edge_ids"
| "apply_initialized_event s (GraphTerminated node outcome) = terminate_graph s node outcome"

fun apply_graph_event :: "graph_state option \<Rightarrow> graph_event \<Rightarrow> graph_error + graph_state" where
  "apply_graph_event None (GraphDefined d) = initialize_state d"
| "apply_graph_event None _ = Inl NotInitialized"
| "apply_graph_event (Some s) (GraphDefined _) = Inl DefinitionRepeated"
| "apply_graph_event (Some s) event =
     and_then (ensure (gs_termination s = None) AlreadyTerminated) (\<lambda>_.
     and_then (ensure (\<not> MAX_GRAPH_EVENTS \<le> gs_event_count s) EventHistoryFull) (\<lambda>_.
     and_then (apply_initialized_event s event) (\<lambda>t.
     and_then (ok_or (checked_add (gs_event_count t) 1) EventCountOverflow) (\<lambda>count.
     let u = t\<lparr>gs_event_count := count\<rparr> in
     and_then (runtime_validate u) (\<lambda>_. Inr u)))))"

definition replay_step :: "graph_state option \<Rightarrow> graph_event \<Rightarrow> graph_error + graph_state option" where
  "replay_step s event = and_then (apply_graph_event s event) (\<lambda>t. Inr (Some t))"

definition replay_graph_events :: "graph_event list \<Rightarrow> graph_error + graph_state" where
  "replay_graph_events events =
     (if events = [] then Inl EmptyJournal
      else if unat MAX_GRAPH_EVENTS < length events then Inl JournalTooLong
      else and_then (replay replay_step None events) (\<lambda>s. ok_or s NoRuntimeState))"

section \<open>Journals\<close>

lemma apply_graph_event_cases:
  assumes "apply_graph_event (Some s) event = Inr t"
  obtains u count where "gs_termination s = None" and "gs_event_count s < MAX_GRAPH_EVENTS"
    and "apply_initialized_event s event = Inr u" and "checked_add (gs_event_count u) 1 = Some count"
    and "t = u\<lparr>gs_event_count := count\<rparr>" and "runtime_validate t = Inr ()"
  using assms by (cases event) (auto simp: result_iffs Let_def not_le)

lemma apply_graph_event_valid: "apply_graph_event s event = Inr t \<Longrightarrow> runtime_validate t = Inr ()"
proof (cases s)
  case None
  then show "apply_graph_event s event = Inr t \<Longrightarrow> runtime_validate t = Inr ()"
    by (cases event) (auto simp: initialize_state_def Let_def result_iffs)
next
  case (Some u)
  then show "apply_graph_event s event = Inr t \<Longrightarrow> runtime_validate t = Inr ()"
    by (auto elim: apply_graph_event_cases)
qed

lemma replay_step_Inr_iff [result_iffs]:
  "replay_step s event = Inr t \<longleftrightarrow> (\<exists>u. apply_graph_event s event = Inr u \<and> t = Some u)"
  by (auto simp: replay_step_def and_then_Inr_iff)

definition journal_ok :: "graph_state option \<Rightarrow> bool" where
  "journal_ok s \<longleftrightarrow> (case s of None \<Rightarrow> True | Some t \<Rightarrow> runtime_validate t = Inr ())"

interpretation graph: reducer replay_step journal_ok
  by unfold_locales (auto simp: journal_ok_def result_iffs dest: apply_graph_event_valid)

lemma replay_graph_events_iff:
  "replay_graph_events events = Inr s \<longleftrightarrow>
     events \<noteq> [] \<and> length events \<le> unat MAX_GRAPH_EVENTS \<and> replay replay_step None events = Inr (Some s)"
  by (auto simp: replay_graph_events_def result_iffs not_less)

lemma replayed_state_valid: "replay_graph_events events = Inr s \<Longrightarrow> runtime_validate s = Inr ()"
  using graph.replay_inv [of None events "Some s"] by (simp add: replay_graph_events_iff journal_ok_def)

section \<open>What an accepted event needs and does\<close>

lemma start_branch_attempt_cases:
  assumes "start_branch_attempt s branch visit attempt = Inr t"
  obtains b where "bt_get (gs_branches s) branch = Some b"
    and "next_attempt_cursor (gb_attempts b) = Inr \<lparr>ac_visit = visit, ac_attempt = attempt\<rparr>"
    and "attempt \<noteq> 0" and "attempt \<le> gb_max_attempts b" and "gb_attempt_in_progress b = None"
    and "gb_retry_scheduled b = (if attempt = 1 then None else Some \<lparr>ac_visit = visit, ac_attempt = attempt\<rparr>)"
    and "bt_get (gs_node_visits s) (gb_node_id b) = Some visit"
    and "t = s\<lparr>gs_branches := bt_insert branch
      (b\<lparr>gb_retry_scheduled := None, gb_attempt_in_progress := Some \<lparr>ac_visit = visit, ac_attempt = attempt\<rparr>\<rparr>)
      (gs_branches s)\<rparr>"
proof -
  have one: "1 < attempt \<longleftrightarrow> attempt \<noteq> 0 \<and> attempt \<noteq> 1"
    by (simp add: word_less_nat_alt word_unat_eq_iff) linarith
  from assms that show thesis
    unfolding start_branch_attempt_def Let_def and_then_Inr_iff ok_or_Inr_iff ensure_Inr_iff one
    by (elim exE conjE) (force simp: not_less)
qed

lemma complete_branch_attempt_cases:
  assumes "complete_branch_attempt s branch visit attempt outcome = Inr t"
  obtains b where "bt_get (gs_branches s) branch = Some b"
    and "gb_attempt_in_progress b = Some \<lparr>ac_visit = visit, ac_attempt = attempt\<rparr>"
    and "is_retryable outcome \<Longrightarrow> attempt < gb_max_attempts b"
    and "t = s\<lparr>gs_branches := bt_insert branch
      (b\<lparr>gb_attempts := gb_attempts b @ [\<lparr>at_visit = visit, at_attempt = attempt, at_outcome = outcome\<rparr>],
         gb_attempt_in_progress := None\<rparr>) (gs_branches s)\<rparr>"
  using assms that
  unfolding complete_branch_attempt_def and_then_Inr_iff ok_or_Inr_iff ensure_Inr_iff
  by (elim exE conjE) (simp add: not_le)

lemma schedule_branch_retry_cases:
  assumes "schedule_branch_retry s branch visit attempt = Inr t"
  obtains b a where "bt_get (gs_branches s) branch = Some b"
    and "gb_attempt_in_progress b = None" and "gb_retry_scheduled b = None"
    and "next_attempt_cursor (gb_attempts b) = Inr \<lparr>ac_visit = visit, ac_attempt = attempt\<rparr>"
    and "last_attempt b = Some a" and "is_retryable (at_outcome a)"
    and "t = s\<lparr>gs_branches := bt_insert branch
      (b\<lparr>gb_retry_scheduled := Some \<lparr>ac_visit = visit, ac_attempt = attempt\<rparr>\<rparr>) (gs_branches s)\<rparr>"
  using assms that
  unfolding schedule_branch_retry_def Let_def and_then_Inr_iff ok_or_Inr_iff ensure_Inr_iff
  by (elim exE conjE) (simp split: option.splits)

lemma resolve_join_cases:
  assumes "resolve_join s join result = Inr t"
  obtains n branches where "bt_get (gs_joins s) join = None" and "graph_reached s join"
    and "find_node (gs_definition s) join = Inr n" and "gn_kind n = Join branches"
    and "bt_get (gs_join_arrivals s) join = Some (btree_set branches)"
    and "derive_fan_in_result s branches = Inr result"
    and "t = s\<lparr>gs_joins := bt_insert join result (gs_joins s)\<rparr>"
proof -
  from assms obtain n where n: "bt_get (gs_joins s) join = None" "graph_reached s join"
    "find_node (gs_definition s) join = Inr n"
    unfolding resolve_join_def and_then_Inr_iff ensure_Inr_iff by blast
  with assms that show thesis
    by (cases "gn_kind n") (auto simp: resolve_join_def result_iffs)
qed

lemma complete_loop_iteration_cases:
  assumes "complete_loop_iteration s loop iteration decision = Inr t"
  obtains n m runtime where "find_node (gs_definition s) loop = Inr n" and "gn_kind n = LoopNode m"
    and "bt_get (gs_loops s) loop = Some runtime"
    and "unat iteration = Suc (unat (lr_completed_iterations runtime))" and "iteration \<le> m"
    and "decision = Loop_Continue \<Longrightarrow> iteration < m"
    and "bt_get (gs_node_visits s) loop = Some iteration"
    and "t = s\<lparr>gs_loops := bt_insert loop
      \<lparr>lr_completed_iterations = iteration,
       lr_current_decision = Some \<lparr>ld_iteration = iteration, ld_decision = decision, ld_routed = False\<rparr>\<rparr>
      (gs_loops s)\<rparr>"
proof -
  from assms obtain n where n: "graph_reached s loop" "find_node (gs_definition s) loop = Inr n"
    unfolding complete_loop_iteration_def and_then_Inr_iff ensure_Inr_iff by blast
  with assms that show thesis
    by (cases "gn_kind n")
      (auto simp: complete_loop_iteration_def result_iffs not_less not_le dest: checked_add_one_Some)
qed

lemma terminate_graph_cases:
  assumes "terminate_graph s node outcome = Inr t"
  obtains n visits where "find_node (gs_definition s) node = Inr n" and "gn_kind n = Terminate outcome"
    and "gs_active_nodes s = [node]" and "bt_get (gs_node_visits s) node = Some visits"
    and "t = s\<lparr>gs_routed_visits := bt_insert node visits (gs_routed_visits s),
      gs_active_nodes := [], gs_termination := Some \<lparr>tm_node_id = node, tm_outcome = outcome\<rparr>\<rparr>"
proof -
  from assms obtain n where n: "graph_reached s node" "find_node (gs_definition s) node = Inr n"
    unfolding terminate_graph_def and_then_Inr_iff ensure_Inr_iff by blast
  with assms that show thesis
    by (cases "gn_kind n") (auto simp: terminate_graph_def result_iffs)
qed

lemma select_edges_cases:
  assumes "select_edges s source visit observed = Inr t"
  obtains visits routed selected u remaining where "bt_get (gs_node_visits s) source = Some visits"
    and "bt_get (gs_routed_visits s) source = Some routed" and "unat visit = Suc (unat routed)"
    and "visit \<le> visits" and "ensure_source_visit_complete s source visit = Inr ()"
    and "compute_eligible_edge_ids s source = Inr observed"
    and "traverse (find_edge (gs_definition s)) observed = Inr selected"
    and "\<And>e. e \<in> set selected \<Longrightarrow> check_selected s e = Inr ()"
    and "fold_result traverse_edge selected s = Inr u"
    and "bt_get (gs_node_visits u) source = Some remaining"
    and "mark_loop_routed source
      (let u = u\<lparr>gs_routed_visits := bt_insert source visit (gs_routed_visits u)\<rparr> in
       if remaining = visit
       then u\<lparr>gs_active_nodes := filter (\<lambda>i. i \<noteq> source) (gs_active_nodes u)\<rparr> else u) = Inr t"
proof -
  from assms obtain visits routed expected selected u remaining where
    "bt_get (gs_node_visits s) source = Some visits" "bt_get (gs_routed_visits s) source = Some routed"
    "checked_add routed 1 = Some visit" "\<not> visits < visit" "ensure_source_visit_complete s source visit = Inr ()"
    "compute_eligible_edge_ids s source = Inr observed"
    "traverse (find_edge (gs_definition s)) observed = Inr selected"
    "check_all (check_selected s) selected = Inr ()" "fold_result traverse_edge selected s = Inr u"
    "bt_get (gs_node_visits u) source = Some remaining"
    "mark_loop_routed source
      (let u = u\<lparr>gs_routed_visits := bt_insert source visit (gs_routed_visits u)\<rparr> in
       if remaining = visit
       then u\<lparr>gs_active_nodes := filter (\<lambda>i. i \<noteq> source) (gs_active_nodes u)\<rparr> else u) = Inr t"
    unfolding select_edges_def Let_def and_then_Inr_iff ok_or_Inr_iff ensure_Inr_iff
    by (elim exE conjE) (simp add: del: fold_result.simps)
  then show thesis using that by (auto simp: result_iffs not_less dest: checked_add_one_Some)
qed

lemmas handler_cases = start_branch_attempt_cases complete_branch_attempt_cases schedule_branch_retry_cases
  resolve_join_cases complete_loop_iteration_cases terminate_graph_cases

section \<open>History is immutable\<close>

text \<open>
  What later states keep of an earlier one: the definition, every recorded attempt of every branch
  and every join result.
\<close>

definition branch_extends :: "branch_runtime \<Rightarrow> branch_runtime \<Rightarrow> bool" where
  "branch_extends b c \<longleftrightarrow> gb_node_id c = gb_node_id b \<and> gb_max_attempts c = gb_max_attempts b
     \<and> prefix (gb_attempts b) (gb_attempts c)"

definition keeps_history :: "graph_state \<Rightarrow> graph_state \<Rightarrow> bool" where
  "keeps_history s t \<longleftrightarrow> gs_definition t = gs_definition s
     \<and> (\<forall>i b. bt_get (gs_branches s) i = Some b \<longrightarrow>
          (\<exists>c. bt_get (gs_branches t) i = Some c \<and> branch_extends b c))
     \<and> (\<forall>i r. bt_get (gs_joins s) i = Some r \<longrightarrow> bt_get (gs_joins t) i = Some r)"

lemma branch_extends_refl [simp]: "branch_extends b b"
  by (simp add: branch_extends_def)

lemma branch_extends_trans: "branch_extends a b \<Longrightarrow> branch_extends b c \<Longrightarrow> branch_extends a c"
  by (auto simp: branch_extends_def intro: prefix_order.trans)

lemma keeps_history_refl: "keeps_history s s"
  by (simp add: keeps_history_def)

lemma keeps_history_trans:
  assumes "keeps_history s t" and "keeps_history t u"
  shows "keeps_history s u"
proof -
  have "\<exists>c. bt_get (gs_branches u) i = Some c \<and> branch_extends b c" if b: "bt_get (gs_branches s) i = Some b" for i b
  proof -
    from assms(1) b obtain c where c: "bt_get (gs_branches t) i = Some c" "branch_extends b c"
      unfolding keeps_history_def by blast
    from assms(2) c(1) obtain d where "bt_get (gs_branches u) i = Some d" "branch_extends c d"
      unfolding keeps_history_def by blast
    with c(2) show ?thesis by (blast intro: branch_extends_trans)
  qed
  with assms show ?thesis by (simp add: keeps_history_def)
qed

lemma keeps_history_branch:
  assumes "bt_get (gs_branches s) i = Some b" and "branch_extends b c"
  shows "keeps_history s (s\<lparr>gs_branches := bt_insert i c (gs_branches s)\<rparr>)"
  using assms by (auto simp: keeps_history_def bt_get_insert)

lemma keeps_history_same:
  "gs_definition t = gs_definition s \<Longrightarrow> gs_branches t = gs_branches s \<Longrightarrow> gs_joins t = gs_joins s
     \<Longrightarrow> keeps_history s t"
  by (simp add: keeps_history_def)

text \<open>Selecting edges changes visits, traversals, arrivals and loop decisions, and nothing else.\<close>

definition same_record :: "graph_state \<Rightarrow> graph_state \<Rightarrow> bool" where
  "same_record s t \<longleftrightarrow> gs_definition t = gs_definition s \<and> gs_branches t = gs_branches s
     \<and> gs_joins t = gs_joins s \<and> gs_event_count t = gs_event_count s \<and> gs_termination t = gs_termination s"

lemma arrive_record: "arrive e s = Inr t \<Longrightarrow> same_record s t"
  by (cases "ge_kind e") (auto simp: arrive_def result_iffs same_record_def)

lemma reach_destination_record: "reach_destination e s = Inr t \<Longrightarrow> same_record s t"
  by (auto simp: reach_destination_def result_iffs same_record_def dest!: arrive_record)

lemma traverse_edge_record: "traverse_edge e s = Inr t \<Longrightarrow> same_record s t"
  by (auto simp: traverse_edge_def result_iffs same_record_def dest!: reach_destination_record)

lemma mark_loop_routed_record: "mark_loop_routed i s = Inr t \<Longrightarrow> same_record s t"
  by (auto simp: mark_loop_routed_def result_iffs same_record_def split: option.splits)

lemma select_edges_record:
  assumes "select_edges s source visit observed = Inr t"
  shows "same_record s t"
  using assms
proof (rule select_edges_cases)
  fix selected u remaining
  assume f: "fold_result traverse_edge selected s = Inr u"
    and m: "mark_loop_routed source
      (let u = u\<lparr>gs_routed_visits := bt_insert source visit (gs_routed_visits u)\<rparr> in
       if remaining = visit
       then u\<lparr>gs_active_nodes := filter (\<lambda>i. i \<noteq> source) (gs_active_nodes u)\<rparr> else u) = Inr t"
  have "same_record s u"
    by (rule fold_result_invariant [OF f]) (auto simp: same_record_def dest: traverse_edge_record)
  with mark_loop_routed_record [OF m] show ?thesis by (auto simp: same_record_def Let_def split: if_splits)
qed

lemma apply_initialized_event_keeps:
  assumes "apply_initialized_event s event = Inr t"
  shows "keeps_history s t \<and> gs_event_count t = gs_event_count s"
proof (cases event)
  case (BranchAttemptStarted branch visit attempt)
  with assms have "start_branch_attempt s branch visit attempt = Inr t" by simp
  then show ?thesis
    by (rule start_branch_attempt_cases) (auto simp: branch_extends_def intro!: keeps_history_branch)
next
  case (BranchAttemptCompleted branch visit attempt outcome)
  with assms have "complete_branch_attempt s branch visit attempt outcome = Inr t" by simp
  then show ?thesis
    by (rule complete_branch_attempt_cases) (auto simp: branch_extends_def intro!: keeps_history_branch)
next
  case (BranchRetryScheduled branch visit attempt)
  with assms have "schedule_branch_retry s branch visit attempt = Inr t" by simp
  then show ?thesis
    by (rule schedule_branch_retry_cases) (auto simp: branch_extends_def intro!: keeps_history_branch)
next
  case (JoinResolved join result)
  with assms have "resolve_join s join result = Inr t" by simp
  then show ?thesis by (rule resolve_join_cases) (auto simp: keeps_history_def bt_get_insert)
next
  case (LoopIterationCompleted loop iteration decision)
  with assms have "complete_loop_iteration s loop iteration decision = Inr t" by simp
  then show ?thesis by (rule complete_loop_iteration_cases) (auto intro!: keeps_history_same)
next
  case (EdgesSelected source visit ids)
  with assms select_edges_record show ?thesis by (auto simp: same_record_def intro!: keeps_history_same)
next
  case (GraphTerminated node outcome)
  with assms have "terminate_graph s node outcome = Inr t" by simp
  then show ?thesis by (rule terminate_graph_cases) (auto intro!: keeps_history_same)
qed (use assms in simp)

lemma apply_graph_event_keeps:
  assumes "apply_graph_event (Some s) event = Inr t"
  shows "keeps_history s t \<and> unat (gs_event_count t) = unat (gs_event_count s) + 1 \<and> gs_termination s = None"
proof -
  from assms obtain u count where u: "gs_termination s = None" "apply_initialized_event s event = Inr u"
    "checked_add (gs_event_count u) 1 = Some count" "t = u\<lparr>gs_event_count := count\<rparr>"
    by (rule apply_graph_event_cases)
  with apply_initialized_event_keeps [OF u(2)] show ?thesis
    by (auto simp: keeps_history_def dest: checked_add_one_Some)
qed

lemma replay_keeps:
  assumes "replay replay_step (Some s) events = Inr t"
  shows "\<exists>u. t = Some u \<and> keeps_history s u \<and> unat (gs_event_count u) = unat (gs_event_count s) + length events
    \<and> (gs_termination s \<noteq> None \<longrightarrow> events = [])"
  using assms
proof (induction events arbitrary: s)
  case Nil
  then show ?case by (auto simp: keeps_history_refl)
next
  case (Cons event events)
  then obtain v where v: "apply_graph_event (Some s) event = Inr v" "replay replay_step (Some v) events = Inr t"
    by (auto simp: result_iffs)
  from Cons.IH [OF v(2)] apply_graph_event_keeps [OF v(1)] show ?case
    by (auto intro: keeps_history_trans)
qed

lemma replay_first:
  assumes "replay replay_step None (event # events) = Inr t"
  obtains s where "apply_graph_event None event = Inr s" and "gs_event_count s = 1"
    and "replay replay_step (Some s) events = Inr t"
proof -
  from assms obtain s where s: "apply_graph_event None event = Inr s" "replay replay_step (Some s) events = Inr t"
    by (auto simp: result_iffs)
  have "gs_event_count (fold initial_entry ns z) = gs_event_count z" for ns z
    by (induction ns arbitrary: z) (auto simp: initial_entry_def Let_def split: node_kind.splits)
  with s(1) have "gs_event_count s = 1"
    by (cases event) (auto simp: initialize_state_def Let_def result_iffs)
  with s that show thesis by blast
qed

definition sample_success :: branch_outcome where
  "sample_success = Out_Success \<lparr>bs_result_ref = ''r'', bs_write_refs = []\<rparr>"

definition sample_journal :: "graph_event list" where
  "sample_journal =
     [GraphDefined sample_loop_graph, LoopIterationCompleted ''loop'' 1 Loop_Continue,
      EdgesSelected ''loop'' 1 [''e1''], BranchAttemptStarted ''b'' 1 1,
      BranchAttemptCompleted ''b'' 1 1 sample_success]"

definition sample_rest :: "graph_event list" where
  "sample_rest =
     [EdgesSelected ''body'' 1 [''e2''], LoopIterationCompleted ''loop'' 2 Loop_Exit,
      EdgesSelected ''loop'' 2 [''e3''], GraphTerminated ''done'' Term_Success]"

text \<open>C27. A journal only ever adds to what is recorded: if a journal is accepted, every non-empty prefix
  of it is accepted, the definition, every recorded attempt of every branch and every join result of the
  state at that prefix are unchanged at the end, the event count grows by exactly the number of further
  events, and a state that is terminated has no further events.\<close>

theorem journal_history_immutable:
  assumes "replay_graph_events (events @ later) = Inr t" and "events \<noteq> []"
  shows "\<exists>s. replay_graph_events events = Inr s
    \<and> gs_definition t = gs_definition s
    \<and> (\<forall>i b. bt_get (gs_branches s) i = Some b \<longrightarrow>
        (\<exists>c. bt_get (gs_branches t) i = Some c \<and> prefix (gb_attempts b) (gb_attempts c)))
    \<and> (\<forall>i r. bt_get (gs_joins s) i = Some r \<longrightarrow> bt_get (gs_joins t) i = Some r)
    \<and> unat (gs_event_count t) = unat (gs_event_count s) + length later
    \<and> (gs_termination s \<noteq> None \<longrightarrow> later = [])"
proof -
  from assms(1) have len: "length (events @ later) \<le> unat MAX_GRAPH_EVENTS"
    and r: "replay replay_step None (events @ later) = Inr (Some t)"
    by (simp_all add: replay_graph_events_iff)
  from r obtain mid where m: "replay replay_step None events = Inr mid" "replay replay_step mid later = Inr (Some t)"
    by (auto simp: replay_append result_iffs)
  from assms(2) obtain e es where "events = e # es" by (cases events) simp_all
  with m(1) have "replay replay_step None (e # es) = Inr mid" by (simp only:)
  then obtain z where "replay replay_step (Some z) es = Inr mid" by (rule replay_first)
  then obtain s where s: "mid = Some s" using replay_keeps by blast
  from m(1) s len assms(2) have "replay_graph_events events = Inr s" by (simp add: replay_graph_events_iff)
  with replay_keeps [OF m(2) [unfolded s]] show ?thesis
    unfolding keeps_history_def branch_extends_def by blast
qed

theorem journal_history_immutable_witness:
  "\<exists>s t. replay_graph_events sample_journal = Inr s \<and> replay_graph_events (sample_journal @ sample_rest) = Inr t
     \<and> unat (gs_event_count t) = unat (gs_event_count s) + 4"
proof -
  have "\<not> isl (replay_graph_events (sample_journal @ sample_rest))" by code_simp
  then obtain t where t: "replay_graph_events (sample_journal @ sample_rest) = Inr t"
    by (metis isl_def sum.exhaust)
  moreover have "sample_journal \<noteq> []" by (simp add: sample_journal_def)
  moreover have "length sample_rest = 4" by (simp add: sample_rest_def)
  ultimately show ?thesis using journal_history_immutable [of sample_journal sample_rest t] by metis
qed

section \<open>The meaning of a join result\<close>

definition branch_succeeded :: "graph_state \<Rightarrow> string \<Rightarrow> bool" where
  "branch_succeeded s i \<longleftrightarrow>
     (case bt_get (gs_branches s) i of None \<Rightarrow> False | Some b \<Rightarrow> successful_outcome b \<noteq> None)"

definition branch_settled :: "graph_state \<Rightarrow> string \<Rightarrow> bool" where
  "branch_settled s i \<longleftrightarrow>
     (case bt_get (gs_branches s) i of None \<Rightarrow> False
      | Some b \<Rightarrow> is_terminal_for_visit b (visits_of s (gb_node_id b))
          \<and> routed_of s (gb_node_id b) = visits_of s (gb_node_id b))"

lemma count_successes:
  "fold_result (count_success s) branches k = Inr n \<Longrightarrow>
     list_all (branch_settled s) branches \<and> n = k + length (filter (branch_succeeded s) branches)"
proof (induction branches arbitrary: k)
  case Nil
  then show ?case by simp
next
  case (Cons i branches)
  then obtain j where j: "count_success s i k = Inr j" "fold_result (count_success s) branches j = Inr n"
    by (auto simp: result_iffs)
  from j(1) have "branch_settled s i \<and> j = (if branch_succeeded s i then k + 1 else k)"
    unfolding count_success_def and_then_Inr_iff ok_or_Inr_iff ensure_Inr_iff
    by (auto simp: branch_settled_def branch_succeeded_def visits_of_def routed_of_def)
  with Cons.IH [OF j(2)] show ?case by auto
qed

lemma derived_result:
  assumes "derive_fan_in_result s branches = Inr r" and "branches \<noteq> []"
  shows "list_all (branch_settled s) branches
    \<and> (r = FanIn_AllSuccess \<longleftrightarrow> (\<forall>i \<in> set branches. branch_succeeded s i))
    \<and> (r = FanIn_Failure \<longleftrightarrow> (\<forall>i \<in> set branches. \<not> branch_succeeded s i))"
proof -
  let ?n = "length (filter (branch_succeeded s) branches)"
  from assms(1) have settled: "list_all (branch_settled s) branches"
    and r: "r = (if ?n = length branches then FanIn_AllSuccess else if ?n = 0 then FanIn_Failure
      else FanIn_PartialSuccess)"
    by (auto simp: derive_fan_in_result_def result_iffs dest!: count_successes)
  have "?n = length branches \<longleftrightarrow> (\<forall>i \<in> set branches. branch_succeeded s i)"
    by (metis filter_True length_filter_less nat_neq_iff)
  moreover have "?n = 0 \<longleftrightarrow> (\<forall>i \<in> set branches. \<not> branch_succeeded s i)"
    by (simp add: filter_empty_conv)
  moreover have "\<not> ((\<forall>i \<in> set branches. branch_succeeded s i) \<and> (\<forall>i \<in> set branches. \<not> branch_succeeded s i))"
    using assms(2) by (cases branches) auto
  ultimately show ?thesis using settled r by (auto split: if_splits)
qed

lemma accepted_join_nonempty:
  assumes "definition_validate d = Inr ()" and "find_node d i = Inr n" and "gn_kind n = Join branches"
  shows "2 \<le> length branches"
proof -
  from assms(1) obtain ix where ix: "index_nodes (gd_nodes d) = Inr ix" by (rule accepted_definition_parts)
  from assms(2) have n: "n \<in> set (gd_nodes d)" by (auto simp: find_node_def result_iffs dest: find_SomeD)
  have "n \<in> set ns \<Longrightarrow> fold_result index_node ns x = Inr y \<Longrightarrow> \<exists>u v. index_node n u = Inr v" for ns x y
    by (induction ns arbitrary: x) (auto simp: result_iffs)
  with ix n obtain u v where "index_node n u = Inr v" unfolding index_nodes_def by blast
  with assms(3) show ?thesis by (simp add: index_node_def split: if_splits)
qed

lemma runtime_validate_parts:
  assumes "runtime_validate s = Inr ()"
  shows "definition_validate (gs_definition s) = Inr ()"
    and "gs_event_count s \<noteq> 0" and "gs_event_count s \<le> MAX_GRAPH_EVENTS"
    and "\<And>e. e \<in> set (gd_edges (gs_definition s)) \<Longrightarrow> check_traversal s e = Inr ()"
    and "\<And>kb. kb \<in> set (gs_branches s) \<Longrightarrow> check_branch s kb = Inr ()"
    and "\<And>kr. kr \<in> set (gs_joins s) \<Longrightarrow> check_join s kr = Inr ()"
    and "\<And>kl. kl \<in> set (gs_loops s) \<Longrightarrow> check_loop s kl = Inr ()"
    and "\<And>n. n \<in> set (gd_nodes (gs_definition s)) \<Longrightarrow> \<exists>a b. check_visits s n a = Inr b"
proof -
  note parts = assms [unfolded runtime_validate_def Let_def and_then_Inr_iff ensure_Inr_iff check_all_Inr_iff]
  from parts show "definition_validate (gs_definition s) = Inr ()" by (elim exE conjE) simp
  from parts show "gs_event_count s \<noteq> 0" "gs_event_count s \<le> MAX_GRAPH_EVENTS"
    by (elim exE conjE, simp add: not_less)+
  from parts show "e \<in> set (gd_edges (gs_definition s)) \<Longrightarrow> check_traversal s e = Inr ()" for e
    by (elim exE conjE) simp
  from parts show "kb \<in> set (gs_branches s) \<Longrightarrow> check_branch s kb = Inr ()" for kb by (elim exE conjE) simp
  from parts show "kr \<in> set (gs_joins s) \<Longrightarrow> check_join s kr = Inr ()" for kr by (elim exE conjE) simp
  from parts show "kl \<in> set (gs_loops s) \<Longrightarrow> check_loop s kl = Inr ()" for kl by (elim exE conjE) simp
  have "n \<in> set ns \<Longrightarrow> fold_result (check_visits s) ns x = Inr y \<Longrightarrow> \<exists>u v. check_visits s n u = Inr v" for n ns x y
    by (induction ns arbitrary: x) (auto simp: result_iffs)
  with parts show "n \<in> set (gd_nodes (gs_definition s)) \<Longrightarrow> \<exists>a b. check_visits s n a = Inr b" for n
    by (elim exE conjE) blast
qed

definition sample_join_graph :: graph_definition where
  "sample_join_graph =
     \<lparr>gd_graph_id = ''g'', gd_entry_node_id = ''a0'',
      gd_nodes = [\<lparr>gn_id = ''a0'', gn_kind = Fork\<rparr>, \<lparr>gn_id = ''a1'', gn_kind = Task ''x'' 1\<rparr>,
        \<lparr>gn_id = ''a2'', gn_kind = Task ''y'' 1\<rparr>, \<lparr>gn_id = ''a3'', gn_kind = Join [''x'', ''y'']\<rparr>,
        \<lparr>gn_id = ''t1'', gn_kind = Terminate Term_Success\<rparr>,
        \<lparr>gn_id = ''t2'', gn_kind = Terminate Term_PartialSuccess\<rparr>,
        \<lparr>gn_id = ''t3'', gn_kind = Terminate Term_Failure\<rparr>],
      gd_edges =
        [\<lparr>ge_id = ''e1'', ge_from = ''a0'', ge_to = ''a1'', ge_kind = Forward, ge_condition = Always\<rparr>,
         \<lparr>ge_id = ''e2'', ge_from = ''a0'', ge_to = ''a2'', ge_kind = Forward, ge_condition = Always\<rparr>,
         \<lparr>ge_id = ''e3'', ge_from = ''a1'', ge_to = ''a3'', ge_kind = JoinArrival ''x'', ge_condition = Always\<rparr>,
         \<lparr>ge_id = ''e4'', ge_from = ''a2'', ge_to = ''a3'', ge_kind = JoinArrival ''y'', ge_condition = Always\<rparr>,
         \<lparr>ge_id = ''e5'', ge_from = ''a3'', ge_to = ''t1'', ge_kind = Forward,
          ge_condition = JoinResult ''a3'' FanIn_AllSuccess\<rparr>,
         \<lparr>ge_id = ''e6'', ge_from = ''a3'', ge_to = ''t2'', ge_kind = Forward,
          ge_condition = JoinResult ''a3'' FanIn_PartialSuccess\<rparr>,
         \<lparr>ge_id = ''e7'', ge_from = ''a3'', ge_to = ''t3'', ge_kind = Forward,
          ge_condition = JoinResult ''a3'' FanIn_Failure\<rparr>]\<rparr>"

definition sample_join_journal :: "graph_event list" where
  "sample_join_journal =
     [GraphDefined sample_join_graph, EdgesSelected ''a0'' 1 [''e1'', ''e2''],
      BranchAttemptStarted ''x'' 1 1, BranchAttemptStarted ''y'' 1 1,
      BranchAttemptCompleted ''y'' 1 1 (Out_Failure ''f''), BranchAttemptCompleted ''x'' 1 1 sample_success,
      EdgesSelected ''a1'' 1 [''e3''], EdgesSelected ''a2'' 1 [''e4''], JoinResolved ''a3'' FanIn_PartialSuccess]"

text \<open>C28. Whenever a replayed journal records a result for a join, the node is a join of at least two
  branches, each of them has arrived and reached a final outcome of its current visit that is already
  routed, and the result is all-success exactly when every branch succeeded, failure exactly when none
  did, and partial success otherwise.\<close>

theorem join_result_meaning:
  assumes "replay_graph_events events = Inr s" and "bt_get (gs_joins s) i = Some r"
  shows "\<exists>n branches. find_node (gs_definition s) i = Inr n \<and> gn_kind n = Join branches
    \<and> 2 \<le> length branches \<and> bt_get (gs_join_arrivals s) i = Some (btree_set branches)
    \<and> list_all (branch_settled s) branches
    \<and> (r = FanIn_AllSuccess \<longleftrightarrow> (\<forall>b \<in> set branches. branch_succeeded s b))
    \<and> (r = FanIn_Failure \<longleftrightarrow> (\<forall>b \<in> set branches. \<not> branch_succeeded s b))"
proof -
  note valid = replayed_state_valid [OF assms(1)]
  from assms(2) have "(i, r) \<in> set (gs_joins s)" by (auto simp: bt_get_def dest: map_of_SomeD)
  then have c: "check_join s (i, r) = Inr ()" by (rule runtime_validate_parts(6) [OF valid])
  then obtain n where n: "find_node (gs_definition s) i = Inr n" by (auto simp: check_join_def result_iffs)
  with c obtain branches where b: "gn_kind n = Join branches"
    "bt_get (gs_join_arrivals s) i = Some (btree_set branches)" "derive_fan_in_result s branches = Inr r"
    by (cases "gn_kind n") (auto simp: check_join_def result_iffs split: if_splits)
  have two: "2 \<le> length branches"
    by (rule accepted_join_nonempty [OF runtime_validate_parts(1) [OF valid] n b(1)])
  then have "branches \<noteq> []" by auto
  from derived_result [OF b(3) this] n b(1,2) two show ?thesis by blast
qed

theorem join_result_meaning_witness:
  "\<exists>s. replay_graph_events sample_join_journal = Inr s \<and> bt_get (gs_joins s) ''a3'' = Some FanIn_PartialSuccess
     \<and> list_all (branch_settled s) [''x'', ''y''] \<and> branch_succeeded s ''x'' \<and> \<not> branch_succeeded s ''y''"
proof -
  have "case replay_graph_events sample_join_journal of Inl _ \<Rightarrow> False | Inr s \<Rightarrow>
      bt_get (gs_joins s) ''a3'' = Some FanIn_PartialSuccess
      \<and> find_node (gs_definition s) ''a3'' = Inr \<lparr>gn_id = ''a3'', gn_kind = Join [''x'', ''y'']\<rparr>
      \<and> branch_succeeded s ''x'' \<and> \<not> branch_succeeded s ''y''"
    by code_simp
  then obtain s where s: "replay_graph_events sample_join_journal = Inr s"
    and j: "bt_get (gs_joins s) ''a3'' = Some FanIn_PartialSuccess"
    and n: "find_node (gs_definition s) ''a3'' = Inr \<lparr>gn_id = ''a3'', gn_kind = Join [''x'', ''y'']\<rparr>"
    and b: "branch_succeeded s ''x''" "\<not> branch_succeeded s ''y''"
    by (cases "replay_graph_events sample_join_journal") simp_all
  from join_result_meaning [OF s j] n have "list_all (branch_settled s) [''x'', ''y'']" by auto
  with s j b show ?thesis by blast
qed

section \<open>A graph that cannot proceed\<close>

text \<open>
  The definition checks place no condition on an entry inside a loop body. Such an entry has no open
  iteration of its loop, and its only edge back to the loop needs one.
\<close>

definition stranded_graph :: graph_definition where
  "stranded_graph = sample_loop_graph\<lparr>gd_entry_node_id := ''body''\<rparr>"

definition stranded_journal :: "graph_event list" where
  "stranded_journal =
     [GraphDefined stranded_graph, BranchAttemptStarted ''b'' 1 1, BranchAttemptCompleted ''b'' 1 1 sample_success]"

definition stranded_branch :: branch_runtime where
  "stranded_branch =
     \<lparr>gb_node_id = ''body'', gb_max_attempts = 2,
      gb_attempts = [\<lparr>at_visit = 1, at_attempt = 1, at_outcome = sample_success\<rparr>],
      gb_attempt_in_progress = None, gb_retry_scheduled = None\<rparr>"

definition stranded_state :: graph_state where
  "stranded_state =
     \<lparr>gs_definition = stranded_graph, gs_event_count = 3,
      gs_node_visits = [(''body'', 1), (''done'', 0), (''loop'', 0)],
      gs_routed_visits = [(''body'', 0), (''done'', 0), (''loop'', 0)],
      gs_active_nodes = [''body''], gs_edge_traversals = [], gs_branches = [(''b'', stranded_branch)],
      gs_joins = [], gs_join_arrivals = [],
      gs_loops = [(''loop'', \<lparr>lr_completed_iterations = 0, lr_current_decision = None\<rparr>)],
      gs_termination = None\<rparr>"

lemma stranded_replay: "replay_graph_events stranded_journal = Inr stranded_state"
  by code_simp

lemma stranded_branches: "bt_get (gs_branches stranded_state) i = Some b \<Longrightarrow> i = ''b'' \<and> b = stranded_branch"
  by (simp add: stranded_state_def bt_get_def split: if_splits)

lemma stranded_visits:
  "gs_node_visits stranded_state = [(''body'', 1), (''done'', 0), (''loop'', 0)]"
  "gs_routed_visits stranded_state = [(''body'', 0), (''done'', 0), (''loop'', 0)]"
  "gs_active_nodes stranded_state = [''body'']"
  by (simp_all add: stranded_state_def)

lemma stranded_reached: "graph_reached stranded_state i \<longleftrightarrow> i = ''body''"
  by (simp add: graph_reached_def visits_of_def stranded_visits bt_get_def)

lemma stranded_no_selection: "select_edges stranded_state source visit ids \<noteq> Inr t"
proof
  assume "select_edges stranded_state source visit ids = Inr t"
  then show False
  proof (rule select_edges_cases)
    fix visits routed selected
    assume v: "bt_get (gs_node_visits stranded_state) source = Some visits"
      "bt_get (gs_routed_visits stranded_state) source = Some routed"
      "unat visit = Suc (unat routed)" "visit \<le> visits"
      and ids: "compute_eligible_edge_ids stranded_state source = Inr ids"
      and sel: "traverse (find_edge (gs_definition stranded_state)) ids = Inr selected"
      and ok: "\<And>e. e \<in> set selected \<Longrightarrow> check_selected stranded_state e = Inr ()"
    from v have "source = ''body''"
      by (auto simp: stranded_visits bt_get_def word_le_nat_alt split: if_splits)
    moreover have "compute_eligible_edge_ids stranded_state ''body'' = Inr [''e2'']" by code_simp
    ultimately have "ids = [''e2'']" using ids by simp
    moreover define e where "e = \<lparr>ge_id = ''e2'', ge_from = ''body'', ge_to = ''loop'',
      ge_kind = LoopBack ''loop'', ge_condition = Always\<rparr>"
    moreover have "find_edge (gs_definition stranded_state) ''e2'' = Inr e" unfolding e_def by code_simp
    ultimately have "e \<in> set selected" using sel by auto
    moreover have "check_selected stranded_state e \<noteq> Inr ()" unfolding e_def by code_simp
    ultimately show False using ok by blast
  qed
qed

lemma stranded_no_event: "apply_initialized_event stranded_state event \<noteq> Inr t"
proof
  assume a: "apply_initialized_event stranded_state event = Inr t"
  show False
  proof (cases event)
    case (BranchAttemptStarted i v k)
    with a have "start_branch_attempt stranded_state i v k = Inr t" by simp
    moreover have "next_attempt_cursor [\<lparr>at_visit = 1, at_attempt = 1, at_outcome = sample_success\<rparr>]
      = Inr \<lparr>ac_visit = 2, ac_attempt = 1\<rparr>" by code_simp
    moreover have "bt_get (gs_node_visits stranded_state) ''body'' = Some 1"
      by (simp add: stranded_visits bt_get_def)
    ultimately show False by (elim start_branch_attempt_cases) (auto dest!: stranded_branches simp: stranded_branch_def)
  next
    case (BranchAttemptCompleted i v k x)
    with a have "complete_branch_attempt stranded_state i v k x = Inr t" by simp
    then show False by (rule complete_branch_attempt_cases) (auto dest!: stranded_branches simp: stranded_branch_def)
  next
    case (BranchRetryScheduled i v k)
    with a have "schedule_branch_retry stranded_state i v k = Inr t" by simp
    then show False
      by (rule schedule_branch_retry_cases)
        (auto dest!: stranded_branches simp: stranded_branch_def last_attempt_def sample_success_def)
  next
    case (JoinResolved i r)
    with a have "resolve_join stranded_state i r = Inr t" by simp
    moreover have "bt_get (gs_join_arrivals stranded_state) ''body'' = None"
      by (simp add: stranded_state_def bt_get_def)
    ultimately show False by (elim resolve_join_cases) (auto simp: stranded_reached)
  next
    case (LoopIterationCompleted i k x)
    with a have "complete_loop_iteration stranded_state i k x = Inr t" by simp
    moreover have "gs_loops stranded_state = [(''loop'', \<lparr>lr_completed_iterations = 0, lr_current_decision = None\<rparr>)]"
      by (simp add: stranded_state_def)
    ultimately show False
      by (elim complete_loop_iteration_cases) (auto simp: bt_get_def stranded_visits split: if_splits)
  next
    case (EdgesSelected i v ids)
    with a show False by (simp add: stranded_no_selection)
  next
    case (GraphTerminated i x)
    with a have "terminate_graph stranded_state i x = Inr t" by simp
    moreover have "find_node (gs_definition stranded_state) ''body'' = Inr \<lparr>gn_id = ''body'', gn_kind = Task ''b'' 2\<rparr>"
      by code_simp
    ultimately show False by (elim terminate_graph_cases) (auto simp: stranded_visits)
  qed (use a in simp)
qed

text \<open>C29. The definition checks accept a graph whose entry lies in a loop body, and its journal reaches a
  state that is not terminated and in which the reducer rejects every event: the entry task has
  completed, and the only edge that leaves it asks for a loop iteration that has not begun.\<close>

theorem loop_body_entry_strands_graph:
  "definition_validate stranded_graph = Inr ()
   \<and> (\<exists>s. replay_graph_events stranded_journal = Inr s \<and> gs_termination s = None
        \<and> (\<forall>event t. apply_graph_event (Some s) event \<noteq> Inr t))"
proof (intro conjI exI allI)
  show "definition_validate stranded_graph = Inr ()" by code_simp
  show "replay_graph_events stranded_journal = Inr stranded_state" by (rule stranded_replay)
  show "gs_termination stranded_state = None" by (simp add: stranded_state_def)
  show "apply_graph_event (Some stranded_state) event \<noteq> Inr t" for event t
    by (auto elim!: apply_graph_event_cases simp: stranded_no_event)
qed

end
