(* ===== verification/Graph_Bound.thy ===== *)
theory Graph_Bound
  imports Graph_Runtime
begin

text \<open>
  The worst-case event bound of a graph definition is a bound on its journals
  (\<^verbatim>\<open>validate_worst_case_event_bound\<close> in \<^verbatim>\<open>src/src/follow_up_queue/graph.rs\<close>).

  Every accepted event is charged to one node of the graph: \<open>node_used\<close> reads the charges off the
  runtime state, \<open>node_budget\<close> is the share of the node in the computed bound. The invariant
  \<open>accounted\<close> says that all events are charged, that visits are explained by edge traversals, and
  that a loop routes no more visits than it has decided. The locale \<open>reducer\<close> carries it to every
  replayed journal, and the checks of a valid state keep the charges within the budget.
\<close>

lemma node_map_get:
  assumes "distinct (map gn_id nodes)" and "n \<in> set nodes"
  shows "bt_get (node_map nodes) (gn_id n) = Some n"
proof -
  have "bt_get (fold (\<lambda>n. bt_insert (gn_id n) n) nodes m) (gn_id n) =
      (if n \<in> set nodes then Some n else bt_get m (gn_id n))"
    if "distinct (map gn_id nodes)" and "n \<in> set nodes \<or> gn_id n \<notin> gn_id ` set nodes" for m nodes
    using that
  proof (induction nodes arbitrary: m)
    case Nil
    then show ?case by simp
  next
    case (Cons k nodes)
    show ?case
    proof (cases "n = k")
      case True
      with Cons.prems have "n \<notin> set nodes" "gn_id n \<notin> gn_id ` set nodes" by auto
      with Cons True show ?thesis by (simp add: bt_get_insert)
    next
      case False
      have "gn_id n \<noteq> gn_id k"
      proof
        assume eq: "gn_id n = gn_id k"
        with Cons.prems(2) False have "n \<in> set nodes" by auto
        then have "gn_id n \<in> gn_id ` set nodes" by (rule imageI)
        with eq Cons.prems(1) show False by simp
      qed
      with Cons False show ?thesis by (auto simp: bt_get_insert)
    qed
  qed
  from this [OF assms(1)] assms(2) show ?thesis by (simp add: node_map_def)
qed

section \<open>What an accepted definition indexes\<close>

lemma strictly_sorted_distinct: "is_strictly_sorted xs \<Longrightarrow> distinct xs"
proof -
  have "is_strictly_sorted xs \<Longrightarrow> sorted_wrt (<) xs"
  proof (induction xs rule: is_strictly_sorted.induct)
    case (3 x y xs)
    then show ?case by (auto simp: not_le split: if_splits)
  qed simp_all
  then show "is_strictly_sorted xs \<Longrightarrow> distinct xs" by (simp add: strict_sorted_iff)
qed

definition indexed_as :: "graph_definition \<Rightarrow> node_index \<Rightarrow> edge_index \<Rightarrow> bool" where
  "indexed_as d ix x \<longleftrightarrow> distinct (map gn_id (gd_nodes d)) \<and> distinct (map ge_id (gd_edges d))
     \<and> index_nodes (gd_nodes d) = Inr ix \<and> index_edges (node_map (gd_nodes d)) ix (gd_edges d) = Inr x
     \<and> (\<forall>ic \<in> set (ei_incoming x). check_incoming (node_map (gd_nodes d)) ic = Inr ())
     \<and> validate_worst_case_event_bound (gd_nodes d) (ni_loops ix) (ei_membership x) = Inr ()"

lemma accepted_indexed:
  assumes "definition_validate d = Inr ()"
  obtains ix x where "indexed_as d ix x"
  using assms
  unfolding definition_validate_def validate_edges_def Let_def and_then_Inr_iff ensure_Inr_iff check_all_Inr_iff
  by (elim exE conjE) (simp add: indexed_as_def strictly_sorted_distinct)

lemma indexed_nodes:
  assumes "fold_result index_node ns ix = Inr iy" and "distinct (map gn_id ns)" and "n \<in> set ns"
  shows "(\<forall>i m. gn_kind n = Task i m \<longrightarrow> bt_get (ni_branches iy) i = Some (gn_id n, m) \<and> m \<noteq> 0)
    \<and> (\<forall>m. gn_kind n = LoopNode m \<longrightarrow> bt_get (ni_loops iy) (gn_id n) = Some m \<and> m \<noteq> 0)"
proof -
  have keep: "(\<forall>i v. bt_get (ni_branches ix) i = Some v \<longrightarrow> bt_get (ni_branches iy) i = Some v)
    \<and> (\<forall>i v. i \<notin> gn_id ` set ns \<longrightarrow> bt_get (ni_loops ix) i = Some v \<longrightarrow> bt_get (ni_loops iy) i = Some v)"
    if "fold_result index_node ns ix = Inr iy" for ns ix
    using that
  proof (induction ns arbitrary: ix)
    case Nil
    then show ?case by simp
  next
    case (Cons k ns)
    then obtain iz where z: "index_node k ix = Inr iz" "fold_result index_node ns iz = Inr iy"
      by (auto simp: result_iffs)
    from z(1) have "(\<forall>i v. bt_get (ni_branches ix) i = Some v \<longrightarrow> bt_get (ni_branches iz) i = Some v)
      \<and> (\<forall>i v. i \<noteq> gn_id k \<longrightarrow> bt_get (ni_loops ix) i = Some v \<longrightarrow> bt_get (ni_loops iz) i = Some v)"
      by (cases "gn_kind k") (auto simp: index_node_def bt_get_insert split: if_splits)
    with Cons.IH [OF z(2)] show ?case by simp
  qed
  show ?thesis using assms
  proof (induction ns arbitrary: ix)
    case Nil
    then show ?case by simp
  next
    case (Cons k ns)
    then obtain iz where z: "index_node k ix = Inr iz" "fold_result index_node ns iz = Inr iy"
      by (auto simp: result_iffs)
    show ?case
    proof (cases "n = k")
      case True
      with z(1) keep [OF z(2)] Cons.prems(2) show ?thesis
        by (cases "gn_kind k") (auto simp: index_node_def bt_get_insert split: if_splits)
    next
      case False
      with Cons.IH [OF z(2)] Cons.prems show ?thesis by simp
    qed
  qed
qed

lemma bind_loop_member_keeps:
  assumes "bind_loop_member i l m = Inr m'"
  shows "bt_get m' i = Some l" and "bt_get m j = Some k \<Longrightarrow> bt_get m' j = Some k"
  using assms by (auto simp: bind_loop_member_def bt_get_insert split: option.splits if_splits)

lemma bound_edge_kind:
  assumes "bind_edge_kind nodes ix e m = Inr m'"
  shows "bt_get m j = Some k \<Longrightarrow> bt_get m' j = Some k"
    and "ge_kind e = LoopBody l \<Longrightarrow> bt_get m' (ge_to e) = Some l"
    and "ge_kind e = LoopBack l \<Longrightarrow> ge_to e = l \<and> bt_get (ni_loops ix) l \<noteq> None"
  using assms
  by (cases "ge_kind e"; auto simp: bind_edge_kind_def result_iffs split: if_splits
      dest: bind_loop_member_keeps)+

definition edge_bound :: "node_index \<Rightarrow> (string, string) btree_map \<Rightarrow> graph_edge \<Rightarrow> bool" where
  "edge_bound ix m e \<longleftrightarrow>
     (case ge_kind e of
        LoopBody l \<Rightarrow> bt_get m (ge_to e) = Some l
      | LoopBack l \<Rightarrow> ge_to e = l \<and> bt_get (ni_loops ix) l \<noteq> None
      | _ \<Rightarrow> True)"

lemma indexed_edges:
  assumes "fold_result (index_edge nodes ix) edges x = Inr y"
  shows "(\<forall>j k. bt_get (ei_membership x) j = Some k \<longrightarrow> bt_get (ei_membership y) j = Some k)
    \<and> (\<forall>e \<in> set edges. edge_bound ix (ei_membership y) e)
    \<and> (\<forall>v c. bt_get (ei_incoming x) v = Some c \<longrightarrow>
        bt_get (ei_incoming y) v = Some (c + length (filter (\<lambda>e. ge_to e = v) edges)))"
  using assms
proof (induction edges arbitrary: x)
  case Nil
  then show ?case by simp
next
  case (Cons e edges)
  then obtain z where z: "index_edge nodes ix e x = Inr z" "fold_result (index_edge nodes ix) edges z = Inr y"
    by (auto simp: result_iffs)
  from z(1) obtain c m where c: "bt_get (ei_incoming x) (ge_to e) = Some c"
    "bind_edge_kind nodes ix e (ei_membership x) = Inr m"
    "ei_incoming z = bt_insert (ge_to e) (c + 1) (ei_incoming x)" "ei_membership z = m"
    unfolding index_edge_def and_then_Inr_iff ok_or_Inr_iff ensure_Inr_iff by (elim exE conjE) auto
  note IH = Cons.IH [OF z(2)]
  from c(2,4) IH have "edge_bound ix (ei_membership y) e"
    by (cases "ge_kind e") (auto simp: edge_bound_def dest: bound_edge_kind)
  moreover have "bt_get (ei_incoming y) v = Some (k + length (filter (\<lambda>e. ge_to e = v) (e # edges)))"
    if "bt_get (ei_incoming x) v = Some k" for v k
    using IH c(1,3) that by (cases "v = ge_to e") (simp_all add: bt_get_insert)
  ultimately show ?case using IH bound_edge_kind(1) [OF c(2)] c(4) by simp
qed

lemma one_incoming_edge:
  assumes "indexed_as d ix x" and "n \<in> set (gd_nodes d)" and "\<not> is_join (gn_kind n)" and "\<not> is_loop (gn_kind n)"
  shows "length (filter (\<lambda>e. ge_to e = gn_id n) (gd_edges d)) \<le> 1"
proof -
  let ?nm = "node_map (gd_nodes d)" and ?k = "length (filter (\<lambda>e. ge_to e = gn_id n) (gd_edges d))"
  have get: "bt_get ?nm (gn_id n) = Some n"
    by (rule node_map_get) (use assms in \<open>simp_all add: indexed_as_def\<close>)
  have "bt_get (map (\<lambda>(i, _). (i, 0 :: nat)) ?nm) (gn_id n) = Some 0"
  proof -
    have "gn_id n \<in> fst ` set ?nm" using assms(2) by (simp add: node_map_keys)
    then have "bt_get (map (\<lambda>(i, _). (i, 0 :: nat)) ms) (gn_id n) = Some 0"
      if "gn_id n \<in> fst ` set ms" for ms :: node_map using that by (induction ms) (auto simp: bt_get_def)
    then show ?thesis using \<open>gn_id n \<in> fst ` set ?nm\<close> by blast
  qed
  with assms(1) indexed_edges [of ?nm ix "gd_edges d"] have "bt_get (ei_incoming x) (gn_id n) = Some ?k"
    unfolding indexed_as_def index_edges_def by fastforce
  then have "(gn_id n, ?k) \<in> set (ei_incoming x)" by (auto simp: bt_get_def dest: map_of_SomeD)
  with assms(1) have "check_incoming ?nm (gn_id n, ?k) = Inr ()" unfolding indexed_as_def by blast
  with get assms(3,4) show ?thesis by (cases "gn_kind n") (auto simp: check_incoming_def result_iffs)
qed

section \<open>The budget of a node\<close>

definition visit_budget :: "(string, u16) btree_map \<Rightarrow> (string, string) btree_map \<Rightarrow> string \<Rightarrow> nat" where
  "visit_budget loops membership i =
     (case bt_get membership i of None \<Rightarrow> 1
      | Some l \<Rightarrow> (case bt_get loops l of None \<Rightarrow> 0 | Some m \<Rightarrow> unat m))"

definition node_budget :: "(string, u16) btree_map \<Rightarrow> (string, string) btree_map \<Rightarrow> graph_node \<Rightarrow> nat" where
  "node_budget loops membership n =
     (case gn_kind n of
        Task _ max_attempts \<Rightarrow> visit_budget loops membership (gn_id n) * (unat max_attempts * 3)
      | LoopNode max_iterations \<Rightarrow> unat max_iterations * 2
      | Join _ \<Rightarrow> 2
      | _ \<Rightarrow> visit_budget loops membership (gn_id n))"

lemma unat_widen: "unat (ucast (m :: u16) :: usize) = unat m"
  by (simp add: unsigned_ucast_eq take_bit_nat_eq_self_iff) (use unat_less_exp [of m] in simp)

lemma node_events_budget:
  assumes "node_events loops membership n b = Inr c"
  shows "unat c = unat b + node_budget loops membership n"
proof (cases "bt_get membership (gn_id n)")
  case None
  with assms show ?thesis
    by (cases "gn_kind n")
      (auto simp: node_events_def node_budget_def visit_budget_def result_iffs width_simps unat_widen Let_def)
next
  case (Some l)
  with assms obtain m where "bt_get loops l = Some m" by (auto simp: node_events_def result_iffs)
  with assms Some show ?thesis
    by (cases "gn_kind n")
      (auto simp: node_events_def node_budget_def visit_budget_def result_iffs width_simps unat_widen Let_def)
qed

lemma worst_case_budget:
  "fold_result (node_events loops membership) ns b = Inr c \<Longrightarrow>
     unat c = unat b + sum_list (map (node_budget loops membership) ns)"
  by (induction ns arbitrary: b) (auto simp: result_iffs dest!: node_events_budget)

section \<open>The events of a branch\<close>

text \<open>
  Every accepted event is charged to one node. An attempt costs its start and its completion, and the
  scheduling of the retry when it is not the first of its visit.
\<close>

definition attempt_cost :: "attempt_record \<Rightarrow> nat" where
  "attempt_cost a = (if at_attempt a = 1 then 2 else 3)"

definition branch_events :: "branch_runtime \<Rightarrow> nat" where
  "branch_events b = sum_list (map attempt_cost (gb_attempts b))
     + (case gb_attempt_in_progress b of None \<Rightarrow> 0 | Some c \<Rightarrow> if ac_attempt c = 1 then 1 else 2)
     + (case gb_retry_scheduled b of None \<Rightarrow> 0 | Some _ \<Rightarrow> 1)"

lemma expected_cursor_nat:
  assumes "expected_cursor p = Inr c"
  shows "if is_retryable (at_outcome p)
    then unat (ac_visit c) = unat (at_visit p) \<and> unat (ac_attempt c) = Suc (unat (at_attempt p))
    else unat (ac_visit c) = Suc (unat (at_visit p)) \<and> ac_attempt c = 1"
  using assms by (auto simp: expected_cursor_def result_iffs dest: checked_add_one_Some split: if_splits)

lemma next_cursor_nat:
  assumes "next_attempt_cursor xs = Inr c" and "xs \<noteq> []"
  shows "if is_retryable (at_outcome (last xs))
    then unat (ac_visit c) = unat (at_visit (last xs)) \<and> unat (ac_attempt c) = Suc (unat (at_attempt (last xs)))
    else unat (ac_visit c) = Suc (unat (at_visit (last xs))) \<and> ac_attempt c = 1"
  using assms by (auto simp: next_attempt_cursor_def Let_def result_iffs dest: checked_add_one_Some split: if_splits)

lemma attempts_after:
  assumes "validate_attempts M (Some p) xs = Inr ()" and "0 < unat (at_attempt p)" and "at_attempt p \<le> M"
  shows "sum_list (map attempt_cost xs) + 3 * (unat M * unat (at_visit p)) + 3 * unat (at_attempt p)
      + unat (at_visit (last (p # xs)))
    \<le> 3 * (unat M * unat (at_visit (last (p # xs)))) + 3 * unat (at_attempt (last (p # xs))) + unat (at_visit p)
    \<and> at_attempt (last (p # xs)) \<le> M"
  using assms
proof (induction xs arbitrary: p)
  case Nil
  then show ?case by simp
next
  case (Cons a xs)
  from Cons.prems(1) obtain c where a: "at_attempt a \<noteq> 0" "\<not> M < at_attempt a" "expected_cursor p = Inr c"
    "at_visit a = ac_visit c" "at_attempt a = ac_attempt c" "validate_attempts M (Some a) xs = Inr ()"
    by (auto simp: result_iffs)
  have pos: "0 < unat (at_attempt a)" using a(1) by (simp add: unat_gt_0)
  have M: "unat (at_attempt p) \<le> unat M" using Cons.prems(3) by (simp add: word_le_nat_alt)
  note IH = Cons.IH [OF a(6) pos] a(2)
  have "attempt_cost a + 3 * (unat M * unat (at_visit p)) + 3 * unat (at_attempt p) + unat (at_visit a)
      \<le> 3 * (unat M * unat (at_visit a)) + 3 * unat (at_attempt a) + unat (at_visit p)"
  proof (cases "is_retryable (at_outcome p)")
    case True
    with expected_cursor_nat [OF a(3)] a(4,5) show ?thesis by (simp add: attempt_cost_def)
  next
    case False
    with expected_cursor_nat [OF a(3)] a(4,5) M show ?thesis by (simp add: attempt_cost_def)
  qed
  with IH show ?case by (simp add: not_less)
qed

lemma attempts_total:
  assumes "validate_attempts M None xs = Inr ()" and "xs \<noteq> []"
  shows "sum_list (map attempt_cost xs) + 3 * unat M + unat (at_visit (last xs))
      \<le> 3 * (unat M * unat (at_visit (last xs))) + 3 * unat (at_attempt (last xs))
    \<and> at_attempt (last xs) \<le> M"
proof -
  from assms obtain p ys where xs: "xs = p # ys" by (cases xs) simp_all
  with assms(1) have p: "at_visit p = 1" "at_attempt p = 1" "1 \<le> M" "validate_attempts M (Some p) ys = Inr ()"
    by (auto simp: result_iffs not_less)
  have "0 < unat (at_attempt p)" "at_attempt p \<le> M" using p by simp_all
  from attempts_after [OF p(4) this] p show ?thesis by (auto simp: xs attempt_cost_def)
qed

lemma branch_events_arith:
  fixes b visits routed
  defines "M \<equiv> unat (gb_max_attempts b)" and "v \<equiv> unat (at_visit (last (gb_attempts b)))"
    and "k \<equiv> unat (at_attempt (last (gb_attempts b)))"
  assumes "gb_attempts b \<noteq> []" and "k \<le> M"
    and F: "sum_list (map attempt_cost (gb_attempts b)) + 3 * M + v \<le> 3 * (M * v) + 3 * k"
    and vr: "unat routed \<le> v" "v \<le> unat visits"
    and prog: "\<And>c. gb_attempt_in_progress b = Some c \<Longrightarrow> next_attempt_cursor (gb_attempts b) = Inr c
      \<and> unat (ac_attempt c) \<le> M \<and> gb_retry_scheduled b = None
      \<and> ac_visit c = visits \<and> unat routed < unat visits"
    and retry: "\<And>c. gb_retry_scheduled b = Some c \<Longrightarrow> gb_attempt_in_progress b = None
      \<and> next_attempt_cursor (gb_attempts b) = Inr c \<and> is_retryable (at_outcome (last (gb_attempts b)))
      \<and> ac_visit c = visits \<and> unat routed < unat visits"
  shows "branch_events b + unat routed \<le> 3 * (M * unat visits)"
proof -
  let ?F = "sum_list (map attempt_cost (gb_attempts b))"
  have Mv: "M * v \<le> M * unat visits" using vr(2) by simp
  note cursor = next_cursor_nat [OF _ \<open>gb_attempts b \<noteq> []\<close>, folded v_def k_def]
  show ?thesis
  proof (cases "gb_attempt_in_progress b")
    case None
    show ?thesis
    proof (cases "gb_retry_scheduled b")
      case None
      with \<open>gb_attempt_in_progress b = None\<close> have "branch_events b = ?F" by (simp add: branch_events_def)
      with F \<open>k \<le> M\<close> vr Mv show ?thesis by linarith
    next
      case (Some c)
      with None have "branch_events b = ?F + 1" by (simp add: branch_events_def)
      moreover from retry [OF Some] cursor [of c] have "unat visits = v" "unat routed < v" by auto
      ultimately show ?thesis using F \<open>k \<le> M\<close> Mv by linarith
    qed
  next
    case (Some c)
    note p = prog [OF Some]
    from Some p have e: "branch_events b = ?F + (if ac_attempt c = 1 then 1 else 2)" by (simp add: branch_events_def)
    show ?thesis
    proof (cases "is_retryable (at_outcome (last (gb_attempts b)))")
      case True
      with p cursor [of c] have "unat visits = v" "unat (ac_attempt c) = Suc k" by auto
      moreover from e have "branch_events b \<le> ?F + 2" by simp
      ultimately show ?thesis using p F Mv by linarith
    next
      case False
      with p cursor [of c] have n: "unat visits = Suc v" "ac_attempt c = 1" by auto
      then have "M * unat visits = M * v + M" by simp
      moreover from p n(2) have "1 \<le> M" by simp
      moreover from e n(2) have "branch_events b = ?F + 1" by simp
      ultimately show ?thesis using F \<open>k \<le> M\<close> vr by linarith
    qed
  qed
qed

lemma branch_within_budget:
  assumes "branch_validate b = Inr ()" and "branch_frontier_ok b visits routed"
  shows "branch_events b + unat routed \<le> unat visits * (unat (gb_max_attempts b) * 3)"
proof -
  let ?M = "unat (gb_max_attempts b)" and ?xs = "gb_attempts b"
  from assms(1) have M: "0 < ?M" and att: "validate_attempts (gb_max_attempts b) None ?xs = Inr ()"
    and top: "\<not> (case last_attempt b of None \<Rightarrow> False
       | Some a \<Rightarrow> is_retryable (at_outcome a) \<and> at_attempt a = gb_max_attempts b)"
    and prog: "\<And>c. gb_attempt_in_progress b = Some c \<Longrightarrow> next_attempt_cursor ?xs = Inr c
      \<and> ac_attempt c \<le> gb_max_attempts b \<and> gb_retry_scheduled b = None"
    and retry: "\<And>c. gb_retry_scheduled b = Some c \<Longrightarrow> gb_attempt_in_progress b = None
      \<and> next_attempt_cursor ?xs = Inr c \<and> ?xs \<noteq> [] \<and> is_retryable (at_outcome (last ?xs))"
    unfolding branch_validate_def and_then_Inr_iff ensure_Inr_iff
    by (auto simp: unat_gt_0 result_iffs last_attempt_def not_less split: option.splits if_splits)
  note frontier = assms(2) [unfolded branch_frontier_ok_def Let_def last_attempt_def]
  let ?goal = "branch_events b + unat routed \<le> 3 * (?M * unat visits)"
  have ?goal
  proof (cases "?xs = []")
    case True
    with frontier have r: "routed = 0" by (simp add: word_gt_0)
    from True retry have noretry: "gb_retry_scheduled b = None" by (cases "gb_retry_scheduled b") auto
    show ?goal
    proof (cases "gb_attempt_in_progress b")
      case None
      with True r noretry show ?goal by (simp add: branch_events_def)
    next
      case (Some c)
      with prog True have "c = \<lparr>ac_visit = 1, ac_attempt = 1\<rparr>" by (auto simp: next_attempt_cursor_def)
      with Some frontier have "visits = 1" by simp
      with True r noretry Some \<open>c = _\<close> M show ?goal by (simp add: branch_events_def)
    qed
  next
    case False
    with frontier have "unat routed \<le> unat (at_visit (last ?xs))" "unat (at_visit (last ?xs)) \<le> unat visits"
      by (simp_all add: word_less_nat_alt not_less)
    moreover have "ac_visit c = visits \<and> unat routed < unat visits"
      if "gb_attempt_in_progress b = Some c \<or> gb_retry_scheduled b = Some c" for c
      using that frontier by (auto simp: word_le_nat_alt not_le)
    ultimately show ?goal
      using attempts_total [OF att False] prog retry False
      by (intro branch_events_arith) (auto simp: word_le_nat_alt)
  qed
  then show ?thesis by (simp add: ac_simps)
qed

section \<open>The events charged to a node\<close>

definition node_used :: "graph_state \<Rightarrow> graph_node \<Rightarrow> nat" where
  "node_used s n = unat (routed_of s (gn_id n)) +
     (case gn_kind n of
        Task i _ \<Rightarrow> (case bt_get (gs_branches s) i of None \<Rightarrow> 0 | Some b \<Rightarrow> branch_events b)
      | Join _ \<Rightarrow> (if bt_get (gs_joins s) (gn_id n) = None then 0 else 1)
      | LoopNode _ \<Rightarrow> (case loop_iterations s (gn_id n) of None \<Rightarrow> 0 | Some k \<Rightarrow> unat k)
      | _ \<Rightarrow> 0)"

definition arrivals_at :: "graph_state \<Rightarrow> string \<Rightarrow> nat" where
  "arrivals_at s i =
     sum_list (map (\<lambda>e. unat (traversals_of s (ge_id e))) (filter (\<lambda>e. ge_to e = i) (gd_edges (gs_definition s))))"

text \<open>Visits are explained by the entry and by traversals; a loop routes what it has decided.\<close>

definition visits_explained :: "graph_state \<Rightarrow> bool" where
  "visits_explained s \<longleftrightarrow> (\<forall>n \<in> set (gd_nodes (gs_definition s)).
     unat (visits_of s (gn_id n)) \<le>
       (if is_join (gn_kind n) then 1
        else (if gn_id n = gd_entry_node_id (gs_definition s) then 1 else 0) + arrivals_at s (gn_id n)))"

definition loops_explained :: "graph_state \<Rightarrow> bool" where
  "loops_explained s \<longleftrightarrow> (\<forall>n \<in> set (gd_nodes (gs_definition s)). is_loop (gn_kind n) \<longrightarrow>
     unat (routed_of s (gn_id n)) \<le> (case loop_iterations s (gn_id n) of None \<Rightarrow> 0 | Some k \<Rightarrow> unat k))"

definition events_charged :: "graph_state \<Rightarrow> bool" where
  "events_charged s \<longleftrightarrow>
     unat (gs_event_count s) \<le> 1 + sum_list (map (node_used s) (gd_nodes (gs_definition s)))"

definition accounted :: "graph_state \<Rightarrow> bool" where
  "accounted s \<longleftrightarrow> visits_explained s \<and> loops_explained s \<and> events_charged s"

lemma visits_explained_same:
  assumes "gs_definition t = gs_definition s" and "gs_node_visits t = gs_node_visits s"
    and "gs_edge_traversals t = gs_edge_traversals s"
  shows "visits_explained t = visits_explained s"
proof -
  have "visits_of t = visits_of s" "traversals_of t = traversals_of s"
    using assms by (auto simp: visits_of_def traversals_of_def fun_eq_iff)
  then show ?thesis using assms(1) by (simp add: visits_explained_def arrivals_at_def)
qed

lemma loops_explained_same:
  assumes "gs_definition t = gs_definition s" and "gs_routed_visits t = gs_routed_visits s"
    and "gs_loops t = gs_loops s"
  shows "loops_explained t = loops_explained s"
proof -
  have "routed_of t = routed_of s" "loop_iterations t = loop_iterations s"
    using assms by (auto simp: routed_of_def loop_iterations_def fun_eq_iff)
  then show ?thesis using assms(1) by (simp add: loops_explained_def)
qed

lemma sum_list_strict_mono:
  fixes f g :: "'a \<Rightarrow> nat"
  assumes "\<And>x. x \<in> set xs \<Longrightarrow> f x \<le> g x" and "y \<in> set xs" and "f y < g y"
  shows "sum_list (map f xs) < sum_list (map g xs)"
  using assms
proof (induction xs)
  case Nil
  then show ?case by simp
next
  case (Cons x xs)
  have le: "sum_list (map f xs) \<le> sum_list (map g xs)" using Cons.prems(1) by (intro sum_list_mono) simp
  show ?case
  proof (cases "y \<in> set xs")
    case True
    with Cons have "sum_list (map f xs) < sum_list (map g xs)" by simp
    with Cons.prems(1) [of x] show ?thesis by simp
  next
    case False
    with Cons.prems le show ?thesis by simp
  qed
qed

lemma events_charged_step:
  assumes "events_charged s" and "gs_definition t = gs_definition s"
    and "unat (gs_event_count t) = unat (gs_event_count s) + 1"
    and "\<And>n. n \<in> set (gd_nodes (gs_definition s)) \<Longrightarrow> node_used s n \<le> node_used t n"
    and "n \<in> set (gd_nodes (gs_definition s))" and "node_used s n < node_used t n"
  shows "events_charged t"
  using sum_list_strict_mono [of "gd_nodes (gs_definition s)" "node_used s" "node_used t" n] assms
  by (simp add: events_charged_def)

lemma find_node_iff:
  assumes "distinct (map gn_id (gd_nodes d))"
  shows "find_node d i = Inr n \<longleftrightarrow> n \<in> set (gd_nodes d) \<and> gn_id n = i"
proof
  assume "find_node d i = Inr n"
  then show "n \<in> set (gd_nodes d) \<and> gn_id n = i" by (auto simp: find_node_def result_iffs dest: find_SomeD)
next
  assume n: "n \<in> set (gd_nodes d) \<and> gn_id n = i"
  then obtain k where k: "List.find (\<lambda>n. gn_id n = i) (gd_nodes d) = Some k"
    by (metis (mono_tags, lifting) find_None_iff2 option.exhaust)
  with n have "k \<in> set (gd_nodes d)" "gn_id k = gn_id n" by (auto dest: find_SomeD)
  with assms n have "k = n" by (auto simp: distinct_map inj_on_def)
  with k show "find_node d i = Inr n" by (simp add: find_node_def)
qed

lemma valid_distinct:
  assumes "runtime_validate s = Inr ()"
  shows "distinct (map gn_id (gd_nodes (gs_definition s)))" and "distinct (map ge_id (gd_edges (gs_definition s)))"
  using runtime_validate_parts(1) [OF assms] by (auto elim!: accepted_indexed simp: indexed_as_def)

lemma valid_node_lookups:
  assumes "runtime_validate s = Inr ()" and "n \<in> set (gd_nodes (gs_definition s))"
  shows "unat (routed_of s (gn_id n)) \<le> unat (visits_of s (gn_id n))"
  using runtime_validate_parts(8) [OF assms]
  by (auto simp: check_visits_def result_iffs routed_of_def visits_of_def not_less word_le_nat_alt)

lemma valid_branch:
  assumes "runtime_validate s = Inr ()" and "bt_get (gs_branches s) i = Some b"
  obtains n m where "n \<in> set (gd_nodes (gs_definition s))" and "gn_id n = gb_node_id b"
    and "gn_kind n = Task i m" and "gb_max_attempts b = m" and "branch_validate b = Inr ()"
    and "branch_frontier_ok b (visits_of s (gb_node_id b)) (routed_of s (gb_node_id b))"
proof -
  from assms(2) have "(i, b) \<in> set (gs_branches s)" by (auto simp: bt_get_def dest: map_of_SomeD)
  then have c: "check_branch s (i, b) = Inr ()" by (rule runtime_validate_parts(5) [OF assms(1)])
  then obtain n where n: "find_node (gs_definition s) (gb_node_id b) = Inr n" "branch_validate b = Inr ()"
    by (auto simp: check_branch_def result_iffs)
  with c that show thesis using find_node_iff [OF valid_distinct(1) [OF assms(1)]]
    by (cases "gn_kind n") (auto simp: check_branch_def result_iffs)
qed

section \<open>Every accepted event is charged\<close>

lemma branch_event_accounted:
  assumes "accounted s" and "runtime_validate s = Inr ()" and "bt_get (gs_branches s) i = Some b"
    and "branch_events c = Suc (branch_events b)" and "unat count = unat (gs_event_count s) + 1"
  shows "accounted (s\<lparr>gs_branches := bt_insert i c (gs_branches s), gs_event_count := count\<rparr>)"
proof -
  let ?t = "s\<lparr>gs_branches := bt_insert i c (gs_branches s), gs_event_count := count\<rparr>"
  obtain n m where n: "n \<in> set (gd_nodes (gs_definition s))" "gn_kind n = Task i m"
    using valid_branch [OF assms(2,3)] by metis
  have "node_used s k \<le> node_used ?t k" for k
    using assms(3,4) by (cases "gn_kind k") (auto simp: node_used_def bt_get_insert routed_of_def loop_iterations_def)
  moreover have "node_used s n < node_used ?t n"
    using assms(3,4) n(2) by (simp add: node_used_def bt_get_insert routed_of_def)
  ultimately have "events_charged ?t"
    using assms(1,5) n(1) by (intro events_charged_step [of s ?t n]) (simp_all add: accounted_def)
  with assms(1) show ?thesis by (simp add: accounted_def visits_explained_same [of ?t s] loops_explained_same [of ?t s])
qed

lemma start_accounted:
  assumes "start_branch_attempt s i v k = Inr t" and "accounted s" and "runtime_validate s = Inr ()"
    and "unat count = unat (gs_event_count s) + 1"
  shows "accounted (t\<lparr>gs_event_count := count\<rparr>)"
  using assms(1)
proof (rule start_branch_attempt_cases)
  fix b :: branch_runtime
  let ?c = "b\<lparr>gb_retry_scheduled := None, gb_attempt_in_progress := Some \<lparr>ac_visit = v, ac_attempt = k\<rparr>\<rparr>"
  assume b: "bt_get (gs_branches s) i = Some b" "gb_attempt_in_progress b = None"
    "gb_retry_scheduled b = (if k = 1 then None else Some \<lparr>ac_visit = v, ac_attempt = k\<rparr>)"
    and t: "t = s\<lparr>gs_branches := bt_insert i ?c (gs_branches s)\<rparr>"
  have "branch_events ?c = Suc (branch_events b)" using b(2,3) by (simp add: branch_events_def)
  from branch_event_accounted [OF assms(2,3) b(1) this assms(4)] show ?thesis by (simp add: t)
qed

lemma complete_accounted:
  assumes "complete_branch_attempt s i v k out = Inr t" and "accounted s" and "runtime_validate s = Inr ()"
    and "unat count = unat (gs_event_count s) + 1"
  shows "accounted (t\<lparr>gs_event_count := count\<rparr>)"
  using assms(1)
proof (rule complete_branch_attempt_cases)
  fix b :: branch_runtime
  let ?c = "b\<lparr>gb_attempts := gb_attempts b @ [\<lparr>at_visit = v, at_attempt = k, at_outcome = out\<rparr>],
    gb_attempt_in_progress := None\<rparr>"
  assume b: "bt_get (gs_branches s) i = Some b" "gb_attempt_in_progress b = Some \<lparr>ac_visit = v, ac_attempt = k\<rparr>"
    and t: "t = s\<lparr>gs_branches := bt_insert i ?c (gs_branches s)\<rparr>"
  have "branch_events ?c = Suc (branch_events b)" using b(2) by (simp add: branch_events_def attempt_cost_def)
  from branch_event_accounted [OF assms(2,3) b(1) this assms(4)] show ?thesis by (simp add: t)
qed

lemma retry_accounted:
  assumes "schedule_branch_retry s i v k = Inr t" and "accounted s" and "runtime_validate s = Inr ()"
    and "unat count = unat (gs_event_count s) + 1"
  shows "accounted (t\<lparr>gs_event_count := count\<rparr>)"
  using assms(1)
proof (rule schedule_branch_retry_cases)
  fix b :: branch_runtime
  let ?c = "b\<lparr>gb_retry_scheduled := Some \<lparr>ac_visit = v, ac_attempt = k\<rparr>\<rparr>"
  assume b: "bt_get (gs_branches s) i = Some b" "gb_retry_scheduled b = None"
    and t: "t = s\<lparr>gs_branches := bt_insert i ?c (gs_branches s)\<rparr>"
  have "branch_events ?c = Suc (branch_events b)" using b(2) by (simp add: branch_events_def)
  from branch_event_accounted [OF assms(2,3) b(1) this assms(4)] show ?thesis by (simp add: t)
qed

lemma join_accounted:
  assumes "resolve_join s i r = Inr t" and "accounted s" and "runtime_validate s = Inr ()"
    and "unat count = unat (gs_event_count s) + 1"
  shows "accounted (t\<lparr>gs_event_count := count\<rparr>)"
  using assms(1)
proof (rule resolve_join_cases)
  let ?t = "t\<lparr>gs_event_count := count\<rparr>"
  fix n branches
  assume j: "bt_get (gs_joins s) i = None" "find_node (gs_definition s) i = Inr n" "gn_kind n = Join branches"
    and t: "t = s\<lparr>gs_joins := bt_insert i r (gs_joins s)\<rparr>"
  from j(2) have n: "n \<in> set (gd_nodes (gs_definition s))" "gn_id n = i"
    by (simp_all add: find_node_iff [OF valid_distinct(1) [OF assms(3)]])
  have "node_used s k \<le> node_used ?t k" for k
    by (cases "gn_kind k") (auto simp: t node_used_def bt_get_insert routed_of_def loop_iterations_def)
  moreover have "node_used s n < node_used ?t n"
    using j(1,3) n(2) by (simp add: t node_used_def bt_get_insert routed_of_def)
  ultimately have "events_charged ?t"
    using assms(2,4) n(1) by (intro events_charged_step [of s ?t n]) (simp_all add: accounted_def t)
  moreover have "visits_explained ?t = visits_explained s" "loops_explained ?t = loops_explained s"
    by (rule visits_explained_same loops_explained_same; simp add: t)+
  ultimately show ?thesis using assms(2) by (simp only: accounted_def)
qed

lemma loop_accounted:
  assumes "complete_loop_iteration s i k decision = Inr t" and "accounted s" and "runtime_validate s = Inr ()"
    and "unat count = unat (gs_event_count s) + 1"
  shows "accounted (t\<lparr>gs_event_count := count\<rparr>)"
  using assms(1)
proof (rule complete_loop_iteration_cases)
  let ?t = "t\<lparr>gs_event_count := count\<rparr>"
  fix n m runtime
  let ?r = "\<lparr>lr_completed_iterations = k,
    lr_current_decision = Some \<lparr>ld_iteration = k, ld_decision = decision, ld_routed = False\<rparr>\<rparr>"
  assume j: "find_node (gs_definition s) i = Inr n" "gn_kind n = LoopNode m" "bt_get (gs_loops s) i = Some runtime"
    "unat k = Suc (unat (lr_completed_iterations runtime))"
    and t: "t = s\<lparr>gs_loops := bt_insert i ?r (gs_loops s)\<rparr>"
  from j(1) have n: "n \<in> set (gd_nodes (gs_definition s))" "gn_id n = i"
    by (simp_all add: find_node_iff [OF valid_distinct(1) [OF assms(3)]])
  have "node_used s l \<le> node_used ?t l" for l
    using j(3,4) by (cases "gn_kind l") (auto simp: t node_used_def bt_get_insert routed_of_def loop_iterations_def)
  moreover have "node_used s n < node_used ?t n"
    using j(2,3,4) n(2) by (simp add: t node_used_def bt_get_insert routed_of_def loop_iterations_def)
  ultimately have "events_charged ?t"
    using assms(2,4) n(1) by (intro events_charged_step [of s ?t n]) (simp_all add: accounted_def t)
  moreover have "loops_explained ?t"
    using assms(2) j(3,4)
    by (fastforce simp: t accounted_def loops_explained_def loop_iterations_def routed_of_def bt_get_insert)
  moreover have "visits_explained ?t = visits_explained s" by (rule visits_explained_same) (simp_all add: t)
  ultimately show ?thesis using assms(2) by (simp only: accounted_def)
qed

lemma active_unrouted:
  assumes "runtime_validate s = Inr ()" and "i \<in> set (gs_active_nodes s)"
  shows "unat (routed_of s i) < unat (visits_of s i)"
proof -
  have "i \<in> set active \<or> unat (routed_of s i) < unat (visits_of s i)"
    if "fold_result (check_visits s) ns active = Inr expected" and "i \<in> set expected" for ns active expected
    using that
  proof (induction ns arbitrary: active)
    case Nil
    then show ?case by simp
  next
    case (Cons n ns)
    then obtain a where a: "check_visits s n active = Inr a" "fold_result (check_visits s) ns a = Inr expected"
      by (auto simp: result_iffs)
    from a(1) have "i \<in> set a \<Longrightarrow> i \<in> set active \<or> unat (routed_of s i) < unat (visits_of s i)"
      by (auto simp: check_visits_def result_iffs routed_of_def visits_of_def word_less_nat_alt split: if_splits)
    with Cons.IH [OF a(2) Cons.prems(2)] show ?case by blast
  qed
  moreover obtain expected where "fold_result (check_visits s) (gd_nodes (gs_definition s)) [] = Inr expected"
    "gs_active_nodes s = expected"
    using assms(1) unfolding runtime_validate_def Let_def and_then_Inr_iff ensure_Inr_iff by blast
  ultimately show ?thesis using assms(2) by fastforce
qed

text \<open>Routing a visit of a node: the routed count of that node grows, the others stay.\<close>

lemma routed_accounted:
  assumes "events_charged s" and "n \<in> set (gd_nodes (gs_definition s))"
    and "gs_definition t = gs_definition s" and "gs_branches t = gs_branches s" and "gs_joins t = gs_joins s"
    and "loop_iterations t = loop_iterations s"
    and "gs_routed_visits t = bt_insert (gn_id n) v (gs_routed_visits s)"
    and "unat (routed_of s (gn_id n)) < unat v" and "unat (gs_event_count t) = unat (gs_event_count s) + 1"
  shows "events_charged t"
proof (rule events_charged_step [of s t n])
  have r: "routed_of t i = (if i = gn_id n then v else routed_of s i)" for i
    using assms(7) by (simp add: routed_of_def bt_get_insert)
  show "node_used s k \<le> node_used t k" for k
    using assms(4,5,6,8) by (cases "gn_kind k") (auto simp: node_used_def r)
  show "node_used s n < node_used t n"
    using assms(4,5,6,8) by (cases "gn_kind n") (auto simp: node_used_def r)
qed (use assms in simp_all)

lemma terminate_accounted:
  assumes "terminate_graph s i out = Inr t" and "accounted s" and "runtime_validate s = Inr ()"
    and "unat count = unat (gs_event_count s) + 1"
  shows "accounted (t\<lparr>gs_event_count := count\<rparr>)"
  using assms(1)
proof (rule terminate_graph_cases)
  let ?t = "t\<lparr>gs_event_count := count\<rparr>"
  fix n v
  assume j: "find_node (gs_definition s) i = Inr n" "gn_kind n = Terminate out" "gs_active_nodes s = [i]"
    "bt_get (gs_node_visits s) i = Some v"
    and t: "t = s\<lparr>gs_routed_visits := bt_insert i v (gs_routed_visits s),
      gs_active_nodes := [], gs_termination := Some \<lparr>tm_node_id = i, tm_outcome = out\<rparr>\<rparr>"
  note fn = find_node_iff [OF valid_distinct(1) [OF assms(3)]]
  from j(1) have n: "n \<in> set (gd_nodes (gs_definition s))" "gn_id n = i" by (simp_all add: fn)
  have lt: "unat (routed_of s i) < unat v"
    using active_unrouted [OF assms(3), of i] j(3,4) by (simp add: visits_of_def)
  have "loop_iterations t = loop_iterations s" by (simp add: t loop_iterations_def fun_eq_iff)
  then have "events_charged ?t" using assms(2,4) n lt
    by (intro routed_accounted [of s n ?t v]) (simp_all add: accounted_def t loop_iterations_def fun_eq_iff)
  moreover have "loops_explained ?t"
  proof -
    have "k = n" if "k \<in> set (gd_nodes (gs_definition s))" "gn_id k = i" for k
      using that j(1) fn [of i k] by simp
    then have "routed_of ?t (gn_id k) = routed_of s (gn_id k)"
      if "k \<in> set (gd_nodes (gs_definition s))" "is_loop (gn_kind k)" for k
      using that j(2) by (auto simp: t routed_of_def bt_get_insert)
    with assms(2) show ?thesis by (simp add: accounted_def loops_explained_def t loop_iterations_def)
  qed
  moreover have "visits_explained ?t = visits_explained s" by (rule visits_explained_same) (simp_all add: t)
  ultimately show ?thesis using assms(2) by (simp only: accounted_def)
qed

lemma arrive_frame: "arrive e s = Inr t \<Longrightarrow> \<exists>a. t = s\<lparr>gs_join_arrivals := a\<rparr>"
  by (cases "ge_kind e")
    (auto simp: arrive_def result_iffs intro: exI [of _ "gs_join_arrivals s"])

lemma traverse_edge_cases:
  assumes "traverse_edge e s = Inr t"
  obtains c destination visits v a where "unat c = Suc (unat (traversals_of s (ge_id e)))"
    and "find_node (gs_definition s) (ge_to e) = Inr destination"
    and "bt_get (gs_node_visits s) (ge_to e) = Some visits"
    and "next_visit (gn_kind destination) (ge_kind e) visits = Inr v"
    and "t = s\<lparr>gs_edge_traversals := bt_insert (ge_id e) c (gs_edge_traversals s), gs_join_arrivals := a,
      gs_node_visits := bt_insert (ge_to e) v (gs_node_visits s),
      gs_active_nodes := btree_set (ge_to e # gs_active_nodes s)\<rparr>"
proof -
  from assms obtain c where c: "checked_add (traversals_of s (ge_id e)) 1 = Some c"
    "reach_destination e (s\<lparr>gs_edge_traversals := bt_insert (ge_id e) c (gs_edge_traversals s)\<rparr>) = Inr t"
    by (auto simp: traverse_edge_def result_iffs)
  from c(2) that [of c] checked_add_one_Some [OF c(1)] show thesis
    unfolding reach_destination_def and_then_Inr_iff ok_or_Inr_iff ensure_Inr_iff
    by (elim exE conjE) (drule arrive_frame, auto)
qed

lemma sum_list_bump:
  fixes g h :: "'b \<Rightarrow> nat"
  assumes "distinct (map f xs)" and "e \<in> set xs" and "\<And>k. k \<noteq> f e \<Longrightarrow> h k = g k" and "h (f e) = Suc (g (f e))"
  shows "sum_list (map (\<lambda>x. h (f x)) (filter P xs)) = sum_list (map (\<lambda>x. g (f x)) (filter P xs)) + (if P e then 1 else 0)"
  using assms(1,2)
proof (induction xs)
  case Nil
  then show ?case by simp
next
  case (Cons x xs)
  show ?case
  proof (cases "x = e")
    case True
    with Cons.prems(1) have "f e \<notin> f ` set xs" by simp
    then have "h (f y) = g (f y)" if "y \<in> set xs" for y using assms(3) that by (metis imageI)
    then have eq: "map (\<lambda>x. h (f x)) (filter P xs) = map (\<lambda>x. g (f x)) (filter P xs)" by simp
    show ?thesis using True assms(4) by (simp add: eq)
  next
    case False
    with Cons.prems have "e \<in> set xs" "f x \<noteq> f e" by auto
    with Cons assms(3) show ?thesis by simp
  qed
qed

lemma next_visit_nat:
  "next_visit kind k visits = Inr v \<Longrightarrow> \<not> is_join kind \<Longrightarrow> unat v = Suc (unat visits)"
  "next_visit kind k visits = Inr v \<Longrightarrow> is_join kind \<Longrightarrow> v = 1"
  by (auto simp: next_visit_def result_iffs dest: checked_add_one_Some split: if_splits)

lemma traverse_edge_explained:
  assumes "traverse_edge e s = Inr t" and "e \<in> set (gd_edges (gs_definition s))"
    and "distinct (map gn_id (gd_nodes (gs_definition s)))" and "distinct (map ge_id (gd_edges (gs_definition s)))"
    and "visits_explained s"
  shows "visits_explained t"
  using assms(1)
proof (rule traverse_edge_cases)
  fix c destination visits v a
  assume c: "unat c = Suc (unat (traversals_of s (ge_id e)))"
    and d: "find_node (gs_definition s) (ge_to e) = Inr destination"
    and vis: "bt_get (gs_node_visits s) (ge_to e) = Some visits"
    and v: "next_visit (gn_kind destination) (ge_kind e) visits = Inr v"
    and t: "t = s\<lparr>gs_edge_traversals := bt_insert (ge_id e) c (gs_edge_traversals s), gs_join_arrivals := a,
      gs_node_visits := bt_insert (ge_to e) v (gs_node_visits s),
      gs_active_nodes := btree_set (ge_to e # gs_active_nodes s)\<rparr>"
  have arr: "arrivals_at t i = arrivals_at s i + (if ge_to e = i then 1 else 0)" for i
    using sum_list_bump [OF assms(4,2), of "\<lambda>k. unat (traversals_of t k)" "\<lambda>k. unat (traversals_of s k)"
        "\<lambda>e. ge_to e = i"] c
    by (simp add: arrivals_at_def t traversals_of_def bt_get_insert)
  have vt: "visits_of t i = (if i = ge_to e then v else visits_of s i)" for i
    by (simp add: t visits_of_def bt_get_insert)
  have vs: "visits_of s (ge_to e) = visits" using vis by (simp add: visits_of_def)
  have "unat (visits_of t (gn_id n)) \<le> (if is_join (gn_kind n) then 1
      else (if gn_id n = gd_entry_node_id (gs_definition s) then 1 else 0) + arrivals_at t (gn_id n))"
    if n: "n \<in> set (gd_nodes (gs_definition s))" for n
  proof (cases "gn_id n = ge_to e")
    case True
    with n d find_node_iff [OF assms(3), of "ge_to e" n] have "destination = n" by simp
    with True n vs assms(5) next_visit_nat [OF v] show ?thesis
      by (fastforce simp: visits_explained_def vt arr)
  next
    case False
    from False assms(5) [unfolded visits_explained_def, rule_format, OF n] show ?thesis
      by (auto simp: vt arr split: if_splits)
  qed
  moreover have "gs_definition t = gs_definition s" by (simp add: t)
  ultimately show ?thesis unfolding visits_explained_def by (simp only: Ball_def) blast
qed

definition same_routing :: "graph_state \<Rightarrow> graph_state \<Rightarrow> bool" where
  "same_routing s t \<longleftrightarrow> same_record s t \<and> gs_routed_visits t = gs_routed_visits s \<and> gs_loops t = gs_loops s"

lemma traverse_edges_explained:
  assumes "fold_result traverse_edge selected s = Inr t" and "set selected \<subseteq> set (gd_edges (gs_definition s))"
    and "distinct (map gn_id (gd_nodes (gs_definition s)))" and "distinct (map ge_id (gd_edges (gs_definition s)))"
    and "visits_explained s"
  shows "visits_explained t \<and> same_routing s t"
proof (rule fold_result_invariant [OF assms(1)])
  show "visits_explained s \<and> same_routing s s" using assms(5) by (simp add: same_routing_def same_record_def)
  fix e u v
  assume e: "e \<in> set selected" and u: "visits_explained u \<and> same_routing s u" and v: "traverse_edge e u = Inr v"
  then have "gs_definition u = gs_definition s" by (simp add: same_routing_def same_record_def)
  with traverse_edge_explained [OF v] e u assms(2,3,4) have "visits_explained v" by auto
  moreover have "same_routing u v"
    using v by (rule traverse_edge_cases) (simp add: same_routing_def same_record_def)
  ultimately show "visits_explained v \<and> same_routing s v" using u by (simp add: same_routing_def same_record_def)
qed

lemma mark_loop_routed_frame:
  assumes "mark_loop_routed i s = Inr t"
  shows "\<exists>l. t = s\<lparr>gs_loops := l\<rparr>" and "loop_iterations t = loop_iterations s"
  using assms
  by (auto simp: mark_loop_routed_def result_iffs loop_iterations_def fun_eq_iff bt_get_insert split: option.splits
      intro: exI [of _ "gs_loops s"])

lemma routed_loop_iteration:
  assumes "ensure_source_visit_complete s i v = Inr ()" and "runtime_validate s = Inr ()"
    and "find_node (gs_definition s) i = Inr n" and "is_loop (gn_kind n)"
  shows "loop_iterations s i = Some v"
proof -
  from assms(1,3,4) obtain runtime r where r: "bt_get (gs_loops s) i = Some runtime"
    "lr_current_decision runtime = Some r" "ld_iteration r = v"
    by (cases "gn_kind n") (auto simp: ensure_source_visit_complete_def result_iffs split: option.splits)
  from r(1) have "(i, runtime) \<in> set (gs_loops s)" by (auto simp: bt_get_def dest: map_of_SomeD)
  then have "check_loop s (i, runtime) = Inr ()" by (rule runtime_validate_parts(7) [OF assms(2)])
  with assms(3,4) r have "lr_completed_iterations runtime = v"
    by (cases "gn_kind n") (auto simp: check_loop_def result_iffs)
  with r(1) show ?thesis by (simp add: loop_iterations_def)
qed

lemma select_accounted:
  assumes "select_edges s i v ids = Inr t" and "accounted s" and "runtime_validate s = Inr ()"
    and "unat count = unat (gs_event_count s) + 1"
  shows "accounted (t\<lparr>gs_event_count := count\<rparr>)"
  using assms(1)
proof (rule select_edges_cases)
  let ?t = "t\<lparr>gs_event_count := count\<rparr>"
  fix visits routed selected and u :: graph_state and remaining
  let ?u = "let u = u\<lparr>gs_routed_visits := bt_insert i v (gs_routed_visits u)\<rparr> in
    if remaining = v then u\<lparr>gs_active_nodes := filter (\<lambda>k. k \<noteq> i) (gs_active_nodes u)\<rparr> else u"
  assume r: "bt_get (gs_routed_visits s) i = Some routed" "unat v = Suc (unat routed)"
    and complete: "ensure_source_visit_complete s i v = Inr ()"
    and sel: "traverse (find_edge (gs_definition s)) ids = Inr selected"
    and f: "fold_result traverse_edge selected s = Inr u" and m: "mark_loop_routed i ?u = Inr t"
  note dist = valid_distinct [OF assms(3)] and fn = find_node_iff [OF valid_distinct(1) [OF assms(3)]]
  have "set selected \<subseteq> set (gd_edges (gs_definition s))"
    using sel by (auto simp: find_edge_def result_iffs elim!: traverse_resultE dest: find_SomeD)
  from traverse_edges_explained [OF f this dist] assms(2)
  have vu: "visits_explained u" and su: "same_routing s u" by (simp_all add: accounted_def)
  obtain l where l: "t = ?u\<lparr>gs_loops := l\<rparr>" using mark_loop_routed_frame(1) [OF m] by blast
  have lt: "loop_iterations t = loop_iterations s"
    using mark_loop_routed_frame(2) [OF m] su
    by (simp add: loop_iterations_def same_routing_def fun_eq_iff Let_def split: if_splits)
  have frame: "gs_definition ?t = gs_definition s" "gs_branches ?t = gs_branches s" "gs_joins ?t = gs_joins s"
    "loop_iterations ?t = loop_iterations s" "gs_routed_visits ?t = bt_insert i v (gs_routed_visits s)"
    "gs_node_visits ?t = gs_node_visits u" "gs_edge_traversals ?t = gs_edge_traversals u"
    "gs_definition u = gs_definition s"
    using su lt by (simp_all add: l same_routing_def same_record_def loop_iterations_def fun_eq_iff Let_def)
  obtain n where n: "find_node (gs_definition s) i = Inr n"
    using complete unfolding ensure_source_visit_complete_def and_then_Inr_iff by blast
  then have nn: "n \<in> set (gd_nodes (gs_definition s))" "gn_id n = i" by (simp_all add: fn)
  have "events_charged ?t"
    using assms(2,4) nn r frame
    by (intro routed_accounted [of s n ?t v]) (simp_all add: accounted_def routed_of_def)
  moreover have "visits_explained ?t" using vu visits_explained_same [of ?t u] frame by simp
  moreover have "loops_explained ?t"
  proof -
    have "unat (routed_of ?t (gn_id k)) \<le> (case loop_iterations s (gn_id k) of None \<Rightarrow> 0 | Some j \<Rightarrow> unat j)"
      if k: "k \<in> set (gd_nodes (gs_definition s))" "is_loop (gn_kind k)" for k
    proof (cases "gn_id k = i")
      case True
      with k n fn [of i k] routed_loop_iteration [OF complete assms(3) n] frame(5) show ?thesis
        by (simp add: routed_of_def bt_get_insert)
    next
      case False
      then have "routed_of ?t (gn_id k) = routed_of s (gn_id k)" using frame(5) by (simp add: routed_of_def bt_get_insert)
      with k assms(2) show ?thesis by (simp add: accounted_def loops_explained_def)
    qed
    with frame(1,4) show ?thesis unfolding loops_explained_def by simp
  qed
  ultimately show ?thesis by (simp only: accounted_def)
qed

lemma accounted_step:
  assumes "apply_graph_event (Some s) event = Inr t" and "accounted s" and "runtime_validate s = Inr ()"
  shows "accounted t"
  using assms(1)
proof (rule apply_graph_event_cases)
  fix u count
  assume u: "apply_initialized_event s event = Inr u" and c: "checked_add (gs_event_count u) 1 = Some count"
    and t: "t = u\<lparr>gs_event_count := count\<rparr>"
  have n: "unat count = unat (gs_event_count s) + 1"
    using checked_add_one_Some [OF c] apply_initialized_event_keeps [OF u] by simp
  show ?thesis using u unfolding t
    by (cases event)
      (auto intro: start_accounted [OF _ assms(2,3) n] complete_accounted [OF _ assms(2,3) n]
        retry_accounted [OF _ assms(2,3) n] join_accounted [OF _ assms(2,3) n] loop_accounted [OF _ assms(2,3) n]
        select_accounted [OF _ assms(2,3) n] terminate_accounted [OF _ assms(2,3) n])
qed

lemma initial_entries:
  assumes "\<forall>i v. bt_get (gs_node_visits s) i = Some v \<longrightarrow> v = 0" and "\<forall>i v. bt_get (gs_routed_visits s) i = Some v \<longrightarrow> v = 0"
  shows "(\<forall>i v. bt_get (gs_node_visits (fold initial_entry ns s)) i = Some v \<longrightarrow> v = 0)
    \<and> (\<forall>i v. bt_get (gs_routed_visits (fold initial_entry ns s)) i = Some v \<longrightarrow> v = 0)
    \<and> gs_definition (fold initial_entry ns s) = gs_definition s
    \<and> gs_event_count (fold initial_entry ns s) = gs_event_count s"
  using assms
proof (induction ns arbitrary: s)
  case Nil
  then show ?case by simp
next
  case (Cons n ns)
  have "(\<forall>i v. bt_get (gs_node_visits (initial_entry n s)) i = Some v \<longrightarrow> v = 0)
    \<and> (\<forall>i v. bt_get (gs_routed_visits (initial_entry n s)) i = Some v \<longrightarrow> v = 0)
    \<and> gs_definition (initial_entry n s) = gs_definition s \<and> gs_event_count (initial_entry n s) = gs_event_count s"
    using Cons.prems by (cases "gn_kind n") (simp_all add: initial_entry_def bt_get_insert)
  with Cons.IH [of "initial_entry n s"] show ?case by simp
qed

lemma accounted_initial:
  assumes "initialize_state d = Inr t"
  shows "accounted t"
proof -
  let ?r = "\<lparr>gs_definition = d, gs_event_count = 1, gs_node_visits = [], gs_routed_visits = [],
    gs_active_nodes = [gd_entry_node_id d], gs_edge_traversals = [], gs_branches = [],
    gs_joins = [], gs_join_arrivals = [], gs_loops = [], gs_termination = None\<rparr>"
  define z where "z = fold initial_entry (gd_nodes d) ?r"
  have z: "\<forall>i v. bt_get (gs_node_visits z) i = Some v \<longrightarrow> v = 0" "\<forall>i v. bt_get (gs_routed_visits z) i = Some v \<longrightarrow> v = 0"
    "gs_definition z = d" "gs_event_count z = 1"
    using initial_entries [of ?r "gd_nodes d", folded z_def] by (simp_all add: bt_get_def)
  have t: "t = z\<lparr>gs_node_visits := bt_insert (gd_entry_node_id d) 1 (gs_node_visits z)\<rparr>"
    using assms by (auto simp: initialize_state_def z_def Let_def result_iffs)
  have "visits_of t i = (if i = gd_entry_node_id d then 1 else 0)" for i
    using z(1) by (auto simp: t visits_of_def bt_get_insert split: option.splits)
  moreover have "routed_of t i = 0" for i using z(2) by (auto simp: t routed_of_def split: option.splits)
  ultimately show ?thesis using z(3,4)
    by (simp add: accounted_def visits_explained_def loops_explained_def events_charged_def t)
qed

definition accounted_journal :: "graph_state option \<Rightarrow> bool" where
  "accounted_journal s \<longleftrightarrow> (case s of None \<Rightarrow> True | Some t \<Rightarrow> runtime_validate t = Inr () \<and> accounted t)"

lemma apply_graph_event_accounted:
  assumes "accounted_journal s" and "apply_graph_event s event = Inr t"
  shows "accounted_journal (Some t)"
proof (cases s)
  case None
  with assms(2) have "accounted t" by (cases event) (auto intro: accounted_initial)
  with apply_graph_event_valid [OF assms(2)] show ?thesis by (simp add: accounted_journal_def)
next
  case (Some u)
  with assms accounted_step have "accounted t" by (auto simp: accounted_journal_def)
  with apply_graph_event_valid [OF assms(2)] show ?thesis by (simp add: accounted_journal_def)
qed

interpretation charged: reducer replay_step accounted_journal
  by unfold_locales (auto simp: replay_step_Inr_iff intro: apply_graph_event_accounted)

section \<open>The charges stay within the budget\<close>

definition entry_outside_loops :: "graph_definition \<Rightarrow> bool" where
  "entry_outside_loops d \<longleftrightarrow>
     list_all (\<lambda>e. ge_to e = gd_entry_node_id d \<longrightarrow> is_loop_back (ge_kind e)) (gd_edges d)"

lemma loops_positive:
  assumes "index_nodes ns = Inr ix" and "bt_get (ni_loops ix) l = Some m"
  shows "m \<noteq> 0"
proof -
  have "\<forall>l. bt_get (ni_loops ix) l \<noteq> Some 0"
  proof (rule fold_result_invariant [OF assms(1) [unfolded index_nodes_def]])
    show "\<forall>l. bt_get (ni_loops \<lparr>ni_branches = [], ni_joins = [], ni_loops = [], ni_terminations = 0\<rparr>) l \<noteq> Some 0"
      by (simp add: bt_get_def)
    fix n u v
    assume "\<forall>l. bt_get (ni_loops u) l \<noteq> Some 0" and "index_node n u = Inr v"
    then show "\<forall>l. bt_get (ni_loops v) l \<noteq> Some 0"
      by (cases "gn_kind n") (auto simp: index_node_def bt_get_insert split: if_splits)
  qed
  with assms(2) show ?thesis by auto
qed

lemma member_loop_known:
  assumes "fold_result (node_events loops membership) ns b = Inr c" and "n \<in> set ns"
    and "bt_get membership (gn_id n) = Some l"
  shows "bt_get loops l \<noteq> None"
proof -
  have "\<exists>u v. node_events loops membership n u = Inr v"
    using assms(1,2) by (induction ns arbitrary: b) (auto simp: result_iffs)
  then show ?thesis using assms(3) by (auto simp: node_events_def result_iffs)
qed

lemma visit_budget_positive:
  assumes "indexed_as d ix x" and "n \<in> set (gd_nodes d)"
  shows "1 \<le> visit_budget (ni_loops ix) (ei_membership x) (gn_id n)"
proof (cases "bt_get (ei_membership x) (gn_id n)")
  case None
  then show ?thesis by (simp add: visit_budget_def)
next
  case (Some l)
  from assms(1) obtain c where "fold_result (node_events (ni_loops ix) (ei_membership x)) (gd_nodes d) 1 = Inr c"
    by (auto simp: indexed_as_def validate_worst_case_event_bound_def worst_case_events_def result_iffs)
  from member_loop_known [OF this assms(2) Some] obtain m where "bt_get (ni_loops ix) l = Some m" by blast
  with loops_positive [of "gd_nodes d" ix l m] assms(1) Some show ?thesis
    by (simp add: visit_budget_def indexed_as_def unat_gt_0 Suc_le_eq)
qed

lemma loop_traversals_bounded:
  assumes "check_traversal s e = Inr ()" and "ge_kind e = LoopBody l \<or> ge_kind e = LoopBack l"
  obtains k m where "find_node (gs_definition s) l = Inr k" and "gn_kind k = LoopNode m"
    and "traversals_of s (ge_id e) \<le> m"
proof -
  from assms obtain k where k: "find_node (gs_definition s) l = Inr k"
    by (auto simp: check_traversal_def Let_def result_iffs)
  with assms that show thesis
    by (cases "gn_kind k") (auto simp: check_traversal_def Let_def result_iffs not_less)
qed

lemma edge_traversals_bounded:
  assumes "runtime_validate s = Inr ()" and "indexed_as (gs_definition s) ix x"
    and e: "e \<in> set (gd_edges (gs_definition s))"
    and n: "n \<in> set (gd_nodes (gs_definition s))" "ge_to e = gn_id n" "\<not> is_loop (gn_kind n)"
  shows "\<not> is_loop_back (ge_kind e)
    \<and> unat (traversals_of s (ge_id e)) \<le> visit_budget (ni_loops ix) (ei_membership x) (gn_id n)"
proof -
  let ?d = "gs_definition s"
  note fn = find_node_iff [OF valid_distinct(1) [OF assms(1)]]
  have bound: "edge_bound ix (ei_membership x) e"
    using indexed_edges [of "node_map (gd_nodes ?d)" ix "gd_edges ?d"] assms(2) e
    unfolding indexed_as_def index_edges_def by blast
  have c: "check_traversal s e = Inr ()" by (rule runtime_validate_parts(4) [OF assms(1) e])
  have nodes: "fold_result index_node (gd_nodes ?d) \<lparr>ni_branches = [], ni_joins = [], ni_loops = [], ni_terminations = 0\<rparr>
    = Inr ix" "distinct (map gn_id (gd_nodes ?d))"
    using assms(2) by (simp_all add: indexed_as_def index_nodes_def)
  note pos = visit_budget_positive [OF assms(2) n(1)]
  show ?thesis
  proof (cases "ge_kind e")
    case (LoopBody l)
    with c obtain k m where k: "find_node ?d l = Inr k" "gn_kind k = LoopNode m" "traversals_of s (ge_id e) \<le> m"
      using loop_traversals_bounded by blast
    then have "bt_get (ni_loops ix) l = Some m" using indexed_nodes [OF nodes, of k] by (simp add: fn)
    with bound LoopBody n(2) k(3) show ?thesis by (simp add: edge_bound_def visit_budget_def word_le_nat_alt)
  next
    case (LoopBack l)
    with c obtain k m where "find_node ?d l = Inr k" "gn_kind k = LoopNode m"
      using loop_traversals_bounded by blast
    moreover from bound LoopBack n have "find_node ?d l = Inr n" by (simp add: edge_bound_def fn)
    ultimately show ?thesis using n(3) by simp
  qed (use c pos in \<open>auto simp: check_traversal_def Let_def result_iffs not_less word_le_nat_alt\<close>)
qed

lemma visits_bounded:
  assumes "runtime_validate s = Inr ()" and "accounted s" and "indexed_as (gs_definition s) ix x"
    and "entry_outside_loops (gs_definition s)"
    and n: "n \<in> set (gd_nodes (gs_definition s))" "\<not> is_join (gn_kind n)" "\<not> is_loop (gn_kind n)"
  shows "unat (visits_of s (gn_id n)) \<le> visit_budget (ni_loops ix) (ei_membership x) (gn_id n)"
proof -
  let ?d = "gs_definition s" and ?es = "filter (\<lambda>e. ge_to e = gn_id n) (gd_edges (gs_definition s))"
  note edge = edge_traversals_bounded [OF assms(1,3) _ n(1) _ n(3)]
  have v: "unat (visits_of s (gn_id n)) \<le> (if gn_id n = gd_entry_node_id ?d then 1 else 0) + arrivals_at s (gn_id n)"
    using assms(2) n(1,2) by (force simp: accounted_def visits_explained_def)
  show ?thesis
  proof (cases ?es)
    case Nil
    with v visit_budget_positive [OF assms(3) n(1)] show ?thesis by (simp add: arrivals_at_def split: if_splits)
  next
    case (Cons e es)
    with one_incoming_edge [OF assms(3) n] have es: "?es = [e]" by simp
    then have "e \<in> set ?es" by simp
    then have e: "e \<in> set (gd_edges ?d)" "ge_to e = gn_id n" by simp_all
    from edge [OF e] have "\<not> is_loop_back (ge_kind e)" by blast
    with assms(4) e have "gn_id n \<noteq> gd_entry_node_id ?d" by (auto simp: entry_outside_loops_def list_all_iff)
    with v edge [OF e] es show ?thesis by (simp add: arrivals_at_def)
  qed
qed

lemma task_within_budget:
  assumes "runtime_validate s = Inr ()" and "indexed_as (gs_definition s) ix x"
    and n: "n \<in> set (gd_nodes (gs_definition s))" "gn_kind n = Task i m"
    and v: "unat (visits_of s (gn_id n)) \<le> B"
  shows "node_used s n \<le> B * (unat m * 3)"
proof -
  have nodes: "fold_result index_node (gd_nodes (gs_definition s))
      \<lparr>ni_branches = [], ni_joins = [], ni_loops = [], ni_terminations = 0\<rparr> = Inr ix"
    "distinct (map gn_id (gd_nodes (gs_definition s)))"
    using assms(2) by (simp_all add: indexed_as_def index_nodes_def)
  have m: "bt_get (ni_branches ix) i = Some (gn_id n, m)" "0 < unat m"
    using indexed_nodes [OF nodes n(1)] n(2) by (simp_all add: unat_gt_0)
  show ?thesis
  proof (cases "bt_get (gs_branches s) i")
    case None
    then have "node_used s n \<le> B" using valid_node_lookups [OF assms(1) n(1)] n(2) v by (simp add: node_used_def)
    also have "\<dots> \<le> B * (unat m * 3)" using m(2) by simp
    finally show ?thesis .
  next
    case (Some b)
    from assms(1) Some obtain k l where k: "k \<in> set (gd_nodes (gs_definition s))" "gn_id k = gb_node_id b"
      "gn_kind k = Task i l" "gb_max_attempts b = l" "branch_validate b = Inr ()"
      "branch_frontier_ok b (visits_of s (gb_node_id b)) (routed_of s (gb_node_id b))"
      by (rule valid_branch)
    from indexed_nodes [OF nodes k(1)] k(2,3) m(1) have "gb_node_id b = gn_id n" "l = m" by simp_all
    with branch_within_budget [OF k(5,6)] k(4) Some n(2)
    have "node_used s n \<le> unat (visits_of s (gn_id n)) * (unat m * 3)" by (simp add: node_used_def)
    also have "\<dots> \<le> B * (unat m * 3)" using v by simp
    finally show ?thesis .
  qed
qed

lemma loop_within_budget:
  assumes "runtime_validate s = Inr ()" and "accounted s"
    and n: "n \<in> set (gd_nodes (gs_definition s))" "gn_kind n = LoopNode m"
  shows "node_used s n \<le> unat m * 2"
proof (cases "bt_get (gs_loops s) (gn_id n)")
  case None
  with assms(2) n show ?thesis
    by (force simp: node_used_def accounted_def loops_explained_def loop_iterations_def)
next
  case (Some runtime)
  then have "(gn_id n, runtime) \<in> set (gs_loops s)" by (auto simp: bt_get_def dest: map_of_SomeD)
  then have c: "check_loop s (gn_id n, runtime) = Inr ()" by (rule runtime_validate_parts(7) [OF assms(1)])
  have "find_node (gs_definition s) (gn_id n) = Inr n"
    using n(1) by (simp add: find_node_iff [OF valid_distinct(1) [OF assms(1)]])
  with c n(2) have "unat (lr_completed_iterations runtime) \<le> unat m"
    by (simp add: check_loop_def result_iffs not_less word_le_nat_alt)
  moreover have "unat (routed_of s (gn_id n)) \<le> unat (lr_completed_iterations runtime)"
    using assms(2) n Some by (force simp: accounted_def loops_explained_def loop_iterations_def)
  ultimately show ?thesis using n(2) Some by (simp add: node_used_def loop_iterations_def)
qed

lemma node_within_budget:
  assumes "runtime_validate s = Inr ()" and "accounted s" and "indexed_as (gs_definition s) ix x"
    and "entry_outside_loops (gs_definition s)" and n: "n \<in> set (gd_nodes (gs_definition s))"
  shows "node_used s n \<le> node_budget (ni_loops ix) (ei_membership x) n"
proof (cases "gn_kind n")
  case (Task i m)
  then have "\<not> is_join (gn_kind n)" "\<not> is_loop (gn_kind n)" by simp_all
  from task_within_budget [OF assms(1,3) n Task visits_bounded [OF assms(1-4) n this]] Task
  show ?thesis by (simp add: node_budget_def)
next
  case (Join branches)
  with assms(2) n have "unat (visits_of s (gn_id n)) \<le> 1"
    by (force simp: accounted_def visits_explained_def)
  with valid_node_lookups [OF assms(1) n] Join show ?thesis by (simp add: node_used_def node_budget_def)
next
  case (LoopNode m)
  with loop_within_budget [OF assms(1,2) n] show ?thesis by (simp add: node_budget_def)
qed (use valid_node_lookups [OF assms(1) n] visits_bounded [OF assms(1-4) n] in
    \<open>simp_all add: node_used_def node_budget_def\<close>)

text \<open>The bound the definition checks compute, for a definition whose indexes can be built.\<close>

definition event_bound :: "graph_definition \<Rightarrow> graph_error + usize" where
  "event_bound d =
     and_then (index_nodes (gd_nodes d)) (\<lambda>ix.
     and_then (index_edges (node_map (gd_nodes d)) ix (gd_edges d)) (\<lambda>x.
     worst_case_events (gd_nodes d) (ni_loops ix) (ei_membership x)))"

lemma replayed_length:
  assumes "replay_graph_events events = Inr s"
  shows "unat (gs_event_count s) = length events"
proof -
  from assms have r: "replay replay_step None events = Inr (Some s)" "events \<noteq> []"
    by (simp_all add: replay_graph_events_iff)
  then obtain e es where events: "events = e # es" by (cases events) simp_all
  with r(1) have "replay replay_step None (e # es) = Inr (Some s)" by (simp only:)
  then obtain z where z: "gs_event_count z = 1" "replay replay_step (Some z) es = Inr (Some s)"
    by (rule replay_first)
  from replay_keeps [OF z(2)] z(1) events show ?thesis by simp
qed

text \<open>C30. A replayed journal never has more events than the worst-case bound computed when its definition
  was checked, and that bound is at most the fixed limit of 4096 events, for every definition in which
  only loop-back edges lead to the entry: the fixed history limit cannot cut an execution short.\<close>

theorem journal_within_event_bound:
  assumes "replay_graph_events events = Inr s" and "entry_outside_loops (gs_definition s)"
  shows "\<exists>bound. event_bound (gs_definition s) = Inr bound \<and> length events \<le> unat bound
    \<and> unat bound \<le> unat MAX_GRAPH_EVENTS"
proof -
  let ?d = "gs_definition s"
  note valid = replayed_state_valid [OF assms(1)]
  have acc: "accounted s"
    using charged.replay_inv [of None events "Some s"] assms(1)
    by (simp add: accounted_journal_def replay_graph_events_iff)
  obtain ix x where ix: "indexed_as ?d ix x"
    using runtime_validate_parts(1) [OF valid] by (rule accepted_indexed)
  then obtain bound where b: "worst_case_events (gd_nodes ?d) (ni_loops ix) (ei_membership x) = Inr bound"
    "\<not> MAX_GRAPH_EVENTS < bound"
    by (auto simp: indexed_as_def validate_worst_case_event_bound_def result_iffs)
  have "sum_list (map (node_used s) (gd_nodes ?d))
      \<le> sum_list (map (node_budget (ni_loops ix) (ei_membership x)) (gd_nodes ?d))"
    using node_within_budget [OF valid acc ix assms(2)] by (intro sum_list_mono) blast
  moreover have "unat bound = 1 + sum_list (map (node_budget (ni_loops ix) (ei_membership x)) (gd_nodes ?d))"
    using worst_case_budget [OF b(1) [unfolded worst_case_events_def]] by simp
  ultimately have "length events \<le> unat bound"
    using acc replayed_length [OF assms(1)] by (simp add: accounted_def events_charged_def)
  moreover have "event_bound ?d = Inr bound" using ix b(1) by (simp add: event_bound_def indexed_as_def)
  ultimately show ?thesis using b(2) by (simp add: not_less word_le_nat_alt)
qed

theorem journal_within_event_bound_witness:
  "\<exists>bound. event_bound sample_loop_graph = Inr bound \<and> length (sample_journal @ sample_rest) \<le> unat bound"
proof -
  have "case replay_graph_events (sample_journal @ sample_rest) of Inl _ \<Rightarrow> False
    | Inr s \<Rightarrow> gs_definition s = sample_loop_graph" by code_simp
  then obtain s where s: "replay_graph_events (sample_journal @ sample_rest) = Inr s" "gs_definition s = sample_loop_graph"
    by (cases "replay_graph_events (sample_journal @ sample_rest)") simp_all
  have "entry_outside_loops (gs_definition s)" unfolding s(2) by code_simp
  from journal_within_event_bound [OF s(1) this] s(2) show ?thesis by auto
qed

end
