(* ===== verification/Decision_Registry.thy ===== *)
theory Decision_Registry
  imports Ordered
begin

text \<open>
  The registry of design-decision claims and the detection of contradicting decisions
  (\<^verbatim>\<open>src/src/decision_claim.rs\<close>).

  The registry is its locked state together with the poison flag of its mutex; an operation returns
  its result and the registry afterwards. Byte lengths are natural numbers.

  The lemmas show what the contradiction report contains, that a snapshot restores the registry it was
  taken from, and that every resolved question has a recorded decision by its owner.
\<close>

section \<open>Data\<close>

definition MAX_DECISION_QUESTION_KEY_BYTES :: nat where "MAX_DECISION_QUESTION_KEY_BYTES = 256"
definition MAX_DECISION_QUESTION_BYTES :: nat where "MAX_DECISION_QUESTION_BYTES = 16 * 1024"
definition MAX_DECISION_ASSIGNMENT_BYTES :: nat where "MAX_DECISION_ASSIGNMENT_BYTES = 128"
definition MAX_DECISION_RESOLUTION_BYTES :: nat where "MAX_DECISION_RESOLUTION_BYTES = 16 * 1024"
definition MAX_DECISION_SCOPE_KEY_BYTES :: nat where "MAX_DECISION_SCOPE_KEY_BYTES = 512"

datatype decision_claim_status = Claim_Open | Claim_Resolved | Claim_Superseded

record decision_claim =
  dc_question_key :: string
  dc_question :: string
  dc_owning_assignment :: string
  dc_status :: decision_claim_status
  dc_resolution :: "string option"

record decision_scope =
  ds_modules :: "string list"
  ds_symbols :: "string list"
  ds_topics :: "string list"

record decision_record =
  dr_question_key :: string
  dr_resolution :: string
  dr_deciding_assignment :: string
  dr_scope :: decision_scope

record decision_record_identity =
  di_question_key :: string
  di_deciding_assignment :: string

record decision_contradiction =
  ct_first_record :: decision_record_identity
  ct_second_record :: decision_record_identity
  ct_overlapping_scope :: decision_scope
  ct_first_resolution :: string
  ct_second_resolution :: string

record decision_reconciliation_report =
  rr_reconciliation_needed :: bool
  rr_contradictions :: "decision_contradiction list"

record open_decision_claim_conflict =
  oc_question_key :: string
  oc_requested_assignment :: string
  oc_owning_assignment :: string
  oc_question :: string

datatype decision_input_field =
  QuestionKey | Question | Assignment | Resolution | ModuleScopeKey | SymbolScopeKey | TopicScopeKey

fun input_field_name :: "decision_input_field \<Rightarrow> string" where
  "input_field_name QuestionKey = ''question key''"
| "input_field_name Question = ''question''"
| "input_field_name Assignment = ''assignment''"
| "input_field_name Resolution = ''resolution''"
| "input_field_name ModuleScopeKey = ''module scope key''"
| "input_field_name SymbolScopeKey = ''symbol scope key''"
| "input_field_name TopicScopeKey = ''topic scope key''"

datatype decision_claim_error =
    EmptyInput decision_input_field
  | InputTooLong decision_input_field nat nat
  | InvalidInput decision_input_field
  | EmptyScope
  | OpenClaimConflict string string string string
  | ClaimNotFound string
  | ClaimNotOpen string decision_claim_status
  | AssignmentMismatch string string string
  | InvalidClaimState decision_claim_status string
  | DuplicateQuestionKey string
  | RegistryPoisoned

fun open_claim_conflict :: "decision_claim_error \<Rightarrow> open_decision_claim_conflict option" where
  "open_claim_conflict (OpenClaimConflict key requested owner question) =
     Some \<lparr>oc_question_key = key, oc_requested_assignment = requested, oc_owning_assignment = owner,
       oc_question = question\<rparr>"
| "open_claim_conflict _ = None"

record decision_registry_snapshot =
  sn_claims :: "decision_claim list"
  sn_records :: "decision_record list"

record decision_registry_state =
  rg_claims :: "(string, decision_claim) btree_map"
  rg_records :: "decision_record list"

record decision_registry =
  rg_state :: decision_registry_state
  rg_poisoned :: bool

section \<open>Inputs\<close>

definition normalize_text :: "string \<Rightarrow> decision_input_field \<Rightarrow> nat \<Rightarrow> decision_claim_error + string" where
  "normalize_text value field max_bytes =
     (let normalized = trim value in
      if normalized = [] then Inl (EmptyInput field)
      else if max_bytes < length normalized then Inl (InputTooLong field max_bytes (length normalized))
      else if has_control normalized then Inl (InvalidInput field)
      else Inr normalized)"

definition normalize_resolution :: "string \<Rightarrow> decision_claim_error + string" where
  "normalize_resolution value = normalize_text value Resolution MAX_DECISION_RESOLUTION_BYTES"

definition stable_key_char :: "char \<Rightarrow> bool" where
  "stable_key_char c \<longleftrightarrow> is_ascii_alphanumeric c \<or> c \<in> set ''-_./:#''"

definition normalize_stable_key ::
  "string \<Rightarrow> decision_input_field \<Rightarrow> nat \<Rightarrow> decision_claim_error + string" where
  "normalize_stable_key value field max_bytes =
     and_then (normalize_text value field max_bytes) (\<lambda>normalized.
     if \<not> list_all stable_key_char normalized then Inl (InvalidInput field) else Inr normalized)"

definition normalize_scope_keys ::
  "string list \<Rightarrow> decision_input_field \<Rightarrow> decision_claim_error + string list" where
  "normalize_scope_keys values field =
     and_then (traverse (\<lambda>value. normalize_stable_key value field MAX_DECISION_SCOPE_KEY_BYTES) values)
       (\<lambda>keys. Inr (btree_set keys))"

section \<open>Claims, scopes and records\<close>

definition claim_open_new :: "string \<Rightarrow> string \<Rightarrow> string \<Rightarrow> decision_claim_error + decision_claim" where
  "claim_open_new question_key question owning_assignment =
     and_then (normalize_stable_key question_key QuestionKey MAX_DECISION_QUESTION_KEY_BYTES) (\<lambda>key.
     and_then (normalize_text question Question MAX_DECISION_QUESTION_BYTES) (\<lambda>question.
     and_then (normalize_stable_key owning_assignment Assignment MAX_DECISION_ASSIGNMENT_BYTES) (\<lambda>owner.
     Inr \<lparr>dc_question_key = key, dc_question = question, dc_owning_assignment = owner,
       dc_status = Claim_Open, dc_resolution = None\<rparr>)))"

definition transpose_resolution :: "string option \<Rightarrow> decision_claim_error + string option" where
  "transpose_resolution r =
     (case r of None \<Rightarrow> Inr None | Some v \<Rightarrow> and_then (normalize_resolution v) (\<lambda>n. Inr (Some n)))"

definition claim_validate :: "decision_claim \<Rightarrow> decision_claim_error + decision_claim" where
  "claim_validate c =
     and_then (normalize_stable_key (dc_question_key c) QuestionKey MAX_DECISION_QUESTION_KEY_BYTES) (\<lambda>key.
     and_then (normalize_text (dc_question c) Question MAX_DECISION_QUESTION_BYTES) (\<lambda>question.
     and_then (normalize_stable_key (dc_owning_assignment c) Assignment MAX_DECISION_ASSIGNMENT_BYTES) (\<lambda>owner.
     and_then (transpose_resolution (dc_resolution c)) (\<lambda>resolution.
     if dc_status c = Claim_Open \<and> resolution \<noteq> None
     then Inl (InvalidClaimState (dc_status c) ''an open claim cannot carry a resolution'')
     else if dc_status c = Claim_Resolved \<and> resolution = None
     then Inl (InvalidClaimState (dc_status c) ''a resolved claim must carry a resolution'')
     else Inr \<lparr>dc_question_key = key, dc_question = question, dc_owning_assignment = owner,
       dc_status = dc_status c, dc_resolution = resolution\<rparr>))))"

definition scope_is_empty :: "decision_scope \<Rightarrow> bool" where
  "scope_is_empty s \<longleftrightarrow> ds_modules s = [] \<and> ds_symbols s = [] \<and> ds_topics s = []"

definition scope_new ::
  "string list \<Rightarrow> string list \<Rightarrow> string list \<Rightarrow> decision_claim_error + decision_scope" where
  "scope_new modules symbols topics =
     and_then (normalize_scope_keys modules ModuleScopeKey) (\<lambda>m.
     and_then (normalize_scope_keys symbols SymbolScopeKey) (\<lambda>s.
     and_then (normalize_scope_keys topics TopicScopeKey) (\<lambda>t.
     let scope = \<lparr>ds_modules = m, ds_symbols = s, ds_topics = t\<rparr> in
     if scope_is_empty scope then Inl EmptyScope else Inr scope)))"

definition set_intersection :: "string list \<Rightarrow> string list \<Rightarrow> string list" where
  "set_intersection xs ys = filter (\<lambda>x. x \<in> set ys) xs"

definition scope_intersection :: "decision_scope \<Rightarrow> decision_scope \<Rightarrow> decision_scope" where
  "scope_intersection a b =
     \<lparr>ds_modules = set_intersection (ds_modules a) (ds_modules b),
      ds_symbols = set_intersection (ds_symbols a) (ds_symbols b),
      ds_topics = set_intersection (ds_topics a) (ds_topics b)\<rparr>"

definition scope_validate :: "decision_scope \<Rightarrow> decision_claim_error + decision_scope" where
  "scope_validate s = scope_new (ds_modules s) (ds_symbols s) (ds_topics s)"

definition record_new ::
  "string \<Rightarrow> string \<Rightarrow> string \<Rightarrow> decision_scope \<Rightarrow> decision_claim_error + decision_record" where
  "record_new question_key resolution deciding_assignment scope =
     and_then (normalize_stable_key question_key QuestionKey MAX_DECISION_QUESTION_KEY_BYTES) (\<lambda>key.
     and_then (normalize_resolution resolution) (\<lambda>resolution.
     and_then (normalize_stable_key deciding_assignment Assignment MAX_DECISION_ASSIGNMENT_BYTES) (\<lambda>decider.
     and_then (scope_validate scope) (\<lambda>scope.
     Inr \<lparr>dr_question_key = key, dr_resolution = resolution, dr_deciding_assignment = decider,
       dr_scope = scope\<rparr>))))"

definition record_validate :: "decision_record \<Rightarrow> decision_claim_error + decision_record" where
  "record_validate r =
     record_new (dr_question_key r) (dr_resolution r) (dr_deciding_assignment r) (dr_scope r)"

definition record_identity :: "decision_record \<Rightarrow> decision_record_identity" where
  "record_identity r =
     \<lparr>di_question_key = dr_question_key r, di_deciding_assignment = dr_deciding_assignment r\<rparr>"

section \<open>Contradictions\<close>

definition contradiction_of :: "decision_record \<Rightarrow> decision_record \<Rightarrow> decision_contradiction option" where
  "contradiction_of first second =
     (if dr_resolution first = dr_resolution second then None
      else let overlapping = scope_intersection (dr_scope first) (dr_scope second) in
        if scope_is_empty overlapping then None
        else Some \<lparr>ct_first_record = record_identity first, ct_second_record = record_identity second,
          ct_overlapping_scope = overlapping, ct_first_resolution = dr_resolution first,
          ct_second_resolution = dr_resolution second\<rparr>)"

fun collect_contradictions :: "decision_record list \<Rightarrow> decision_contradiction list" where
  "collect_contradictions [] = []"
| "collect_contradictions (first # rest) =
     List.map_filter (contradiction_of first) rest @ collect_contradictions rest"

definition detect_decision_contradictions :: "decision_record list \<Rightarrow> decision_reconciliation_report" where
  "detect_decision_contradictions records =
     (let contradictions = collect_contradictions records in
      \<lparr>rr_reconciliation_needed = (contradictions \<noteq> []), rr_contradictions = contradictions\<rparr>)"

section \<open>The registry\<close>

definition registry_new :: decision_registry where
  "registry_new = \<lparr>rg_state = \<lparr>rg_claims = [], rg_records = []\<rparr>, rg_poisoned = False\<rparr>"

definition lock_state :: "decision_registry \<Rightarrow> decision_claim_error + decision_registry_state" where
  "lock_state r = (if rg_poisoned r then Inl RegistryPoisoned else Inr (rg_state r))"

definition restore_claim_entry ::
  "decision_claim \<Rightarrow> (string, decision_claim) btree_map \<Rightarrow>
    decision_claim_error + (string, decision_claim) btree_map" where
  "restore_claim_entry c claims =
     and_then (claim_validate c) (\<lambda>c.
     if bt_get claims (dc_question_key c) \<noteq> None then Inl (DuplicateQuestionKey (dc_question_key c))
     else Inr (bt_insert (dc_question_key c) c claims))"

definition registry_from_snapshot ::
  "decision_registry_snapshot \<Rightarrow> decision_claim_error + decision_registry" where
  "registry_from_snapshot snapshot =
     and_then (fold_result restore_claim_entry (sn_claims snapshot) []) (\<lambda>claims.
     and_then (traverse record_validate (sn_records snapshot)) (\<lambda>records.
     Inr \<lparr>rg_state = \<lparr>rg_claims = claims, rg_records = records\<rparr>, rg_poisoned = False\<rparr>))"

definition commit ::
  "decision_registry \<Rightarrow> decision_claim_error + 'a \<times> decision_registry \<Rightarrow>
    (decision_claim_error + 'a) \<times> decision_registry" where
  "commit r outcome =
     (case outcome of Inl e \<Rightarrow> (Inl e, r) | Inr (result, r') \<Rightarrow> (Inr result, r'))"

definition claim_open ::
  "string \<Rightarrow> string \<Rightarrow> string \<Rightarrow> decision_registry \<Rightarrow>
    (decision_claim_error + decision_claim) \<times> decision_registry" where
  "claim_open question_key question owning_assignment r =
     commit r (and_then (claim_open_new question_key question owning_assignment) (\<lambda>requested.
     and_then (lock_state r) (\<lambda>state.
     case Option.bind (bt_get (rg_claims state) (dc_question_key requested))
       (\<lambda>claim. if dc_status claim = Claim_Open then Some claim else None) of
       Some active \<Rightarrow> Inl (OpenClaimConflict (dc_question_key requested) (dc_owning_assignment requested)
         (dc_owning_assignment active) (dc_question active))
     | None \<Rightarrow> Inr (requested, r\<lparr>rg_state := state\<lparr>rg_claims :=
         bt_insert (dc_question_key requested) requested (rg_claims state)\<rparr>\<rparr>))))"

definition require_open_owned ::
  "decision_registry_state \<Rightarrow> string \<Rightarrow> string \<Rightarrow> decision_claim_error + decision_claim" where
  "require_open_owned state key assignment =
     and_then (ok_or (bt_get (rg_claims state) key) (ClaimNotFound key)) (\<lambda>claim.
     if dc_status claim \<noteq> Claim_Open then Inl (ClaimNotOpen key (dc_status claim))
     else if dc_owning_assignment claim \<noteq> assignment
     then Inl (AssignmentMismatch key assignment (dc_owning_assignment claim))
     else Inr claim)"

definition resolve_claim ::
  "string \<Rightarrow> string \<Rightarrow> string \<Rightarrow> decision_scope \<Rightarrow> decision_registry \<Rightarrow>
    (decision_claim_error + decision_record) \<times> decision_registry" where
  "resolve_claim question_key deciding_assignment resolution scope r =
     commit r (and_then (normalize_stable_key question_key QuestionKey MAX_DECISION_QUESTION_KEY_BYTES) (\<lambda>key.
        and_then (normalize_stable_key deciding_assignment Assignment MAX_DECISION_ASSIGNMENT_BYTES) (\<lambda>decider.
        and_then (record_new key resolution decider scope) (\<lambda>rec.
        and_then (lock_state r) (\<lambda>state.
        and_then (require_open_owned state key decider) (\<lambda>claim.
        Inr (rec, r\<lparr>rg_state := state\<lparr>
          rg_claims := bt_insert key
            (claim\<lparr>dc_status := Claim_Resolved, dc_resolution := Some (dr_resolution rec)\<rparr>) (rg_claims state),
          rg_records := rg_records state @ [rec]\<rparr>\<rparr>)))))))"

definition supersede_claim ::
  "string \<Rightarrow> string \<Rightarrow> string option \<Rightarrow> decision_registry \<Rightarrow>
    (decision_claim_error + decision_claim) \<times> decision_registry" where
  "supersede_claim question_key owning_assignment resolution r =
     commit r (and_then (normalize_stable_key question_key QuestionKey MAX_DECISION_QUESTION_KEY_BYTES) (\<lambda>key.
        and_then (normalize_stable_key owning_assignment Assignment MAX_DECISION_ASSIGNMENT_BYTES) (\<lambda>owner.
        and_then (transpose_resolution resolution) (\<lambda>resolution.
        and_then (lock_state r) (\<lambda>state.
        and_then (require_open_owned state key owner) (\<lambda>claim.
        let claim' = claim\<lparr>dc_status := Claim_Superseded, dc_resolution := resolution\<rparr> in
        Inr (claim', r\<lparr>rg_state := state\<lparr>rg_claims := bt_insert key claim' (rg_claims state)\<rparr>\<rparr>)))))))"

definition registry_snapshot :: "decision_registry \<Rightarrow> decision_claim_error + decision_registry_snapshot" where
  "registry_snapshot r =
     and_then (lock_state r) (\<lambda>state.
     Inr \<lparr>sn_claims = map snd (rg_claims state), sn_records = rg_records state\<rparr>)"

definition reconciliation_report ::
  "decision_registry \<Rightarrow> decision_claim_error + decision_reconciliation_report" where
  "reconciliation_report r =
     and_then (lock_state r) (\<lambda>state. Inr (detect_decision_contradictions (rg_records state)))"

section \<open>Normalized inputs are fixed points\<close>

named_theorems normalized

lemma normalize_text_fixed [normalized]:
  "normalize_text v f m = Inr n \<Longrightarrow> normalize_text n f m = Inr n"
  by (auto simp: normalize_text_def Let_def split: if_splits)

lemma normalize_resolution_fixed [normalized]:
  "normalize_resolution v = Inr n \<Longrightarrow> normalize_resolution n = Inr n"
  unfolding normalize_resolution_def by (rule normalize_text_fixed)

lemma normalize_stable_key_fixed [normalized]:
  "normalize_stable_key v f m = Inr n \<Longrightarrow> normalize_stable_key n f m = Inr n"
  by (auto simp: normalize_stable_key_def result_iffs normalized split: if_splits)

lemma normalize_scope_keys_fixed [normalized]:
  assumes "normalize_scope_keys vs f = Inr ks"
  shows "normalize_scope_keys ks f = Inr ks"
proof -
  let ?norm = "\<lambda>v. normalize_stable_key v f MAX_DECISION_SCOPE_KEY_BYTES"
  from assms obtain ns where ns: "traverse ?norm vs = Inr ns" and ks: "ks = btree_set ns"
    by (auto simp: normalize_scope_keys_def result_iffs)
  have "?norm k = Inr k" if "k \<in> set ks" for k
    using that ns ks by (auto elim!: traverse_resultE intro: normalized)
  then have "traverse ?norm ks = Inr ks" by (rule traverse_idem)
  then show ?thesis
    by (simp add: normalize_scope_keys_def ks btree_set_idem btree_set_ascending)
qed

lemma transpose_resolution_fixed [normalized]:
  "transpose_resolution v = Inr n \<Longrightarrow> transpose_resolution n = Inr n"
  by (auto simp: transpose_resolution_def result_iffs normalized split: option.splits)

lemma scope_validate_fixed [normalized]:
  assumes "scope_validate s = Inr t" shows "scope_validate t = Inr t"
  using assms
  by (auto simp: scope_validate_def scope_new_def result_iffs Let_def normalized split: if_splits)

lemma record_new_valid:
  "record_new k v a s = Inr r \<Longrightarrow> record_validate r = Inr r"
  by (auto simp: record_validate_def record_new_def result_iffs normalized)

lemma claim_open_new_valid: "claim_open_new k q a = Inr c \<Longrightarrow> claim_validate c = Inr c"
  by (auto simp: claim_open_new_def claim_validate_def transpose_resolution_def result_iffs normalized)

lemma record_validate_valid: "record_validate x = Inr r \<Longrightarrow> record_validate r = Inr r"
  unfolding record_validate_def [of x] by (rule record_new_valid)

lemma claim_validate_valid:
  assumes "claim_validate x = Inr c" shows "claim_validate c = Inr c"
proof -
  from assms have "transpose_resolution (dc_resolution c) = Inr (dc_resolution c)"
    by (auto simp: claim_validate_def result_iffs normalized split: if_splits)
  with assms show ?thesis
    unfolding claim_validate_def [of c]
    by (auto simp: claim_validate_def result_iffs normalized split: if_splits)
qed

section \<open>What the report contains\<close>

definition shares_scope :: "decision_scope \<Rightarrow> decision_scope \<Rightarrow> bool" where
  "shares_scope a b \<longleftrightarrow>
     set (ds_modules a) \<inter> set (ds_modules b) \<noteq> {} \<or>
     set (ds_symbols a) \<inter> set (ds_symbols b) \<noteq> {} \<or>
     set (ds_topics a) \<inter> set (ds_topics b) \<noteq> {}"

lemma set_set_intersection [simp]: "set (set_intersection xs ys) = set xs \<inter> set ys"
  by (auto simp: set_intersection_def)

lemma set_intersection_Nil_iff: "set_intersection xs ys = [] \<longleftrightarrow> set xs \<inter> set ys = {}"
  by (metis set_empty set_set_intersection)

lemma overlap_nonempty_iff: "\<not> scope_is_empty (scope_intersection a b) \<longleftrightarrow> shares_scope a b"
  by (auto simp: scope_is_empty_def scope_intersection_def shares_scope_def set_intersection_Nil_iff)

lemma contradiction_of_Some_iff:
  "contradiction_of a b = Some c \<longleftrightarrow>
     dr_resolution a \<noteq> dr_resolution b \<and> shares_scope (dr_scope a) (dr_scope b) \<and>
     c = \<lparr>ct_first_record = record_identity a, ct_second_record = record_identity b,
       ct_overlapping_scope = scope_intersection (dr_scope a) (dr_scope b),
       ct_first_resolution = dr_resolution a, ct_second_resolution = dr_resolution b\<rparr>"
  by (auto simp: contradiction_of_def Let_def overlap_nonempty_iff [symmetric])

lemma map_filter_mem: "y \<in> set (List.map_filter f xs) \<longleftrightarrow> (\<exists>x \<in> set xs. f x = Some y)"
  by (induction xs) (auto simp: List.map_filter_simps split: option.splits)

lemma collect_contradictions_mem:
  "c \<in> set (collect_contradictions rs) \<longleftrightarrow>
     (\<exists>i j. i < j \<and> j < length rs \<and> contradiction_of (rs ! i) (rs ! j) = Some c)"
proof (induction rs)
  case Nil
  then show ?case by simp
next
  case (Cons r rs)
  have "(\<exists>i j. i < j \<and> j < length (r # rs) \<and> contradiction_of ((r # rs) ! i) ((r # rs) ! j) = Some c) \<longleftrightarrow>
      (\<exists>j < length rs. contradiction_of r (rs ! j) = Some c) \<or>
      (\<exists>i j. i < j \<and> j < length rs \<and> contradiction_of (rs ! i) (rs ! j) = Some c)" (is "?L \<longleftrightarrow> ?A \<or> ?B")
  proof
    assume ?L
    then obtain i j where ij: "i < j" "j < Suc (length rs)"
      "contradiction_of ((r # rs) ! i) ((r # rs) ! j) = Some c" by auto
    then obtain j' where j: "j = Suc j'" by (cases j) auto
    show "?A \<or> ?B" using ij j by (cases i) auto
  next
    assume "?A \<or> ?B"
    then show ?L
    proof
      assume ?A
      then obtain j where "j < length rs" "contradiction_of r (rs ! j) = Some c" by blast
      then show ?L by (intro exI [of _ 0] exI [of _ "Suc j"]) simp
    next
      assume ?B
      then obtain i j where "i < j" "j < length rs" "contradiction_of (rs ! i) (rs ! j) = Some c" by blast
      then show ?L by (intro exI [of _ "Suc i"] exI [of _ "Suc j"]) simp
    qed
  qed
  then show ?case by (simp add: map_filter_mem Cons.IH) (metis in_set_conv_nth)
qed

section \<open>The registry invariant\<close>

definition registry_ok :: "decision_registry \<Rightarrow> bool" where
  "registry_ok r \<longleftrightarrow>
     bt_ordered (rg_claims (rg_state r)) \<and>
     (\<forall>(k, c) \<in> set (rg_claims (rg_state r)). dc_question_key c = k \<and> claim_validate c = Inr c) \<and>
     (\<forall>x \<in> set (rg_records (rg_state r)). record_validate x = Inr x)"

datatype registry_op =
    Op_Claim_Open string string string
  | Op_Resolve string string string decision_scope
  | Op_Supersede string string "string option"

fun registry_apply :: "registry_op \<Rightarrow> decision_registry \<Rightarrow> decision_registry" where
  "registry_apply (Op_Claim_Open k q a) r = snd (claim_open k q a r)"
| "registry_apply (Op_Resolve k a v s) r = snd (resolve_claim k a v s r)"
| "registry_apply (Op_Supersede k a v) r = snd (supersede_claim k a v r)"

text \<open>The only changes an operation makes to the locked state.\<close>

inductive registry_change :: "registry_op \<Rightarrow> decision_registry_state \<Rightarrow> decision_registry_state \<Rightarrow> bool" where
  opened: "claim_open_new k q a = Inr c \<Longrightarrow>
     (\<forall>old. bt_get (rg_claims s) (dc_question_key c) = Some old \<longrightarrow> dc_status old \<noteq> Claim_Open) \<Longrightarrow>
     registry_change (Op_Claim_Open k q a) s (s\<lparr>rg_claims := bt_insert (dc_question_key c) c (rg_claims s)\<rparr>)"
| resolved: "record_new k v a scope = Inr x \<Longrightarrow> dr_question_key x = key \<Longrightarrow>
     bt_get (rg_claims s) key = Some c \<Longrightarrow> dc_status c = Claim_Open \<Longrightarrow>
     dc_owning_assignment c = dr_deciding_assignment x \<Longrightarrow>
     registry_change (Op_Resolve k a v scope) s
       (s\<lparr>rg_claims := bt_insert key
            (c\<lparr>dc_status := Claim_Resolved, dc_resolution := Some (dr_resolution x)\<rparr>) (rg_claims s),
          rg_records := rg_records s @ [x]\<rparr>)"
| superseded: "normalize_stable_key k QuestionKey MAX_DECISION_QUESTION_KEY_BYTES = Inr key \<Longrightarrow>
     normalize_stable_key a Assignment MAX_DECISION_ASSIGNMENT_BYTES = Inr (dc_owning_assignment c) \<Longrightarrow>
     transpose_resolution v = Inr w \<Longrightarrow>
     bt_get (rg_claims s) key = Some c \<Longrightarrow> dc_status c = Claim_Open \<Longrightarrow>
     registry_change (Op_Supersede k a v) s
       (s\<lparr>rg_claims := bt_insert key
            (c\<lparr>dc_status := Claim_Superseded, dc_resolution := w\<rparr>) (rg_claims s)\<rparr>)"

lemma lock_state_Inr_iff [result_iffs]: "lock_state r = Inr s \<longleftrightarrow> \<not> rg_poisoned r \<and> s = rg_state r"
  by (auto simp: lock_state_def)

lemma require_open_owned_Inr_iff [result_iffs]:
  "require_open_owned s k a = Inr c \<longleftrightarrow>
     bt_get (rg_claims s) k = Some c \<and> dc_status c = Claim_Open \<and> dc_owning_assignment c = a"
  by (auto simp: require_open_owned_def result_iffs split: if_splits)

lemma record_new_normalized:
  assumes "normalize_stable_key k QuestionKey MAX_DECISION_QUESTION_KEY_BYTES = Inr key"
    and "normalize_stable_key a Assignment MAX_DECISION_ASSIGNMENT_BYTES = Inr decider"
  shows "record_new key v decider s = record_new k v a s"
  using assms by (simp add: record_new_def normalized)

lemma record_new_key:
  "record_new k v a s = Inr x \<Longrightarrow>
     normalize_stable_key k QuestionKey MAX_DECISION_QUESTION_KEY_BYTES = Inr (dr_question_key x)"
  by (auto simp: record_new_def result_iffs)

lemma record_new_decider:
  "record_new k v a s = Inr x \<Longrightarrow>
     normalize_stable_key a Assignment MAX_DECISION_ASSIGNMENT_BYTES = Inr (dr_deciding_assignment x)"
  by (auto simp: record_new_def result_iffs)

definition permitted :: "registry_op \<Rightarrow> decision_registry \<Rightarrow> decision_registry \<Rightarrow> bool" where
  "permitted op r r' \<longleftrightarrow> r' = r \<or>
     (\<not> rg_poisoned r \<and> (\<exists>s. registry_change op (rg_state r) s \<and> r' = r\<lparr>rg_state := s\<rparr>))"

lemma permitted_refl: "permitted op r r"
  by (simp add: permitted_def)

lemma permittedI: "\<not> rg_poisoned r \<Longrightarrow> registry_change op (rg_state r) s \<Longrightarrow> permitted op r (r\<lparr>rg_state := s\<rparr>)"
  by (auto simp: permitted_def)

lemma commit_rule:
  assumes "\<And>x r'. m = Inr (x, r') \<Longrightarrow> permitted op r r'"
  shows "permitted op r (snd (commit r m))"
  using assms by (auto simp: commit_def permitted_refl split: sum.split prod.split)

lemma claim_open_permitted: "permitted (Op_Claim_Open k q a) r (snd (claim_open k q a r))"
  unfolding claim_open_def
proof (rule commit_rule, elim and_then_Inr_iff [THEN iffD1, elim_format] exE conjE)
  fix x r' c s
  assume c: "claim_open_new k q a = Inr c" and lock: "lock_state r = Inr s"
    and new: "(case Option.bind (bt_get (rg_claims s) (dc_question_key c))
       (\<lambda>claim. if dc_status claim = Claim_Open then Some claim else None) of
       Some active \<Rightarrow> Inl (OpenClaimConflict (dc_question_key c) (dc_owning_assignment c)
         (dc_owning_assignment active) (dc_question active))
     | None \<Rightarrow> Inr (c, r\<lparr>rg_state := s\<lparr>rg_claims :=
         bt_insert (dc_question_key c) c (rg_claims s)\<rparr>\<rparr>)) = Inr (x, r')"
  then have "\<forall>old. bt_get (rg_claims s) (dc_question_key c) = Some old \<longrightarrow> dc_status old \<noteq> Claim_Open"
    by (auto split: option.splits if_splits)
  from registry_change.opened [OF c this] new lock show "permitted (Op_Claim_Open k q a) r r'"
    by (auto simp: result_iffs split: option.splits intro: permittedI)
qed

lemma resolve_claim_permitted: "permitted (Op_Resolve k a v scope) r (snd (resolve_claim k a v scope r))"
  unfolding resolve_claim_def
proof (rule commit_rule, elim and_then_Inr_iff [THEN iffD1, elim_format] exE conjE)
  fix x' r' key decider x s c
  assume key: "normalize_stable_key k QuestionKey MAX_DECISION_QUESTION_KEY_BYTES = Inr key"
    and decider: "normalize_stable_key a Assignment MAX_DECISION_ASSIGNMENT_BYTES = Inr decider"
    and x: "record_new key v decider scope = Inr x"
    and lock: "lock_state r = Inr s" and c: "require_open_owned s key decider = Inr c"
    and new: "Inr (x, r\<lparr>rg_state := s\<lparr>rg_claims := bt_insert key
          (c\<lparr>dc_status := Claim_Resolved, dc_resolution := Some (dr_resolution x)\<rparr>) (rg_claims s),
        rg_records := rg_records s @ [x]\<rparr>\<rparr>) = Inr (x', r')"
  have x': "record_new k v a scope = Inr x"
    using x by (simp add: record_new_normalized [OF key decider])
  have "dr_question_key x = key" and "dr_deciding_assignment x = decider"
    using record_new_key [OF x'] record_new_decider [OF x'] key decider by simp_all
  with registry_change.resolved [OF x', of key s c] c lock new
  show "permitted (Op_Resolve k a v scope) r r'"
    by (auto simp: result_iffs intro: permittedI)
qed

lemma supersede_claim_permitted: "permitted (Op_Supersede k a v) r (snd (supersede_claim k a v r))"
  unfolding supersede_claim_def Let_def
proof (rule commit_rule, elim and_then_Inr_iff [THEN iffD1, elim_format] exE conjE)
  fix x' r' key owner w s c
  assume "normalize_stable_key k QuestionKey MAX_DECISION_QUESTION_KEY_BYTES = Inr key"
    and "normalize_stable_key a Assignment MAX_DECISION_ASSIGNMENT_BYTES = Inr owner"
    and "transpose_resolution v = Inr w"
    and "lock_state r = Inr s" and "require_open_owned s key owner = Inr c"
    and "Inr (c\<lparr>dc_status := Claim_Superseded, dc_resolution := w\<rparr>, r\<lparr>rg_state := s\<lparr>rg_claims :=
          bt_insert key (c\<lparr>dc_status := Claim_Superseded, dc_resolution := w\<rparr>) (rg_claims s)\<rparr>\<rparr>) = Inr (x', r')"
  with registry_change.superseded [of k key a c v w s]
  show "permitted (Op_Supersede k a v) r r'"
    by (auto simp: result_iffs intro: permittedI)
qed

lemma registry_apply_change:
  "registry_apply op r = r \<or>
     (\<not> rg_poisoned r \<and>
      (\<exists>s. registry_change op (rg_state r) s \<and> registry_apply op r = r\<lparr>rg_state := s\<rparr>))"
  unfolding permitted_def [symmetric]
  by (cases op) (simp_all add: claim_open_permitted resolve_claim_permitted supersede_claim_permitted)

lemma valid_claim_resolved:
  assumes "claim_validate c = Inr c" and "normalize_resolution v = Inr v"
  shows "claim_validate (c\<lparr>dc_status := Claim_Resolved, dc_resolution := Some v\<rparr>) =
    Inr (c\<lparr>dc_status := Claim_Resolved, dc_resolution := Some v\<rparr>)"
  using assms by (cases c) (auto simp: claim_validate_def transpose_resolution_def result_iffs split: if_splits)

lemma valid_claim_superseded:
  assumes "claim_validate c = Inr c" and "transpose_resolution v = Inr v"
  shows "claim_validate (c\<lparr>dc_status := Claim_Superseded, dc_resolution := v\<rparr>) =
    Inr (c\<lparr>dc_status := Claim_Superseded, dc_resolution := v\<rparr>)"
  using assms by (cases c) (auto simp: claim_validate_def result_iffs split: if_splits)

lemma record_new_resolution:
  "record_new k v a s = Inr x \<Longrightarrow> normalize_resolution (dr_resolution x) = Inr (dr_resolution x)"
  by (auto simp: record_new_def result_iffs normalized)

definition claims_ok :: "(string, decision_claim) btree_map \<Rightarrow> bool" where
  "claims_ok m \<longleftrightarrow> bt_ordered m \<and>
     (\<forall>(k, c) \<in> set m. dc_question_key c = k \<and> claim_validate c = Inr c)"

lemma registry_ok_claims:
  "registry_ok r \<longleftrightarrow> claims_ok (rg_claims (rg_state r)) \<and>
     (\<forall>x \<in> set (rg_records (rg_state r)). record_validate x = Inr x)"
  by (auto simp: registry_ok_def claims_ok_def)

lemma claims_ok_insert:
  "claims_ok m \<Longrightarrow> dc_question_key c = k \<Longrightarrow> claim_validate c = Inr c \<Longrightarrow> claims_ok (bt_insert k c m)"
  by (auto simp: claims_ok_def set_bt_insert bt_ordered_insert)

lemma claims_ok_get:
  "claims_ok m \<Longrightarrow> bt_get m k = Some c \<Longrightarrow> dc_question_key c = k \<and> claim_validate c = Inr c"
  by (auto simp: claims_ok_def bt_get_Some_iff)

lemma registry_apply_ok:
  assumes "registry_ok r" shows "registry_ok (registry_apply op r)"
proof -
  have "registry_ok (r\<lparr>rg_state := s\<rparr>)" if "registry_change op (rg_state r) s" for s
    using that assms
  proof cases
    case (opened k q a c)
    then show ?thesis using assms
      by (simp add: registry_ok_claims claims_ok_insert claim_open_new_valid)
  next
    case (resolved k v a scope x key c)
    then show ?thesis using assms claims_ok_get [of _ key c]
      by (auto simp: registry_ok_claims record_new_valid
          intro!: claims_ok_insert valid_claim_resolved record_new_resolution)
  next
    case (superseded k key a c v w)
    then show ?thesis using assms claims_ok_get [of _ key c]
      by (auto simp: registry_ok_claims
          intro!: claims_ok_insert valid_claim_superseded transpose_resolution_fixed)
  qed
  then show ?thesis using registry_apply_change [of op r] assms by auto
qed

lemma restore_claim_entry_ok:
  "restore_claim_entry c m = Inr m' \<Longrightarrow> claims_ok m \<Longrightarrow> claims_ok m'"
  by (auto simp: restore_claim_entry_def result_iffs claims_ok_insert claim_validate_valid split: if_splits)

lemma from_snapshot_ok:
  assumes "registry_from_snapshot sn = Inr r" shows "registry_ok r"
proof -
  from assms obtain claims records
    where c: "fold_result restore_claim_entry (sn_claims sn) [] = Inr claims"
      and x: "traverse record_validate (sn_records sn) = Inr records"
      and r: "r = \<lparr>rg_state = \<lparr>rg_claims = claims, rg_records = records\<rparr>, rg_poisoned = False\<rparr>"
    by (auto simp: registry_from_snapshot_def result_iffs)
  have "claims_ok claims"
    by (rule fold_result_invariant [OF c]) (auto simp: claims_ok_def [of "[]"] intro: restore_claim_entry_ok)
  then show ?thesis using x r
    by (auto simp: registry_ok_claims elim!: traverse_resultE intro: record_validate_valid)
qed

lemma restore_entries:
  "(\<forall>c \<in> set cs. claim_validate c = Inr c) \<Longrightarrow>
   distinct (map dc_question_key cs) \<Longrightarrow> (\<forall>c \<in> set cs. bt_get m (dc_question_key c) = None) \<Longrightarrow>
     fold_result restore_claim_entry cs m =
       Inr (fold (\<lambda>(k, v). bt_insert k v) (map (\<lambda>c. (dc_question_key c, c)) cs) m)"
proof (induction cs arbitrary: m)
  case (Cons c cs)
  then have "restore_claim_entry c m = Inr (bt_insert (dc_question_key c) c m)"
    by (simp add: restore_claim_entry_def)
  moreover have "\<forall>d \<in> set cs. bt_get (bt_insert (dc_question_key c) c m) (dc_question_key d) = None"
  proof
    fix d assume "d \<in> set cs"
    then have "dc_question_key d \<in> dc_question_key ` set cs" by simp
    then have "dc_question_key d \<noteq> dc_question_key c" using Cons.prems(2) by auto
    with \<open>d \<in> set cs\<close> show "bt_get (bt_insert (dc_question_key c) c m) (dc_question_key d) = None"
      using Cons.prems(3) by (simp add: bt_get_insert)
  qed
  ultimately show ?case using Cons by simp
qed simp

inductive registry_reachable :: "decision_registry \<Rightarrow> bool" where
  fresh: "registry_reachable registry_new"
| restored: "registry_from_snapshot sn = Inr r \<Longrightarrow> registry_reachable r"
| operated: "registry_reachable r \<Longrightarrow> registry_reachable (registry_apply op r)"

lemma registry_new_ok: "registry_ok registry_new"
  by (simp add: registry_new_def registry_ok_def)

lemma registry_reachable_ok: "registry_reachable r \<Longrightarrow> registry_ok r"
  by (induction rule: registry_reachable.induct)
    (simp_all add: registry_new_ok from_snapshot_ok registry_apply_ok)

lemma registry_apply_poisoned [simp]: "rg_poisoned (registry_apply op r) = rg_poisoned r"
  using registry_apply_change [of op r] by auto

lemma registry_reachable_unpoisoned: "registry_reachable r \<Longrightarrow> \<not> rg_poisoned r"
  by (induction rule: registry_reachable.induct)
    (auto simp: registry_new_def registry_from_snapshot_def result_iffs)

lemma claims_ok_entries: "claims_ok m \<Longrightarrow> map (\<lambda>c. (dc_question_key c, c)) (map snd m) = m"
  by (auto simp: claims_ok_def intro!: map_idI)

section \<open>Owners and decisions\<close>

lemma registry_change_get:
  assumes "registry_change op s s'" and "bt_get (rg_claims s) k = Some c" and "dc_status c = Claim_Open"
    and "bt_get (rg_claims s') k \<noteq> Some c"
  shows "(\<exists>k' a' v scope. op = Op_Resolve k' a' v scope \<and>
      normalize_stable_key k' QuestionKey MAX_DECISION_QUESTION_KEY_BYTES = Inr k \<and>
      normalize_stable_key a' Assignment MAX_DECISION_ASSIGNMENT_BYTES = Inr (dc_owning_assignment c)) \<or>
    (\<exists>k' a' v. op = Op_Supersede k' a' v \<and>
      normalize_stable_key k' QuestionKey MAX_DECISION_QUESTION_KEY_BYTES = Inr k \<and>
      normalize_stable_key a' Assignment MAX_DECISION_ASSIGNMENT_BYTES = Inr (dc_owning_assignment c))"
  using assms
proof cases
  case (resolved k' v a' scope x key c')
  then have "key = k" using assms by (auto simp: bt_get_insert split: if_splits)
  with resolved assms show ?thesis
    using record_new_key [OF resolved(3)] record_new_decider [OF resolved(3)] by auto
next
  case (superseded k' key a' c' v w)
  then have "key = k" using assms by (auto simp: bt_get_insert split: if_splits)
  with superseded assms show ?thesis by auto
qed (use assms in \<open>auto simp: bt_get_insert split: if_splits\<close>)

definition backed :: "decision_registry_state \<Rightarrow> bool" where
  "backed s \<longleftrightarrow> (\<forall>k c. bt_get (rg_claims s) k = Some c \<and> dc_status c = Claim_Resolved \<longrightarrow>
     (\<exists>x \<in> set (rg_records s). dr_question_key x = k \<and> Some (dr_resolution x) = dc_resolution c \<and>
        dr_deciding_assignment x = dc_owning_assignment c))"

lemma registry_change_backed: "registry_change op s s' \<Longrightarrow> backed s \<Longrightarrow> backed s'"
proof (induction rule: registry_change.induct)
  case (opened k q a c s)
  then have "dc_status c = Claim_Open" by (auto simp: claim_open_new_def result_iffs)
  with opened show ?case by (auto simp: backed_def bt_get_insert)
next
  case (resolved k v a scope x key s c)
  then show ?case unfolding backed_def by (auto simp: bt_get_insert)
next
  case (superseded k key a c v w s)
  then show ?case by (auto simp: backed_def bt_get_insert)
qed

fun registry_run :: "registry_op list \<Rightarrow> decision_registry \<Rightarrow> decision_registry" where
  "registry_run [] r = r"
| "registry_run (op # ops) r = registry_run ops (registry_apply op r)"

lemma registry_run_backed: "backed (rg_state r) \<Longrightarrow> backed (rg_state (registry_run ops r))"
proof (induction ops arbitrary: r)
  case (Cons op ops)
  have "backed (rg_state (registry_apply op r))"
    using registry_apply_change [of op r] registry_change_backed Cons.prems by auto
  with Cons show ?case by simp
qed simp

lemma registry_change_records: "registry_change op s s' \<Longrightarrow> prefix (rg_records s) (rg_records s')"
  by (induction rule: registry_change.induct) auto

lemma registry_run_records: "prefix (rg_records (rg_state r)) (rg_records (rg_state (registry_run ops r)))"
proof (induction ops arbitrary: r)
  case (Cons op ops)
  have "prefix (rg_records (rg_state r)) (rg_records (rg_state (registry_apply op r)))"
    using registry_apply_change [of op r] registry_change_records by fastforce
  with Cons.IH [of "registry_apply op r"] show ?case by (auto intro: prefix_order.trans)
qed simp

lemma stable_visible: "stable_key_char c \<Longrightarrow> is_visible_ascii c"
  unfolding stable_key_char_def
  by (elim disjE) (simp_all add: alphanumeric_visible, auto simp: is_visible_ascii_def)

lemma visible_not_control: "is_visible_ascii c \<Longrightarrow> \<not> c < CHR 0x20 \<and> c \<noteq> CHR 0x7F \<and> c \<noteq> CHR 0xC2"
  using order_less_le_trans [of c "CHR 0x20" "CHR 0x21"] by (auto simp: is_visible_ascii_def)

lemma visible_no_control: "list_all is_visible_ascii s \<Longrightarrow> \<not> has_control s"
  by (induction s rule: has_control.induct) (auto simp: visible_not_control)

lemma normalize_text_visible:
  "list_all is_visible_ascii s \<Longrightarrow> s \<noteq> [] \<Longrightarrow> length s \<le> m \<Longrightarrow> normalize_text s f m = Inr s"
  by (simp add: normalize_text_def trim_visible visible_no_control)

lemma normalize_stable_key_stable:
  assumes "list_all stable_key_char s" and "s \<noteq> []" and "length s \<le> m"
  shows "normalize_stable_key s f m = Inr s"
proof -
  have "list_all is_visible_ascii s"
    using assms(1) by (auto simp: list_all_iff stable_visible)
  with assms show ?thesis by (simp add: normalize_stable_key_def normalize_text_visible)
qed

lemma registry_run_reachable: "registry_reachable r \<Longrightarrow> registry_reachable (registry_run ops r)"
  by (induction ops arbitrary: r) (auto intro: registry_reachable.operated)

definition sample_scope :: decision_scope where
  "sample_scope = \<lparr>ds_modules = [''api''], ds_symbols = [], ds_topics = []\<rparr>"

definition sample_ops :: "registry_op list" where
  "sample_ops = [Op_Claim_Open ''api'' ''enum?'' ''w1'', Op_Resolve ''api'' ''w1'' ''enum'' sample_scope]"

lemma sample_stable: "list_all stable_key_char ''api''" "list_all stable_key_char ''w1''"
    "list_all is_visible_ascii ''enum?''" "list_all is_visible_ascii ''enum''"
  by code_simp+

lemma sample_key: "normalize_stable_key ''api'' f 256 = Inr ''api''" "normalize_stable_key ''w1'' f 128 = Inr ''w1''"
    "normalize_stable_key ''api'' f 512 = Inr ''api''"
  by (rule normalize_stable_key_stable [OF sample_stable(1)] normalize_stable_key_stable [OF sample_stable(2)]; simp)+

lemma sample_text: "normalize_text ''enum?'' f 16384 = Inr ''enum?''" "normalize_text ''enum'' f 16384 = Inr ''enum''"
  by (rule normalize_text_visible [OF sample_stable(3)] normalize_text_visible [OF sample_stable(4)]; simp)+

lemmas decision_byte_limits =
  MAX_DECISION_QUESTION_KEY_BYTES_def MAX_DECISION_QUESTION_BYTES_def MAX_DECISION_ASSIGNMENT_BYTES_def
  MAX_DECISION_RESOLUTION_BYTES_def MAX_DECISION_SCOPE_KEY_BYTES_def

definition sample_open_claim :: decision_claim where
  "sample_open_claim = \<lparr>dc_question_key = ''api'', dc_question = ''enum?'', dc_owning_assignment = ''w1'',
     dc_status = Claim_Open, dc_resolution = None\<rparr>"

lemma sample_opened: "registry_apply (Op_Claim_Open ''api'' ''enum?'' ''w1'') registry_new =
    \<lparr>rg_state = \<lparr>rg_claims = [(''api'', sample_open_claim)], rg_records = []\<rparr>, rg_poisoned = False\<rparr>"
  by (simp add: claim_open_def claim_open_new_def decision_byte_limits sample_key sample_text commit_def
      lock_state_def registry_new_def bt_get_def sample_open_claim_def)

lemma sample_resolved: "registry_run sample_ops registry_new =
    \<lparr>rg_state = \<lparr>rg_claims = [(''api'', sample_open_claim\<lparr>dc_status := Claim_Resolved, dc_resolution := Some ''enum''\<rparr>)],
       rg_records = [\<lparr>dr_question_key = ''api'', dr_resolution = ''enum'', dr_deciding_assignment = ''w1'',
         dr_scope = sample_scope\<rparr>]\<rparr>, rg_poisoned = False\<rparr>"
  unfolding sample_ops_def registry_run.simps sample_opened
  by (simp add: resolve_claim_def record_new_def scope_validate_def scope_new_def scope_is_empty_def
      normalize_scope_keys_def normalize_resolution_def decision_byte_limits sample_key sample_text commit_def
      lock_state_def require_open_owned_def bt_get_def sample_open_claim_def sample_scope_def btree_set_def)

section \<open>Properties\<close>

text \<open>C31. The report of \<^verbatim>\<open>detect_decision_contradictions\<close> holds exactly the pairs of records, in
  recording order, whose resolutions differ and whose scopes have a module, a symbol or a topic in common;
  each is reported with both identities, both resolutions and the common keys, and reconciliation is needed
  exactly when there is such a pair.\<close>

theorem contradictions_exact:
  "(c \<in> set (rr_contradictions (detect_decision_contradictions rs)) \<longleftrightarrow>
     (\<exists>i j. i < j \<and> j < length rs \<and> dr_resolution (rs ! i) \<noteq> dr_resolution (rs ! j) \<and>
        shares_scope (dr_scope (rs ! i)) (dr_scope (rs ! j)) \<and>
        c = \<lparr>ct_first_record = record_identity (rs ! i), ct_second_record = record_identity (rs ! j),
          ct_overlapping_scope = scope_intersection (dr_scope (rs ! i)) (dr_scope (rs ! j)),
          ct_first_resolution = dr_resolution (rs ! i), ct_second_resolution = dr_resolution (rs ! j)\<rparr>)) \<and>
   (rr_reconciliation_needed (detect_decision_contradictions rs) \<longleftrightarrow>
     (\<exists>i j. i < j \<and> j < length rs \<and> dr_resolution (rs ! i) \<noteq> dr_resolution (rs ! j) \<and>
        shares_scope (dr_scope (rs ! i)) (dr_scope (rs ! j))))"
proof -
  have mem: "c \<in> set (collect_contradictions rs) \<longleftrightarrow>
     (\<exists>i j. i < j \<and> j < length rs \<and> contradiction_of (rs ! i) (rs ! j) = Some c)" for c
    by (rule collect_contradictions_mem)
  have "collect_contradictions rs \<noteq> [] \<longleftrightarrow> (\<exists>c. c \<in> set (collect_contradictions rs))"
    by (cases "collect_contradictions rs") auto
  then show ?thesis
    by (simp add: detect_decision_contradictions_def Let_def mem contradiction_of_Some_iff)
qed

text \<open>C32. A snapshot loses nothing: of a registry built by any sequence of operations on a new or a
  restored registry, the snapshot is taken and \<^verbatim>\<open>from_snapshot\<close> accepts it and returns that registry.\<close>

theorem registry_round_trip:
  assumes "registry_reachable r"
  shows "and_then (registry_snapshot r) registry_from_snapshot = Inr r"
proof -
  let ?m = "rg_claims (rg_state r)" and ?x = "rg_records (rg_state r)"
  have lock: "\<not> rg_poisoned r" and ok: "registry_ok r"
    using assms by (simp_all add: registry_reachable_unpoisoned registry_reachable_ok)
  from ok have m: "claims_ok ?m" by (simp add: registry_ok_claims)
  have keys: "map dc_question_key (map snd ?m) = map fst ?m"
    using m by (auto simp: claims_ok_def)
  have "fold_result restore_claim_entry (map snd ?m) [] =
      Inr (fold (\<lambda>(k, v). bt_insert k v) (map (\<lambda>c. (dc_question_key c, c)) (map snd ?m)) [])"
    using m unfolding claims_ok_def
    by (intro restore_entries) (auto simp only: keys bt_ordered_distinct, auto simp: bt_get_def)
  also have "\<dots> = Inr ?m"
    unfolding claims_ok_entries [OF m] using m
    by (simp add: bt.fold_insert_eqI claims_ok_def bt_ordered_distinct bt_get_def fun_eq_iff)
  finally have "fold_result restore_claim_entry (map snd ?m) [] = Inr ?m" .
  moreover have "traverse record_validate ?x = Inr ?x"
    using ok by (intro traverse_idem) (simp add: registry_ok_claims)
  ultimately show ?thesis using lock
    by (simp add: registry_snapshot_def registry_from_snapshot_def lock_state_def)
qed

theorem registry_round_trip_witness:
  "and_then (registry_snapshot (registry_run sample_ops registry_new)) registry_from_snapshot =
     Inr (registry_run sample_ops registry_new)"
  by (rule registry_round_trip [OF registry_run_reachable [OF registry_reachable.fresh]])

text \<open>C33. An open question changes hands only through its owner: if an operation changes the entry of a
  question that is open, the operation is a resolution or a superseding of that question whose normalized
  assignment is the owner's.\<close>

theorem open_claim_only_by_owner:
  assumes "bt_get (rg_claims (rg_state r)) k = Some c" and "dc_status c = Claim_Open"
    and "bt_get (rg_claims (rg_state (registry_apply op r))) k \<noteq> Some c"
  shows "(\<exists>k' a' v scope. op = Op_Resolve k' a' v scope \<and>
      normalize_stable_key k' QuestionKey MAX_DECISION_QUESTION_KEY_BYTES = Inr k \<and>
      normalize_stable_key a' Assignment MAX_DECISION_ASSIGNMENT_BYTES = Inr (dc_owning_assignment c)) \<or>
    (\<exists>k' a' v. op = Op_Supersede k' a' v \<and>
      normalize_stable_key k' QuestionKey MAX_DECISION_QUESTION_KEY_BYTES = Inr k \<and>
      normalize_stable_key a' Assignment MAX_DECISION_ASSIGNMENT_BYTES = Inr (dc_owning_assignment c))"
proof -
  have "registry_apply op r \<noteq> r" using assms(1,3) by auto
  then obtain s where s: "registry_change op (rg_state r) s" and "registry_apply op r = r\<lparr>rg_state := s\<rparr>"
    using registry_apply_change [of op r] by blast
  with assms(3) have "bt_get (rg_claims s) k \<noteq> Some c" by simp
  from registry_change_get [OF s assms(1,2) this] show ?thesis .
qed

theorem open_claim_only_by_owner_witness:
  "(\<exists>k' a' v scope. Op_Resolve ''api'' ''w1'' ''enum'' sample_scope = Op_Resolve k' a' v scope \<and>
      normalize_stable_key k' QuestionKey MAX_DECISION_QUESTION_KEY_BYTES = Inr ''api'' \<and>
      normalize_stable_key a' Assignment MAX_DECISION_ASSIGNMENT_BYTES = Inr ''w1'') \<or>
    (\<exists>k' a' v. Op_Resolve ''api'' ''w1'' ''enum'' sample_scope = Op_Supersede k' a' v \<and>
      normalize_stable_key k' QuestionKey MAX_DECISION_QUESTION_KEY_BYTES = Inr ''api'' \<and>
      normalize_stable_key a' Assignment MAX_DECISION_ASSIGNMENT_BYTES = Inr ''w1'')"
  using open_claim_only_by_owner [of "registry_apply (Op_Claim_Open ''api'' ''enum?'' ''w1'') registry_new"
      "''api''" sample_open_claim "Op_Resolve ''api'' ''w1'' ''enum'' sample_scope"]
    sample_resolved [unfolded sample_ops_def registry_run.simps]
  unfolding sample_opened by (simp add: bt_get_def sample_open_claim_def)

text \<open>Every decision is on record: in a registry grown from an empty one, each question that stands
  resolved has a record with its resolution, decided by the assignment that owns the question; and records
  are only ever appended.\<close>

theorem resolved_claims_recorded:
  "(\<forall>k c. bt_get (rg_claims (rg_state (registry_run ops registry_new))) k = Some c \<and>
      dc_status c = Claim_Resolved \<longrightarrow>
      (\<exists>x \<in> set (rg_records (rg_state (registry_run ops registry_new))).
         dr_question_key x = k \<and> Some (dr_resolution x) = dc_resolution c \<and>
         dr_deciding_assignment x = dc_owning_assignment c)) \<and>
   prefix (rg_records (rg_state (registry_run ops registry_new)))
     (rg_records (rg_state (registry_run ops' (registry_run ops registry_new))))"
proof -
  have "backed (rg_state registry_new)" by (simp add: backed_def registry_new_def bt_get_def)
  then have "backed (rg_state (registry_run ops registry_new))" by (rule registry_run_backed)
  then show ?thesis unfolding backed_def by (auto intro: registry_run_records)
qed

theorem resolved_claims_recorded_witness:
  "\<exists>x \<in> set (rg_records (rg_state (registry_run sample_ops registry_new))).
     dr_question_key x = ''api'' \<and> dr_resolution x = ''enum'' \<and> dr_deciding_assignment x = ''w1''"
proof -
  have "bt_get (rg_claims (rg_state (registry_run sample_ops registry_new))) ''api'' =
      Some (sample_open_claim\<lparr>dc_status := Claim_Resolved, dc_resolution := Some ''enum''\<rparr>)"
    by (simp add: sample_resolved bt_get_def)
  from resolved_claims_recorded [THEN conjunct1, rule_format, OF conjI, OF this]
  show ?thesis by (simp add: sample_open_claim_def)
qed

end
