(* ===== verification/State_Journal.thy ===== *)
theory State_Journal
  imports Ordered
begin

text \<open>
  The repository-authenticated append-only journal (\<^verbatim>\<open>src/src/state_journal.rs\<close>), on the Unix
  build.

  A run directory is a value: its published record files in sequence order, the temporary files a
  publication left behind, and its head file. A record file holds its length and the record it decodes
  to, if it decodes. The tag function, the encoded lengths and the outcome of every write are arguments:
  the keyed hash and the JSON encoder are external, and a write stops at any of its durable steps. An
  operation returns its result, the handle and the directory.
\<close>

section \<open>Data\<close>

record file_identity =
  fi_device :: u64
  fi_file :: u64

record repository_auth_binding =
  rb_version :: u32
  rb_repository_id :: string
  rb_common_dir_path_sha256 :: string
  rb_common_dir_identity :: file_identity
  rb_key_identity :: file_identity

record journal_spec =
  FORMAT_VERSION :: u32
  NAMESPACE :: string
  ROOT_NAME :: string
  ROOT_LOCK_NAME :: string
  INSTANCE_LOCK_NAME :: string
  HEAD_FILE_NAME :: string
  MAX_RECORDS :: usize
  MAX_RECORD_BYTES :: u64
  MAX_TOTAL_BYTES :: u64
  MAX_PHASE_BYTES :: usize
  MAX_SUBJECT_BYTES :: usize
  MAX_INSTANCE_ID_BYTES :: usize

definition CheckpointJournalSpec :: journal_spec where
  "CheckpointJournalSpec =
     \<lparr>FORMAT_VERSION = 3, NAMESPACE = ''orchestration_checkpoint'',
      ROOT_NAME = ''orchestration-checkpoints-v3'', ROOT_LOCK_NAME = ''.journals.lock'',
      INSTANCE_LOCK_NAME = ''.resume.lock'', HEAD_FILE_NAME = ''.head.json'',
      MAX_RECORDS = 4096, MAX_RECORD_BYTES = 4 * 1024 * 1024, MAX_TOTAL_BYTES = 64 * 1024 * 1024,
      MAX_PHASE_BYTES = 64, MAX_SUBJECT_BYTES = 256, MAX_INSTANCE_ID_BYTES = 128\<rparr>"

record journal_identity =
  ji_version :: u32
  ji_repository :: repository_auth_binding
  ji_run_id :: string
  ji_journal_id :: string
  ji_run_directory_identity :: file_identity

record 'p journal_record =
  jr_version :: u32
  jr_identity :: journal_identity
  jr_sequence :: u64
  jr_previous_mac :: string
  jr_phase :: string
  jr_subject :: "string option"
  jr_payload :: 'p
  jr_mac :: string

record journal_head =
  jh_version :: u32
  jh_identity :: journal_identity
  jh_sequence :: u64
  jh_last_record_mac :: string
  jh_record_bytes :: u64
  jh_mac :: string

datatype 'p mac_payload =
    Record_Mac_Payload u32 journal_identity u64 string string "string option" 'p
  | Head_Mac_Payload u32 journal_identity u64 string u64

text \<open>What the journal uses of the authenticator and of the encoder: the tag of a payload in its
  domain, none when signing is refused, and the number of bytes of an encoded record or head.\<close>

record 'p codec =
  cd_sign :: "'p mac_payload \<Rightarrow> string option"
  cd_record_len :: "'p journal_record \<Rightarrow> nat"
  cd_head_len :: "journal_head \<Rightarrow> nat"

record 'p record_file =
  rf_bytes :: nat
  rf_record :: "'p journal_record option"

record head_file =
  hf_bytes :: nat
  hf_head :: "journal_head option"

record record_temp =
  rt_sequence :: u64
  rt_linked :: bool

record 'p run_directory =
  rd_identity :: file_identity
  rd_records :: "(u64, 'p record_file) btree_map"
  rd_record_temps :: "record_temp list"
  rd_head_temps :: nat
  rd_head :: "head_file option"

record 'p state_journal =
  jn_identity :: journal_identity
  jn_records :: "'p journal_record list"
  jn_record_bytes :: u64
  jn_head_dirty :: bool

datatype journal_error =
    MalformedSpec
  | MalformedBinding
  | MalformedIdentity
  | MalformedInstanceId
  | MalformedPhase
  | MalformedSubject
  | BoundaryFailed
  | DirectoryIdentityChanged
  | RecordCountReached
  | RecordTooLarge
  | TotalTooLarge
  | SequenceOverflow
  | SigningFailed
  | TagInvalid
  | PublishFailed
  | RecordExists
  | EmptyHead
  | HeadTooLarge
  | HeadWriteFailed
  | EntryBound
  | UnsafeStateFile
  | UnboundHardLink
  | UnsafeHardLinks
  | SequenceGap
  | ReadRefused
  | MalformedRecord
  | RecordChainInvalid
  | RecordCountExceeded
  | AmbiguousResidue
  | ForeignTemp
  | ResidueNotBound
  | CleanupFailed
  | HeadMissing
  | MalformedHead
  | HeadBindingInvalid
  | TailTruncated
  | HeadTailMismatch
  | HeadRollbackTooFar
  | HeadRollbackInconsistent
  | RecoveryRequired
  | PublicationResidue
  | NoFirstRecord
  | RunExists
  | LocatorBindingWrong

section \<open>The steps at which a write can stop\<close>

text \<open>
  A record is published by writing a temporary file, linking it to its final name and removing the
  temporary name; the head by writing a temporary file and renaming it over the head. Each outcome but the
  last is an error at that point.
\<close>

datatype publish_outcome = Publish_Refused | Publish_Temp_Left | Publish_Linked | Publish_Unconfirmed | Publish_Done

datatype replace_outcome = Replace_Refused | Replace_Temp_Left | Replace_Unconfirmed | Replace_Done

datatype cleanup_outcome = Cleanup_Head_Fails | Cleanup_Record_Fails | Cleanup_Sync_Fails | Cleanup_Done

record append_io =
  ap_boundary :: bool
  ap_dirty_head :: replace_outcome
  ap_publish :: publish_outcome
  ap_head :: replace_outcome
  ap_after :: bool

record load_io =
  ld_boundary :: bool
  ld_cleanup :: cleanup_outcome
  ld_head :: replace_outcome
  ld_after :: bool

section \<open>Validation\<close>

definition lower_hex_byte :: "char \<Rightarrow> bool" where
  "lower_hex_byte b \<longleftrightarrow> is_ascii_digit b \<or> CHR ''a'' \<le> b \<and> b \<le> CHR ''f''"

definition is_canonical_lower_hex_64 :: "string \<Rightarrow> bool" where
  "is_canonical_lower_hex_64 v \<longleftrightarrow> length v = 64 \<and> list_all lower_hex_byte v"

definition zero_tag :: string where
  "zero_tag = replicate 64 (CHR ''0'')"

definition validate_repository_binding :: "repository_auth_binding \<Rightarrow> journal_error + unit" where
  "validate_repository_binding b =
     ensure (rb_version b = 1 \<and> is_canonical_lower_hex_64 (rb_repository_id b)
       \<and> is_canonical_lower_hex_64 (rb_common_dir_path_sha256 b)
       \<and> fi_file (rb_common_dir_identity b) \<noteq> 0 \<and> fi_file (rb_key_identity b) \<noteq> 0) MalformedBinding"

definition safe_id_byte :: "char \<Rightarrow> bool" where
  "safe_id_byte b \<longleftrightarrow> is_ascii_alphanumeric b \<or> b \<in> set ''-_.''"

definition validate_instance_id :: "journal_spec \<Rightarrow> string \<Rightarrow> journal_error + unit" where
  "validate_instance_id S run_id =
     ensure (run_id \<noteq> [] \<and> length run_id \<le> unat (MAX_INSTANCE_ID_BYTES S)
       \<and> run_id \<noteq> ''.'' \<and> run_id \<noteq> ''..'' \<and> list_all safe_id_byte run_id) MalformedInstanceId"

definition validate_identity :: "journal_spec \<Rightarrow> journal_identity \<Rightarrow> journal_error + unit" where
  "validate_identity S i =
     and_then (validate_repository_binding (ji_repository i)) (\<lambda>_.
     and_then (ensure (ji_version i = FORMAT_VERSION S \<and> fi_file (ji_run_directory_identity i) \<noteq> 0
       \<and> length (ji_journal_id i) = 64 \<and> list_all lower_hex_byte (ji_journal_id i)) MalformedIdentity) (\<lambda>_.
     validate_instance_id S (ji_run_id i)))"

definition canonical_identifier :: "string \<Rightarrow> bool" where
  "canonical_identifier v \<longleftrightarrow>
     v \<noteq> [] \<and> list_all (\<lambda>b. is_ascii_lowercase b \<or> is_ascii_digit b \<or> b \<in> set ''_-'') v"

definition safe_component :: "string \<Rightarrow> bool" where
  "safe_component v \<longleftrightarrow>
     v \<noteq> [] \<and> v \<noteq> ''.'' \<and> v \<noteq> ''..'' \<and> \<not> list_ex (\<lambda>c. c \<in> {CHR ''/'', CHR 0x5C, CHR 0x00}) v"

definition validate_spec :: "journal_spec \<Rightarrow> journal_error + unit" where
  "validate_spec S =
     ensure (FORMAT_VERSION S \<noteq> 0 \<and> canonical_identifier (NAMESPACE S) \<and> safe_component (ROOT_NAME S)
       \<and> safe_component (ROOT_LOCK_NAME S) \<and> safe_component (INSTANCE_LOCK_NAME S)
       \<and> safe_component (HEAD_FILE_NAME S) \<and> ROOT_LOCK_NAME S \<noteq> INSTANCE_LOCK_NAME S
       \<and> INSTANCE_LOCK_NAME S \<noteq> HEAD_FILE_NAME S \<and> MAX_RECORDS S \<noteq> 0 \<and> MAX_RECORD_BYTES S \<noteq> 0
       \<and> MAX_RECORD_BYTES S \<le> MAX_TOTAL_BYTES S \<and> MAX_PHASE_BYTES S \<noteq> 0 \<and> MAX_SUBJECT_BYTES S \<noteq> 0
       \<and> MAX_INSTANCE_ID_BYTES S \<noteq> 0) MalformedSpec"

definition validate_phase :: "journal_spec \<Rightarrow> string \<Rightarrow> journal_error + unit" where
  "validate_phase S phase =
     ensure (phase \<noteq> [] \<and> length phase \<le> unat (MAX_PHASE_BYTES S)
       \<and> list_all (\<lambda>b. is_ascii_lowercase b \<or> is_ascii_digit b \<or> b = CHR ''_'') phase) MalformedPhase"

definition validate_subject :: "journal_spec \<Rightarrow> string \<Rightarrow> journal_error + unit" where
  "validate_subject S subject =
     ensure (subject \<noteq> [] \<and> length subject \<le> unat (MAX_SUBJECT_BYTES S)
       \<and> list_all (\<lambda>b. is_ascii_alphanumeric b \<or> b \<in> set ''-_./'') subject) MalformedSubject"

definition validate_optional_subject :: "journal_spec \<Rightarrow> string option \<Rightarrow> journal_error + unit" where
  "validate_optional_subject S subject =
     (case subject of None \<Rightarrow> Inr () | Some s \<Rightarrow> validate_subject S s)"

definition validate_record_size :: "journal_spec \<Rightarrow> nat \<Rightarrow> u64 \<Rightarrow> journal_error + unit" where
  "validate_record_size S encoded current_total =
     and_then (ensure (encoded < 2 ^ 64) RecordTooLarge) (\<lambda>_.
     and_then (ensure (encoded \<noteq> 0 \<and> encoded \<le> unat (MAX_RECORD_BYTES S)) RecordTooLarge) (\<lambda>_.
     and_then (ok_or (checked_add current_total (of_nat encoded)) TotalTooLarge) (\<lambda>total.
     ensure (total \<le> MAX_TOTAL_BYTES S) TotalTooLarge)))"

definition record_mac_payload :: "'p journal_record \<Rightarrow> 'p mac_payload" where
  "record_mac_payload r =
     Record_Mac_Payload (jr_version r) (jr_identity r) (jr_sequence r) (jr_previous_mac r) (jr_phase r)
       (jr_subject r) (jr_payload r)"

definition head_mac_payload :: "journal_head \<Rightarrow> 'p mac_payload" where
  "head_mac_payload h =
     Head_Mac_Payload (jh_version h) (jh_identity h) (jh_sequence h) (jh_last_record_mac h) (jh_record_bytes h)"

definition verify_tag :: "'p codec \<Rightarrow> 'p mac_payload \<Rightarrow> string \<Rightarrow> journal_error + unit" where
  "verify_tag cd payload tag =
     and_then (ensure (is_canonical_lower_hex_64 tag) TagInvalid) (\<lambda>_.
     and_then (ok_or (cd_sign cd payload) SigningFailed) (\<lambda>expected.
     ensure (expected = tag) TagInvalid))"

definition validate_record ::
  "journal_spec \<Rightarrow> 'p journal_record \<Rightarrow> journal_identity \<Rightarrow> u64 \<Rightarrow> string \<Rightarrow> journal_error + unit" where
  "validate_record S r identity sequence previous =
     and_then (ensure (jr_version r = FORMAT_VERSION S \<and> jr_identity r = identity \<and> jr_sequence r = sequence
       \<and> jr_previous_mac r = previous) RecordChainInvalid) (\<lambda>_.
     and_then (validate_phase S (jr_phase r)) (\<lambda>_.
     validate_optional_subject S (jr_subject r)))"

definition validate_head :: "journal_spec \<Rightarrow> journal_head \<Rightarrow> journal_identity \<Rightarrow> journal_error + unit" where
  "validate_head S h identity =
     ensure (jh_version h = FORMAT_VERSION S \<and> jh_identity h = identity \<and> jh_sequence h \<noteq> 0
       \<and> jh_record_bytes h \<le> MAX_TOTAL_BYTES S) HeadBindingInvalid"

section \<open>Reading a run directory\<close>

definition record_links :: "'p run_directory \<Rightarrow> u64 \<Rightarrow> nat" where
  "record_links d s = 1 + length (filter (\<lambda>t. rt_sequence t = s \<and> rt_linked t) (rd_record_temps d))"

definition directory_entries :: "'p run_directory \<Rightarrow> nat" where
  "directory_entries d =
     1 + (if rd_head d = None then 0 else 1) + rd_head_temps d + length (rd_record_temps d) + length (rd_records d)"

definition last_sequence :: "'p run_directory \<Rightarrow> u64 option" where
  "last_sequence d = (if rd_records d = [] then None else Some (fst (last (rd_records d))))"

definition validate_published_record_linkage :: "'p run_directory \<Rightarrow> u64 \<times> 'p record_file \<Rightarrow> journal_error + unit" where
  "validate_published_record_linkage d entry =
     (let s = fst entry; links = record_links d s in
      if links = 1 then Inr ()
      else if links = 2 then
        and_then (ensure (last_sequence d = Some s) UnboundHardLink) (\<lambda>_.
        ensure (length (filter (\<lambda>t. rt_sequence t = s) (rd_record_temps d)) = 1) UnboundHardLink)
      else Inl UnsafeHardLinks)"

definition inventory_run_directory :: "journal_spec \<Rightarrow> 'p run_directory \<Rightarrow> journal_error + unit" where
  "inventory_run_directory S d =
     and_then (ensure (directory_entries d \<le> unat (saturating_add (MAX_RECORDS S) 8)) EntryBound) (\<lambda>_.
     and_then (ensure (case rd_head d of None \<Rightarrow> True | Some h \<Rightarrow> hf_bytes h \<le> unat (MAX_RECORD_BYTES S)) UnsafeStateFile) (\<lambda>_.
     and_then (traverse (\<lambda>(s, f). ensure (record_links d s \<le> 2 \<and> rf_bytes f \<le> unat (MAX_RECORD_BYTES S)) UnsafeStateFile)
       (rd_records d)) (\<lambda>_.
     and_then (traverse (validate_published_record_linkage d) (rd_records d)) (\<lambda>_. Inr ()))))"

definition read_record :: "journal_spec \<Rightarrow> 'p run_directory \<Rightarrow> u64 \<times> 'p record_file \<Rightarrow> journal_error + nat" where
  "read_record S d entry =
     and_then (ensure (record_links d (fst entry) = 1) ReadRefused) (\<lambda>_.
     and_then (ensure (rf_bytes (snd entry) \<le> unat (MAX_RECORD_BYTES S)) ReadRefused) (\<lambda>_.
     Inr (rf_bytes (snd entry))))"

fun load_records ::
  "journal_spec \<Rightarrow> 'p codec \<Rightarrow> journal_identity \<Rightarrow> 'p run_directory \<Rightarrow> (u64, 'p record_file) btree_map \<Rightarrow>
    nat \<Rightarrow> string \<Rightarrow> u64 \<Rightarrow> journal_error + 'p journal_record list \<times> u64" where
  "load_records S cd identity d [] index previous bytes_total = Inr ([], bytes_total)"
| "load_records S cd identity d (entry # entries) index previous bytes_total =
     and_then (ok_or (checked_add (of_nat index) 1) SequenceOverflow) (\<lambda>expected.
     and_then (ensure (fst entry = expected) SequenceGap) (\<lambda>_.
     and_then (read_record S d entry) (\<lambda>bytes.
     and_then (ok_or (checked_add bytes_total (of_nat bytes)) TotalTooLarge) (\<lambda>bytes_total.
     and_then (ensure (bytes_total \<le> MAX_TOTAL_BYTES S) TotalTooLarge) (\<lambda>_.
     and_then (ok_or (rf_record (snd entry)) MalformedRecord) (\<lambda>r.
     and_then (validate_record S r identity expected previous) (\<lambda>_.
     and_then (verify_tag cd (record_mac_payload r) (jr_mac r)) (\<lambda>_.
     and_then (load_records S cd identity d entries (Suc index) (jr_mac r) bytes_total) (\<lambda>(rs, bytes_total).
     Inr (r # rs, bytes_total))))))))))"

definition load_chain ::
  "journal_spec \<Rightarrow> 'p codec \<Rightarrow> journal_identity \<Rightarrow> 'p run_directory \<Rightarrow> journal_error + 'p journal_record list \<times> u64" where
  "load_chain S cd identity d =
     and_then (load_records S cd identity d (rd_records d) 0 zero_tag 0) (\<lambda>(rs, bytes_total).
     and_then (ensure (length rs \<le> unat (MAX_RECORDS S)) RecordCountExceeded) (\<lambda>_.
     Inr (rs, bytes_total)))"

definition last_mac :: "'p journal_record list \<Rightarrow> string" where
  "last_mac rs = (if rs = [] then zero_tag else jr_mac (last rs))"

section \<open>The head\<close>

definition verify_boundaries :: "'p state_journal \<Rightarrow> 'p run_directory \<Rightarrow> bool \<Rightarrow> journal_error + unit" where
  "verify_boundaries j d reachable =
     and_then (ensure reachable BoundaryFailed) (\<lambda>_.
     ensure (rd_identity d = ji_run_directory_identity (jn_identity j)) DirectoryIdentityChanged)"

definition sign_head :: "'p codec \<Rightarrow> journal_head \<Rightarrow> journal_error + journal_head" where
  "sign_head cd h =
     and_then (ok_or (cd_sign cd (head_mac_payload h)) SigningFailed) (\<lambda>tag. Inr (h\<lparr>jh_mac := tag\<rparr>))"

definition durable_replace ::
  "head_file \<Rightarrow> replace_outcome \<Rightarrow> 'p run_directory \<Rightarrow> (journal_error + unit) \<times> 'p run_directory" where
  "durable_replace file outcome d =
     (case outcome of
        Replace_Refused \<Rightarrow> (Inl HeadWriteFailed, d)
      | Replace_Temp_Left \<Rightarrow> (Inl HeadWriteFailed, d\<lparr>rd_head_temps := rd_head_temps d + 1\<rparr>)
      | Replace_Unconfirmed \<Rightarrow> (Inl HeadWriteFailed, d\<lparr>rd_head := Some file\<rparr>)
      | Replace_Done \<Rightarrow> (Inr (), d\<lparr>rd_head := Some file\<rparr>))"

definition new_head :: "journal_spec \<Rightarrow> 'p codec \<Rightarrow> 'p state_journal \<Rightarrow> journal_error + journal_head" where
  "new_head S cd j =
     and_then (ensure (jn_records j \<noteq> []) EmptyHead) (\<lambda>_.
     and_then (sign_head cd \<lparr>jh_version = FORMAT_VERSION S, jh_identity = jn_identity j,
       jh_sequence = of_nat (length (jn_records j)), jh_last_record_mac = last_mac (jn_records j),
       jh_record_bytes = jn_record_bytes j, jh_mac = zero_tag\<rparr>) (\<lambda>h.
     and_then (ensure (cd_head_len cd h \<le> unat (MAX_RECORD_BYTES S)) HeadTooLarge) (\<lambda>_. Inr h)))"

definition write_head ::
  "journal_spec \<Rightarrow> 'p codec \<Rightarrow> 'p state_journal \<Rightarrow> replace_outcome \<Rightarrow> 'p run_directory \<Rightarrow>
    (journal_error + unit) \<times> 'p run_directory" where
  "write_head S cd j outcome d =
     (case new_head S cd j of
        Inl e \<Rightarrow> (Inl e, d)
      | Inr h \<Rightarrow> durable_replace \<lparr>hf_bytes = cd_head_len cd h, hf_head = Some h\<rparr> outcome d)"

definition publish_head ::
  "journal_spec \<Rightarrow> 'p codec \<Rightarrow> 'p state_journal \<Rightarrow> replace_outcome \<Rightarrow> 'p run_directory \<Rightarrow>
    (journal_error + unit) \<times> 'p state_journal \<times> 'p run_directory" where
  "publish_head S cd j outcome d =
     (case write_head S cd j outcome d of
        (Inr u, d) \<Rightarrow> (Inr (), j\<lparr>jn_head_dirty := False\<rparr>, d)
      | (Inl e, d) \<Rightarrow> (Inl e, j\<lparr>jn_head_dirty := True\<rparr>, d))"

definition read_head :: "journal_spec \<Rightarrow> 'p codec \<Rightarrow> journal_identity \<Rightarrow> head_file \<Rightarrow> journal_error + journal_head" where
  "read_head S cd identity f =
     and_then (ensure (hf_bytes f \<le> unat (MAX_RECORD_BYTES S)) ReadRefused) (\<lambda>_.
     and_then (ok_or (hf_head f) MalformedHead) (\<lambda>h.
     and_then (validate_head S h identity) (\<lambda>_.
     and_then (verify_tag cd (head_mac_payload h) (jh_mac h)) (\<lambda>_. Inr h))))"

section \<open>Appending\<close>

definition next_record ::
  "journal_spec \<Rightarrow> 'p codec \<Rightarrow> 'p state_journal \<Rightarrow> string \<Rightarrow> string option \<Rightarrow> 'p \<Rightarrow> journal_error + 'p journal_record" where
  "next_record S cd j phase subject payload =
     and_then (ok_or (checked_add (of_nat (length (jn_records j))) 1) SequenceOverflow) (\<lambda>sequence.
     let r = \<lparr>jr_version = FORMAT_VERSION S, jr_identity = jn_identity j, jr_sequence = sequence,
       jr_previous_mac = last_mac (jn_records j), jr_phase = phase, jr_subject = subject,
       jr_payload = payload, jr_mac = zero_tag\<rparr> in
     and_then (ok_or (cd_sign cd (record_mac_payload r)) SigningFailed) (\<lambda>tag.
     let r = r\<lparr>jr_mac := tag\<rparr> in
     and_then (validate_record_size S (cd_record_len cd r) (jn_record_bytes j)) (\<lambda>_. Inr r)))"

definition durable_publish_no_replace ::
  "u64 \<Rightarrow> 'p record_file \<Rightarrow> publish_outcome \<Rightarrow> 'p run_directory \<Rightarrow> (journal_error + unit) \<times> 'p run_directory" where
  "durable_publish_no_replace s f outcome d =
     (if bt_get (rd_records d) s \<noteq> None then (Inl RecordExists, d)
      else case outcome of
        Publish_Refused \<Rightarrow> (Inl PublishFailed, d)
      | Publish_Temp_Left \<Rightarrow>
          (Inl PublishFailed, d\<lparr>rd_record_temps := rd_record_temps d @ [\<lparr>rt_sequence = s, rt_linked = False\<rparr>]\<rparr>)
      | Publish_Linked \<Rightarrow>
          (Inl PublishFailed, d\<lparr>rd_records := bt_insert s f (rd_records d),
             rd_record_temps := rd_record_temps d @ [\<lparr>rt_sequence = s, rt_linked = True\<rparr>]\<rparr>)
      | Publish_Unconfirmed \<Rightarrow> (Inl PublishFailed, d\<lparr>rd_records := bt_insert s f (rd_records d)\<rparr>)
      | Publish_Done \<Rightarrow> (Inr (), d\<lparr>rd_records := bt_insert s f (rd_records d)\<rparr>))"

definition append_checks :: "journal_spec \<Rightarrow> 'p state_journal \<Rightarrow> 'p run_directory \<Rightarrow> string \<Rightarrow> string option \<Rightarrow> bool \<Rightarrow>
    journal_error + unit" where
  "append_checks S j d phase subject reachable =
     and_then (validate_phase S phase) (\<lambda>_.
     and_then (validate_optional_subject S subject) (\<lambda>_.
     and_then (ensure (length (jn_records j) < unat (MAX_RECORDS S)) RecordCountReached) (\<lambda>_.
     verify_boundaries j d reachable)))"

definition append_record ::
  "journal_spec \<Rightarrow> 'p codec \<Rightarrow> 'p state_journal \<Rightarrow> 'p journal_record \<Rightarrow> append_io \<Rightarrow> 'p run_directory \<Rightarrow>
    (journal_error + 'p journal_record) \<times> 'p state_journal \<times> 'p run_directory" where
  "append_record S cd j r io d =
     (case durable_publish_no_replace (jr_sequence r) \<lparr>rf_bytes = cd_record_len cd r, rf_record = Some r\<rparr>
        (ap_publish io) d of
        (Inl e, d) \<Rightarrow> (Inl e, j, d)
      | (Inr u, d) \<Rightarrow>
          (case checked_add (jn_record_bytes j) (of_nat (cd_record_len cd r)) of
             None \<Rightarrow> (Inl TotalTooLarge, j, d)
           | Some bytes_total \<Rightarrow>
               (case publish_head S cd
                  (j\<lparr>jn_records := jn_records j @ [r], jn_record_bytes := bytes_total\<rparr>) (ap_head io) d of
                  (Inl e, j, d) \<Rightarrow> (Inl e, j, d)
                | (Inr u, j, d) \<Rightarrow>
                    (case verify_boundaries j d (ap_after io) of
                       Inl e \<Rightarrow> (Inl e, j, d)
                     | Inr u \<Rightarrow> (Inr r, j, d)))))"

definition append_clean ::
  "journal_spec \<Rightarrow> 'p codec \<Rightarrow> 'p state_journal \<Rightarrow> string \<Rightarrow> string option \<Rightarrow> 'p \<Rightarrow> append_io \<Rightarrow> 'p run_directory \<Rightarrow>
    (journal_error + 'p journal_record) \<times> 'p state_journal \<times> 'p run_directory" where
  "append_clean S cd j phase subject payload io d =
     (case next_record S cd j phase subject payload of
        Inl e \<Rightarrow> (Inl e, j, d)
      | Inr r \<Rightarrow> append_record S cd j r io d)"

definition append_journal ::
  "journal_spec \<Rightarrow> 'p codec \<Rightarrow> 'p state_journal \<Rightarrow> string \<Rightarrow> string option \<Rightarrow> 'p \<Rightarrow> append_io \<Rightarrow> 'p run_directory \<Rightarrow>
    (journal_error + 'p journal_record) \<times> 'p state_journal \<times> 'p run_directory" where
  "append_journal S cd j phase subject payload io d =
     (case append_checks S j d phase subject (ap_boundary io) of
        Inl e \<Rightarrow> (Inl e, j, d)
      | Inr u \<Rightarrow>
          if jn_head_dirty j
          then (case publish_head S cd j (ap_dirty_head io) d of
                  (Inl e, j, d) \<Rightarrow> (Inl e, j, d)
                | (Inr u, j, d) \<Rightarrow> append_clean S cd j phase subject payload io d)
          else append_clean S cd j phase subject payload io d)"

section \<open>Recovery\<close>

definition recover_record_temp ::
  "'p state_journal \<Rightarrow> record_temp \<Rightarrow> cleanup_outcome \<Rightarrow> 'p run_directory \<Rightarrow> (journal_error + unit) \<times> 'p run_directory" where
  "recover_record_temp j t outcome d =
     (let last = of_nat (length (jn_records j)) in
      if rt_sequence t = last then
        (if \<not> (rt_linked t \<and> record_links d last = 2) then (Inl ResidueNotBound, d)
         else if outcome = Cleanup_Record_Fails then (Inl CleanupFailed, d)
         else (Inr (), d\<lparr>rd_record_temps := []\<rparr>))
      else if rt_sequence t = saturating_add last 1 then
        (if rt_linked t then (Inl UnsafeStateFile, d)
         else if outcome = Cleanup_Record_Fails then (Inl CleanupFailed, d)
         else (Inr (), d\<lparr>rd_record_temps := []\<rparr>))
      else (Inl ForeignTemp, d))"

definition recover_temporary_files ::
  "'p state_journal \<Rightarrow> cleanup_outcome \<Rightarrow> 'p run_directory \<Rightarrow> (journal_error + unit) \<times> 'p run_directory" where
  "recover_temporary_files j outcome d =
     (if 1 < rd_head_temps d \<or> 1 < length (rd_record_temps d) then (Inl AmbiguousResidue, d)
      else if rd_head_temps d = 1 \<and> outcome = Cleanup_Head_Fails then (Inl CleanupFailed, d)
      else let d = d\<lparr>rd_head_temps := 0\<rparr> in
        (case (case rd_record_temps d of [] \<Rightarrow> (Inr (), d) | t # _ \<Rightarrow> recover_record_temp j t outcome d) of
           (Inl e, d) \<Rightarrow> (Inl e, d)
         | (Inr u, d) \<Rightarrow> if outcome = Cleanup_Sync_Fails then (Inl CleanupFailed, d) else (Inr (), d)))"

definition indexed_mac :: "'p journal_record list \<Rightarrow> nat \<Rightarrow> string" where
  "indexed_mac rs indexed = (if indexed = 0 then zero_tag else jr_mac (rs ! (indexed - 1)))"

definition verify_or_recover_head ::
  "journal_spec \<Rightarrow> 'p codec \<Rightarrow> 'p state_journal \<Rightarrow> replace_outcome \<Rightarrow> 'p run_directory \<Rightarrow>
    (journal_error + unit) \<times> 'p run_directory" where
  "verify_or_recover_head S cd j outcome d =
     (let last_seq = of_nat (length (jn_records j)) in
      case rd_head d of
        None \<Rightarrow> if last_seq \<noteq> 1 then (Inl HeadMissing, d) else write_head S cd j outcome d
      | Some f \<Rightarrow>
          (case read_head S cd (jn_identity j) f of
             Inl e \<Rightarrow> (Inl e, d)
           | Inr h \<Rightarrow>
               if last_seq < jh_sequence h then (Inl TailTruncated, d)
               else if jh_sequence h = last_seq then
                 (if jh_last_record_mac h \<noteq> last_mac (jn_records j) \<or> jh_record_bytes h \<noteq> jn_record_bytes j
                  then (Inl HeadTailMismatch, d) else (Inr (), d))
               else if saturating_add (jh_sequence h) 1 \<noteq> last_seq then (Inl HeadRollbackTooFar, d)
               else if jh_last_record_mac h \<noteq> indexed_mac (jn_records j) (unat (jh_sequence h))
                 \<or> jn_record_bytes j \<le> jh_record_bytes h
               then (Inl HeadRollbackInconsistent, d)
               else write_head S cd j outcome d))"

definition load_and_recover ::
  "journal_spec \<Rightarrow> 'p codec \<Rightarrow> 'p state_journal \<Rightarrow> load_io \<Rightarrow> 'p run_directory \<Rightarrow>
    (journal_error + unit) \<times> 'p state_journal \<times> 'p run_directory" where
  "load_and_recover S cd j io d =
     (case and_then (verify_boundaries j d (ld_boundary io)) (\<lambda>_.
        and_then (inventory_run_directory S d) (\<lambda>_. load_chain S cd (jn_identity j) d)) of
        Inl e \<Rightarrow> (Inl e, j, d)
      | Inr (rs, bytes_total) \<Rightarrow>
          let j = j\<lparr>jn_records := rs, jn_record_bytes := bytes_total\<rparr> in
          (case recover_temporary_files j (ld_cleanup io) d of
             (Inl e, d) \<Rightarrow> (Inl e, j, d)
           | (Inr u, d) \<Rightarrow>
               (case verify_or_recover_head S cd j (ld_head io) d of
                  (Inl e, d) \<Rightarrow> (Inl e, j, d)
                | (Inr u, d) \<Rightarrow> (Inr (), j, d))))"

definition recover_failed_append ::
  "journal_spec \<Rightarrow> 'p codec \<Rightarrow> 'p state_journal \<Rightarrow> load_io \<Rightarrow> 'p run_directory \<Rightarrow>
    (journal_error + unit) \<times> 'p state_journal \<times> 'p run_directory" where
  "recover_failed_append S cd j io d = load_and_recover S cd j io d"

definition empty_handle :: "journal_identity \<Rightarrow> 'p state_journal" where
  "empty_handle identity =
     \<lparr>jn_identity = identity, jn_records = [], jn_record_bytes = 0, jn_head_dirty = False\<rparr>"

definition finish_open ::
  "(journal_error + unit) \<times> 'p state_journal \<times> 'p run_directory \<Rightarrow> bool \<Rightarrow>
    (journal_error + 'p state_journal) \<times> 'p run_directory" where
  "finish_open loaded reachable =
     (case loaded of
        (Inl e, j, d) \<Rightarrow> (Inl e, d)
      | (Inr u, j, d) \<Rightarrow>
          (case verify_boundaries j d reachable of Inl e \<Rightarrow> (Inl e, d) | Inr u \<Rightarrow> (Inr j, d)))"

definition open_journal ::
  "journal_spec \<Rightarrow> 'p codec \<Rightarrow> journal_identity \<Rightarrow> load_io \<Rightarrow> 'p run_directory \<Rightarrow>
    (journal_error + 'p state_journal) \<times> 'p run_directory" where
  "open_journal S cd expected io d =
     (case and_then (validate_spec S) (\<lambda>_. and_then (validate_identity S expected) (\<lambda>_.
        ensure (rd_identity d = ji_run_directory_identity expected) DirectoryIdentityChanged)) of
        Inl e \<Rightarrow> (Inl e, d)
      | Inr u \<Rightarrow> finish_open (load_and_recover S cd (empty_handle expected) io d) (ld_after io))"

section \<open>Creating, initializing and inspecting an instance\<close>

definition empty_directory :: "file_identity \<Rightarrow> 'p run_directory" where
  "empty_directory identity =
     \<lparr>rd_identity = identity, rd_records = [], rd_record_temps = [], rd_head_temps = 0, rd_head = None\<rparr>"

definition fresh_identity ::
  "journal_spec \<Rightarrow> repository_auth_binding \<Rightarrow> string \<Rightarrow> string \<Rightarrow> file_identity \<Rightarrow> journal_identity" where
  "fresh_identity S binding run_id journal_id directory =
     \<lparr>ji_version = FORMAT_VERSION S, ji_repository = binding, ji_run_id = run_id, ji_journal_id = journal_id,
      ji_run_directory_identity = directory\<rparr>"

text \<open>Creation reserves the run directory, which must not exist; the identity of the new directory and the
  random journal id are arguments.\<close>

definition create_journal ::
  "journal_spec \<Rightarrow> repository_auth_binding \<Rightarrow> string \<Rightarrow> string \<Rightarrow> file_identity \<Rightarrow> 'p run_directory option \<Rightarrow> bool \<Rightarrow>
    (journal_error + 'p state_journal) \<times> 'p run_directory option" where
  "create_journal S binding run_id journal_id directory existing reachable =
     (case and_then (validate_spec S) (\<lambda>_. validate_instance_id S run_id) of
        Inl e \<Rightarrow> (Inl e, existing)
      | Inr u \<Rightarrow>
          (case existing of
             Some d \<Rightarrow> (Inl RunExists, existing)
           | None \<Rightarrow>
               if \<not> reachable then (Inl BoundaryFailed, Some (empty_directory directory))
               else (Inr (empty_handle (fresh_identity S binding run_id journal_id directory)),
                 Some (empty_directory directory))))"

definition first_record_identity ::
  "journal_spec \<Rightarrow> (repository_auth_binding \<Rightarrow> bool) \<Rightarrow> string \<Rightarrow> 'p run_directory \<Rightarrow>
    journal_error + journal_identity" where
  "first_record_identity S bound run_id d =
     and_then (ok_or (bt_get (rd_records d) 1) NoFirstRecord) (\<lambda>f.
     and_then (read_record S d (1, f)) (\<lambda>_.
     and_then (ok_or (rf_record f) MalformedRecord) (\<lambda>locator.
     and_then (validate_identity S (jr_identity locator)) (\<lambda>_.
     and_then (ensure (bound (ji_repository (jr_identity locator))) BoundaryFailed) (\<lambda>_.
     and_then (ensure (jr_sequence locator = 1 \<and> ji_run_id (jr_identity locator) = run_id
       \<and> ji_run_directory_identity (jr_identity locator) = rd_identity d) LocatorBindingWrong) (\<lambda>_.
     Inr (jr_identity locator)))))))"

definition open_or_initialize ::
  "journal_spec \<Rightarrow> 'p codec \<Rightarrow> repository_auth_binding \<Rightarrow> string \<Rightarrow> string \<Rightarrow> load_io \<Rightarrow> 'p run_directory \<Rightarrow>
    (journal_error + 'p state_journal) \<times> 'p run_directory" where
  "open_or_initialize S cd binding run_id journal_id io d =
     (case and_then (validate_spec S) (\<lambda>_. and_then (validate_instance_id S run_id) (\<lambda>_.
        inventory_run_directory S d)) of
        Inl e \<Rightarrow> (Inl e, d)
      | Inr u \<Rightarrow>
          if rd_records d = [] then
            if rd_head d \<noteq> None \<or> rd_record_temps d \<noteq> [] \<or> rd_head_temps d \<noteq> 0
            then (Inl PublicationResidue, d)
            else finish_open (Inr (), empty_handle (fresh_identity S binding run_id journal_id (rd_identity d)), d)
              (ld_after io)
          else
            (case first_record_identity S (\<lambda>repository. repository = binding) run_id d of
               Inl e \<Rightarrow> (Inl e, d)
             | Inr identity \<Rightarrow> finish_open (load_and_recover S cd (empty_handle identity) io d) (ld_after io)))"

definition open_instance ::
  "journal_spec \<Rightarrow> 'p codec \<Rightarrow> string \<Rightarrow> load_io \<Rightarrow> 'p run_directory \<Rightarrow>
    (journal_error + 'p state_journal) \<times> 'p run_directory" where
  "open_instance S cd run_id io d =
     (case and_then (validate_spec S) (\<lambda>_. and_then (validate_instance_id S run_id) (\<lambda>_.
        first_record_identity S (\<lambda>_. True) run_id d)) of
        Inl e \<Rightarrow> (Inl e, d)
      | Inr identity \<Rightarrow> open_journal S cd identity io d)"

definition verify_head_exact ::
  "journal_spec \<Rightarrow> 'p codec \<Rightarrow> journal_identity \<Rightarrow> 'p journal_record list \<Rightarrow> u64 \<Rightarrow> head_file option \<Rightarrow>
    journal_error + unit" where
  "verify_head_exact S cd identity rs record_bytes head =
     and_then (ok_or head RecoveryRequired) (\<lambda>f.
     and_then (ensure (rs \<noteq> []) HeadMissing) (\<lambda>_.
     and_then (read_head S cd identity f) (\<lambda>h.
     ensure (jh_sequence h = of_nat (length rs) \<and> jh_last_record_mac h = jr_mac (last rs)
       \<and> jh_record_bytes h = record_bytes) RecoveryRequired)))"

definition open_existing_read_only ::
  "journal_spec \<Rightarrow> 'p codec \<Rightarrow> journal_identity \<Rightarrow> bool \<Rightarrow> 'p run_directory \<Rightarrow> journal_error + 'p state_journal" where
  "open_existing_read_only S cd expected reachable d =
     and_then (validate_spec S) (\<lambda>_.
     and_then (validate_identity S expected) (\<lambda>_.
     and_then (ensure (rd_identity d = ji_run_directory_identity expected) DirectoryIdentityChanged) (\<lambda>_.
     and_then (ensure reachable BoundaryFailed) (\<lambda>_.
     and_then (inventory_run_directory S d) (\<lambda>_.
     and_then (ensure (rd_record_temps d = [] \<and> rd_head_temps d = 0) RecoveryRequired) (\<lambda>_.
     and_then (load_chain S cd expected d) (\<lambda>(rs, bytes_total).
     and_then (verify_head_exact S cd expected rs bytes_total (rd_head d)) (\<lambda>_.
     Inr \<lparr>jn_identity = expected, jn_records = rs, jn_record_bytes = bytes_total, jn_head_dirty = False\<rparr>))))))))"

section \<open>Record file names\<close>

fun padded_decimal :: "nat \<Rightarrow> nat \<Rightarrow> string" where
  "padded_decimal 0 n = []"
| "padded_decimal (Suc k) n = padded_decimal k (n div 10) @ [char_of (48 + n mod 10)]"

text \<open>The decimal digits of a \<^verbatim>\<open>u64\<close> are at most 20, so padding to 20 is its 20-digit form.\<close>

definition record_file_name :: "u64 \<Rightarrow> string" where
  "record_file_name s = padded_decimal 20 (unat s) @ ''.json''"

definition digit_value :: "char \<Rightarrow> nat" where
  "digit_value c = of_char c - 48"

definition parse_decimal :: "string \<Rightarrow> nat" where
  "parse_decimal ds = foldl (\<lambda>n c. 10 * n + digit_value c) 0 ds"

definition strip_suffix :: "string \<Rightarrow> string \<Rightarrow> string option" where
  "strip_suffix x s =
     (if length x \<le> length s \<and> drop (length s - length x) s = x
      then Some (take (length s - length x) s) else None)"

definition parse_record_file_name :: "string \<Rightarrow> u64 option" where
  "parse_record_file_name name =
     (case strip_suffix ''.json'' name of
        None \<Rightarrow> None
      | Some digits \<Rightarrow>
          if length digits \<noteq> 20 \<or> \<not> list_all is_ascii_digit digits then None
          else if 2 ^ 64 \<le> parse_decimal digits then None
          else let s = of_nat (parse_decimal digits) in
            if record_file_name s \<noteq> name then None else Some s)"

end
