(* ===== verification/Journal_Recovery.thy ===== *)
theory Journal_Recovery
  imports State_Journal
begin

text \<open>
  What an accepted journal is, and what an append that stops at any of its steps leaves behind: the next
  open recovers it, except where the publication stops between linking the record and removing its temporary
  name.

  A directory \<open>holds_chain\<close> when its record files are exactly the records of a valid chain; a
  handle is \<open>in_order\<close> when its directory holds its records with a matching head and no temporary
  file, and a directory is \<open>recoverable\<close> when it is one interrupted append away from that.
\<close>

section \<open>Accepted chains\<close>

fun chain_ok :: "journal_spec \<Rightarrow> 'p codec \<Rightarrow> journal_identity \<Rightarrow> 'p journal_record list \<Rightarrow> nat \<Rightarrow> string \<Rightarrow> bool" where
  "chain_ok S cd identity [] index previous \<longleftrightarrow> True"
| "chain_ok S cd identity (r # rs) index previous \<longleftrightarrow>
     validate_record S r identity (of_nat (Suc index)) previous = Inr () \<and>
     verify_tag cd (record_mac_payload r) (jr_mac r) = Inr () \<and>
     chain_ok S cd identity rs (Suc index) (jr_mac r)"

fun files_of :: "'p codec \<Rightarrow> nat \<Rightarrow> 'p journal_record list \<Rightarrow> (u64, 'p record_file) btree_map" where
  "files_of cd index [] = []"
| "files_of cd index (r # rs) =
     (of_nat (Suc index), \<lparr>rf_bytes = cd_record_len cd r, rf_record = Some r\<rparr>) # files_of cd (Suc index) rs"

definition bytes_of :: "'p codec \<Rightarrow> 'p journal_record list \<Rightarrow> nat" where
  "bytes_of cd rs = sum_list (map (cd_record_len cd) rs)"

lemma bytes_of_simps [simp]:
  "bytes_of cd [] = 0" "bytes_of cd (r # rs) = cd_record_len cd r + bytes_of cd rs"
  "bytes_of cd (rs @ ss) = bytes_of cd rs + bytes_of cd ss"
  by (simp_all add: bytes_of_def)

lemma chain_ok_append:
  "chain_ok S cd i (rs @ ss) n p \<longleftrightarrow>
     chain_ok S cd i rs n p \<and> chain_ok S cd i ss (n + length rs) (if rs = [] then p else jr_mac (last rs))"
  by (induction rs arbitrary: n p) auto

lemma files_of_append: "files_of cd n (rs @ ss) = files_of cd n rs @ files_of cd (n + length rs) ss"
  by (induction rs arbitrary: n) auto

lemma length_files_of [simp]: "length (files_of cd n rs) = length rs"
  by (induction rs arbitrary: n) auto

lemma files_of_Nil_iff [simp]: "files_of cd n rs = [] \<longleftrightarrow> rs = []"
  by (cases rs) auto

lemma fst_files_of: "fst ` set (files_of cd n rs) = of_nat ` {Suc n..<Suc (n + length rs)}"
proof (induction rs arbitrary: n)
  case (Cons r rs)
  have "{Suc n..<Suc (n + length (r # rs))} = insert (Suc n) {Suc (Suc n)..<Suc (Suc n + length rs)}"
    by auto
  with Cons show ?case by simp
qed simp

lemma unat_of_nat_u64: "n < 2 ^ 64 \<Longrightarrow> unat (of_nat n :: u64) = n"
  by (simp add: unat_of_nat take_bit_nat_eq_self)

lemma checked_add_of_nat:
  "unat a + n < 2 ^ 64 \<Longrightarrow> checked_add a (of_nat n :: u64) = Some (a + of_nat n)"
  "unat a + n < 2 ^ 64 \<Longrightarrow> unat (a + of_nat n :: u64) = unat a + n"
proof -
  assume *: "unat a + n < 2 ^ 64"
  show sum: "unat (a + of_nat n :: u64) = unat a + n"
    using * by (simp add: unat_word_ariths unat_of_nat_u64)
  show "checked_add a (of_nat n :: u64) = Some (a + of_nat n)"
    using * sum by (simp add: checked_add_Some_iff unat_of_nat_u64)
qed

lemma next_sequence: "Suc n < 2 ^ 64 \<Longrightarrow> checked_add (of_nat n :: u64) 1 = Some (of_nat (Suc n))"
  by (simp add: checked_add_Some_iff unat_of_nat_u64 del: of_nat_Suc)

lemma load_records_files:
  assumes "\<forall>s. record_links d s = 1" and "chain_ok S cd i rs n p" and "n + length rs < 2 ^ 64"
    and "\<forall>r \<in> set rs. cd_record_len cd r \<le> unat (MAX_RECORD_BYTES S)"
    and "unat t + bytes_of cd rs \<le> unat (MAX_TOTAL_BYTES S)"
  shows "\<exists>t'. load_records S cd i d (files_of cd n rs) n p t = Inr (rs, t') \<and> unat t' = unat t + bytes_of cd rs"
  using assms
proof (induction rs arbitrary: n p t)
  case (Cons r rs)
  have len: "cd_record_len cd r \<le> unat (MAX_RECORD_BYTES S)" using Cons.prems by simp
  have "unat t + cd_record_len cd r \<le> unat (MAX_TOTAL_BYTES S)" using Cons.prems(5) by simp
  then have lt: "unat t + cd_record_len cd r < 2 ^ 64" using unat_less_exp [of "MAX_TOTAL_BYTES S"] by simp
  then have add: "checked_add t (of_nat (cd_record_len cd r)) = Some (t + of_nat (cd_record_len cd r))"
    and sum: "unat (t + of_nat (cd_record_len cd r)) = unat t + cd_record_len cd r"
    by (simp_all add: checked_add_of_nat)
  have "\<exists>t'. load_records S cd i d (files_of cd (Suc n) rs) (Suc n) (jr_mac r) (t + of_nat (cd_record_len cd r)) =
      Inr (rs, t') \<and> unat t' = unat (t + of_nat (cd_record_len cd r)) + bytes_of cd rs"
    using Cons.prems sum by (intro Cons.IH) auto
  moreover have "t + of_nat (cd_record_len cd r) \<le> MAX_TOTAL_BYTES S"
    using Cons.prems(5) sum by (simp add: word_le_nat_alt)
  ultimately show ?case
    using Cons.prems len add sum
    by (auto simp: next_sequence read_record_def simp del: of_nat_Suc)
qed simp

lemma next_sequence_value: "checked_add (of_nat n :: u64) 1 = Some e \<Longrightarrow> e = of_nat (Suc n)"
  by (auto simp: checked_add_one split: if_splits)

lemma unit_result: "(x :: 'e + unit) = Inr u \<longleftrightarrow> x = Inr ()"
  by simp

lemma load_records_chain:
  "load_records S cd i d es n p t = Inr (rs, t') \<Longrightarrow>
     chain_ok S cd i rs n p \<and> length rs = length es \<and> map fst es = map (\<lambda>k. of_nat (Suc k)) [n..<n + length rs] \<and>
     map (rf_record \<circ> snd) es = map Some rs"
proof (induction es arbitrary: n p t rs)
  case (Cons e es)
  from Cons.prems obtain x bs t2 r rs' where
    x: "checked_add (of_nat n :: u64) 1 = Some x" "fst e = x"
    and r: "rf_record (snd e) = Some r" "validate_record S r i x p = Inr ()"
      "verify_tag cd (record_mac_payload r) (jr_mac r) = Inr ()"
    and rest: "load_records S cd i d es (Suc n) (jr_mac r) t2 = Inr (rs', t')" and rs: "rs = r # rs'"
    by (auto simp: result_iffs split: prod.splits)
  from Cons.IH [OF rest] x r rs next_sequence_value [OF x(1)] show ?case
    by (auto simp: upt_rec [of n] simp del: of_nat_Suc upt_Suc)
qed simp

section \<open>States between appends\<close>

definition head_of :: "journal_spec \<Rightarrow> 'p codec \<Rightarrow> journal_identity \<Rightarrow> 'p journal_record list \<Rightarrow> head_file \<Rightarrow> bool" where
  "head_of S cd i rs f \<longleftrightarrow> hf_bytes f \<le> unat (MAX_RECORD_BYTES S) \<and>
     (\<exists>h. hf_head f = Some h \<and> jh_version h = FORMAT_VERSION S \<and> jh_identity h = i \<and>
       jh_sequence h = of_nat (length rs) \<and> jh_last_record_mac h = last_mac rs \<and>
       jh_record_bytes h = of_nat (bytes_of cd rs) \<and>
       verify_tag cd (head_mac_payload h) (jh_mac h) = Inr ())"

text \<open>A directory that holds exactly the records of an accepted chain.\<close>

definition holds_chain ::
  "journal_spec \<Rightarrow> 'p codec \<Rightarrow> journal_identity \<Rightarrow> 'p journal_record list \<Rightarrow> 'p run_directory \<Rightarrow> bool" where
  "holds_chain S cd i rs d \<longleftrightarrow>
     validate_identity S i = Inr () \<and> rd_identity d = ji_run_directory_identity i \<and> rd_records d = files_of cd 0 rs \<and>
     chain_ok S cd i rs 0 zero_tag \<and> length rs \<le> unat (MAX_RECORDS S) \<and>
     (\<forall>r \<in> set rs. 0 < cd_record_len cd r \<and> cd_record_len cd r \<le> unat (MAX_RECORD_BYTES S)) \<and>
     bytes_of cd rs \<le> unat (MAX_TOTAL_BYTES S)"

definition in_order :: "journal_spec \<Rightarrow> 'p codec \<Rightarrow> 'p state_journal \<Rightarrow> 'p run_directory \<Rightarrow> bool" where
  "in_order S cd j d \<longleftrightarrow>
     holds_chain S cd (jn_identity j) (jn_records j) d \<and> jn_record_bytes j = of_nat (bytes_of cd (jn_records j)) \<and>
     \<not> jn_head_dirty j \<and> rd_record_temps d = [] \<and> rd_head_temps d = 0 \<and>
     (if jn_records j = [] then rd_head d = None
      else \<exists>f. rd_head d = Some f \<and> head_of S cd (jn_identity j) (jn_records j) f)"

text \<open>A directory one interrupted append away from that: the head may lag one record behind, and a
  temporary head and an unlinked temporary record of the next sequence may be left.\<close>

definition recoverable ::
  "journal_spec \<Rightarrow> 'p codec \<Rightarrow> journal_identity \<Rightarrow> 'p journal_record list \<Rightarrow> 'p run_directory \<Rightarrow> bool" where
  "recoverable S cd i rs d \<longleftrightarrow>
     holds_chain S cd i rs d \<and> rs \<noteq> [] \<and> rd_head_temps d \<le> 1 \<and>
     rd_record_temps d \<in> {[], [\<lparr>rt_sequence = of_nat (Suc (length rs)), rt_linked = False\<rparr>]} \<and>
     (case rd_head d of
        None \<Rightarrow> length rs = 1
      | Some f \<Rightarrow> head_of S cd i rs f \<or> (butlast rs \<noteq> [] \<and> head_of S cd i (butlast rs) f))"

text \<open>What the journal relies on of the authenticator and the serializer: every payload is signed with a canonical
  tag, a record is not empty, and a head whose identity and tags are valid (so all its strings are bounded) fits the
  record bound.\<close>

definition codec_ok :: "journal_spec \<Rightarrow> 'p codec \<Rightarrow> bool" where
  "codec_ok S cd \<longleftrightarrow>
     (\<forall>m. case cd_sign cd m of None \<Rightarrow> False | Some t \<Rightarrow> is_canonical_lower_hex_64 t) \<and>
     (\<forall>h. validate_identity S (jh_identity h) = Inr () \<and> is_canonical_lower_hex_64 (jh_last_record_mac h) \<and>
       is_canonical_lower_hex_64 (jh_mac h) \<longrightarrow> cd_head_len cd h \<le> unat (MAX_RECORD_BYTES S)) \<and>
     (\<forall>r. 0 < cd_record_len cd r) \<and> unat (MAX_RECORDS S) + 8 < 2 ^ 64"

lemma codec_ok_sign:
  "codec_ok S cd \<Longrightarrow> \<exists>t. cd_sign cd m = Some t \<and> verify_tag cd m t = Inr ()"
  by (auto simp: codec_ok_def verify_tag_def split: option.splits dest!: spec [of _ m])

lemma holds_chain_fits:
  assumes "holds_chain S cd i rs d" and "rs \<noteq> []"
  shows "validate_identity S i = Inr ()" and "is_canonical_lower_hex_64 (last_mac rs)"
proof -
  obtain qs r where rs: "rs = qs @ [r]" using assms(2) by (cases rs rule: rev_cases) auto
  then have "verify_tag cd (record_mac_payload r) (jr_mac r) = Inr ()"
    using assms(1) by (auto simp: holds_chain_def chain_ok_append)
  then show "is_canonical_lower_hex_64 (last_mac rs)"
    by (auto simp: rs last_mac_def verify_tag_def result_iffs)
  show "validate_identity S i = Inr ()" using assms(1) by (simp add: holds_chain_def)
qed

lemma new_head_ok:
  assumes "codec_ok S cd" and "jn_records j \<noteq> []" and "jn_record_bytes j = of_nat (bytes_of cd (jn_records j))"
    and "validate_identity S (jn_identity j) = Inr ()" and "is_canonical_lower_hex_64 (last_mac (jn_records j))"
  obtains h where "new_head S cd j = Inr h"
    and "head_of S cd (jn_identity j) (jn_records j) \<lparr>hf_bytes = cd_head_len cd h, hf_head = Some h\<rparr>"
proof -
  let ?h = "\<lparr>jh_version = FORMAT_VERSION S, jh_identity = jn_identity j,
       jh_sequence = of_nat (length (jn_records j)), jh_last_record_mac = last_mac (jn_records j),
       jh_record_bytes = jn_record_bytes j, jh_mac = zero_tag\<rparr> :: journal_head"
  obtain t where t: "cd_sign cd (head_mac_payload ?h) = Some t" "verify_tag cd (head_mac_payload ?h) t = Inr ()"
    using codec_ok_sign [OF assms(1)] by blast
  have "is_canonical_lower_hex_64 t" using t(2) by (auto simp: verify_tag_def result_iffs)
  then have fits: "cd_head_len cd (?h\<lparr>jh_mac := t\<rparr>) \<le> unat (MAX_RECORD_BYTES S)"
    using assms(1,4,5) by (simp add: codec_ok_def)
  show ?thesis
  proof (rule that)
    show "new_head S cd j = Inr (?h\<lparr>jh_mac := t\<rparr>)"
      using assms(2) t fits by (simp add: new_head_def sign_head_def)
    show "head_of S cd (jn_identity j) (jn_records j)
        \<lparr>hf_bytes = cd_head_len cd (?h\<lparr>jh_mac := t\<rparr>), hf_head = Some (?h\<lparr>jh_mac := t\<rparr>)\<rparr>"
      using t fits assms(3) by (simp add: head_of_def head_mac_payload_def)
  qed
qed

lemma write_head_done:
  assumes "codec_ok S cd" and "jn_records j \<noteq> []" and "jn_record_bytes j = of_nat (bytes_of cd (jn_records j))"
    and "validate_identity S (jn_identity j) = Inr ()" and "is_canonical_lower_hex_64 (last_mac (jn_records j))"
  obtains f where "head_of S cd (jn_identity j) (jn_records j) f"
    and "write_head S cd j Replace_Done d = (Inr (), d\<lparr>rd_head := Some f\<rparr>)"
  using new_head_ok [OF assms] by (metis (no_types, lifting) write_head_def durable_replace_def replace_outcome.simps(16) sum.case(2))

section \<open>Recovery of an interrupted append\<close>

definition clean_io :: load_io where
  "clean_io = \<lparr>ld_boundary = True, ld_cleanup = Cleanup_Done, ld_head = Replace_Done, ld_after = True\<rparr>"

lemma snd_files_of: "e \<in> set (files_of cd n rs) \<Longrightarrow> \<exists>r \<in> set rs. snd e = \<lparr>rf_bytes = cd_record_len cd r, rf_record = Some r\<rparr>"
  by (induction rs arbitrary: n) auto

lemma traverse_unit: "(\<forall>x \<in> set xs. f x = Inr (g x)) \<Longrightarrow> traverse f xs = Inr (map g xs)"
  by (induction xs) auto

lemma no_links: "(\<forall>t \<in> set (rd_record_temps d). \<not> rt_linked t) \<Longrightarrow> record_links d s = 1"
  by (auto simp: record_links_def filter_empty_conv)

lemma holds_chain_size:
  "codec_ok S cd \<Longrightarrow> holds_chain S cd i rs d \<Longrightarrow> length rs + 8 < 2 ^ 64"
  by (auto simp: codec_ok_def holds_chain_def)

lemma inventory_ok:
  assumes "codec_ok S cd" and "holds_chain S cd i rs d" and "\<forall>t \<in> set (rd_record_temps d). \<not> rt_linked t"
    and "length (rd_record_temps d) \<le> 1" and "rd_head_temps d \<le> 1"
    and "\<And>f. rd_head d = Some f \<Longrightarrow> hf_bytes f \<le> unat (MAX_RECORD_BYTES S)"
  shows "inventory_run_directory S d = Inr ()"
proof -
  have "unat (saturating_add (MAX_RECORDS S) 8) = unat (MAX_RECORDS S) + 8"
    using assms(1) by (simp add: unat_saturating_add codec_ok_def)
  then have "directory_entries d \<le> unat (saturating_add (MAX_RECORDS S) 8)"
    using assms by (simp add: directory_entries_def holds_chain_def)
  moreover have "traverse (\<lambda>(s, f). ensure (record_links d s \<le> 2 \<and> rf_bytes f \<le> unat (MAX_RECORD_BYTES S)) UnsafeStateFile)
       (rd_records d) = Inr (map (\<lambda>_. ()) (rd_records d))"
    using assms(2,3) by (intro traverse_unit) (fastforce simp: holds_chain_def no_links dest!: snd_files_of)
  moreover have "traverse (validate_published_record_linkage d) (rd_records d) = Inr (map (\<lambda>_. ()) (rd_records d))"
    using assms(3) by (intro traverse_unit) (simp add: validate_published_record_linkage_def no_links)
  ultimately show ?thesis
    using assms(6) by (auto simp: inventory_run_directory_def split: option.splits)
qed

lemma load_chain_ok:
  assumes "codec_ok S cd" and "holds_chain S cd i rs d" and "\<forall>t \<in> set (rd_record_temps d). \<not> rt_linked t"
  shows "load_chain S cd i d = Inr (rs, of_nat (bytes_of cd rs))"
proof -
  have "\<exists>t'. load_records S cd i d (files_of cd 0 rs) 0 zero_tag 0 = Inr (rs, t') \<and>
      unat t' = unat (0 :: u64) + bytes_of cd rs"
    using assms holds_chain_size [OF assms(1,2)]
    by (intro load_records_files) (auto simp: holds_chain_def no_links)
  then obtain t' where t': "load_records S cd i d (files_of cd 0 rs) 0 zero_tag 0 = Inr (rs, t')"
    and "unat t' = bytes_of cd rs" by auto
  then have "t' = of_nat (bytes_of cd rs)"
    using unat_less_exp [of t'] by (simp add: word_unat_eq_iff unat_of_nat_u64)
  with t' assms(2) show ?thesis by (simp add: load_chain_def holds_chain_def)
qed

lemma read_head_of:
  assumes "codec_ok S cd" and "head_of S cd i rs f" and "rs \<noteq> []" and "length rs < 2 ^ 64"
    and "bytes_of cd rs \<le> unat (MAX_TOTAL_BYTES S)"
  obtains h where "read_head S cd i f = Inr h" and "jh_sequence h = of_nat (length rs)"
    and "jh_last_record_mac h = last_mac rs" and "jh_record_bytes h = of_nat (bytes_of cd rs)"
proof -
  have "(of_nat (length rs) :: u64) \<noteq> 0"
    using assms(3,4) unat_of_nat_u64 [of "length rs"] by (metis length_0_conv unat_0)
  moreover have "(of_nat (bytes_of cd rs) :: u64) \<le> MAX_TOTAL_BYTES S"
    using assms(5) unat_less_exp [of "MAX_TOTAL_BYTES S"]
    by (simp add: word_le_nat_alt unat_of_nat_u64)
  ultimately show ?thesis
    using assms(2) that by (auto simp: head_of_def read_head_def validate_head_def)
qed

lemma recover_temps_ok:
  assumes "codec_ok S cd" and "recoverable S cd (jn_identity j) (jn_records j) d"
  shows "recover_temporary_files j Cleanup_Done d = (Inr (), d\<lparr>rd_head_temps := 0, rd_record_temps := []\<rparr>)"
proof -
  have "holds_chain S cd (jn_identity j) (jn_records j) d" using assms(2) by (simp add: recoverable_def)
  from holds_chain_size [OF assms(1) this] have size: "length (jn_records j) + 8 < 2 ^ 64" .
  let ?n = "of_nat (length (jn_records j)) :: u64" and ?m = "of_nat (Suc (length (jn_records j))) :: u64"
  have "unat ?m = Suc (unat ?n)" using size by (simp only: unat_of_nat_u64)
  then have ne: "?m \<noteq> ?n" by auto
  have sat: "saturating_add ?n 1 = ?m"
    using size by (simp add: word_unat_eq_iff unat_saturating_add unat_of_nat_u64 del: of_nat_Suc)
  from assms(2) consider "rd_record_temps d = []"
    | "rd_record_temps d = [\<lparr>rt_sequence = ?m, rt_linked = False\<rparr>]"
    by (auto simp: recoverable_def)
  then show ?thesis
  proof cases
    case 1
    then show ?thesis using assms(2) by (simp add: recover_temporary_files_def recoverable_def)
  next
    case 2
    then show ?thesis using assms(2) ne sat
      by (simp add: recover_temporary_files_def recoverable_def recover_record_temp_def Let_def del: of_nat_Suc)
  qed
qed

lemma lagging_head:
  assumes "codec_ok S cd" and "holds_chain S cd i rs d" and "butlast rs \<noteq> []" and "head_of S cd i (butlast rs) f"
    and "jn_identity j = i" and "jn_records j = rs" and "jn_record_bytes j = of_nat (bytes_of cd rs)"
    and "rd_head e = Some f"
  shows "verify_or_recover_head S cd j Replace_Done e = write_head S cd j Replace_Done e"
proof -
  obtain qs r where rs: "rs = qs @ [r]" using assms(3) by (cases rs rule: rev_cases) auto
  then have qs: "butlast rs = qs" by simp
  define n where "n = length qs"
  have len: "length rs = Suc n" and n: "0 < n" using rs assms(3) by (simp_all add: n_def)
  have size: "Suc n + 8 < 2 ^ 64" using holds_chain_size [OF assms(1,2)] len by simp
  have bytes: "bytes_of cd qs < bytes_of cd rs" "bytes_of cd rs \<le> unat (MAX_TOTAL_BYTES S)"
    using assms(2) rs by (auto simp: holds_chain_def)
  obtain h where h: "read_head S cd i f = Inr h" "jh_sequence h = of_nat n"
    "jh_last_record_mac h = last_mac qs" "jh_record_bytes h = of_nat (bytes_of cd qs)"
    using read_head_of [OF assms(1,4,3)] size bytes unfolding qs n_def by auto
  have un: "unat (of_nat n :: u64) = n" "unat (of_nat (Suc n) :: u64) = Suc n"
    using size by (simp_all only: unat_of_nat_u64)
  have seq: "\<not> (of_nat (Suc n) :: u64) < of_nat n" "(of_nat n :: u64) \<noteq> of_nat (Suc n)"
    "saturating_add (of_nat n :: u64) 1 = of_nat (Suc n)"
    using un size by (auto simp: word_less_nat_alt word_unat_eq_iff unat_saturating_add simp del: of_nat_Suc)
  have "\<not> (of_nat (bytes_of cd rs) :: u64) \<le> of_nat (bytes_of cd qs)"
    using bytes unat_less_exp [of "MAX_TOTAL_BYTES S"] by (simp add: word_le_nat_alt unat_of_nat_u64)
  moreover have "indexed_mac rs n = last_mac qs"
    using n by (auto simp: rs indexed_mac_def last_mac_def n_def last_conv_nth nth_append)
  ultimately show ?thesis
    using h seq un assms(5-8) len by (simp add: verify_or_recover_head_def Let_def del: of_nat_Suc)
qed

lemma recovered_head:
  assumes "codec_ok S cd" and "recoverable S cd i rs d"
    and j: "jn_identity j = i" "jn_records j = rs" "jn_record_bytes j = of_nat (bytes_of cd rs)"
    and e: "e = d\<lparr>rd_head_temps := 0, rd_record_temps := []\<rparr>"
  obtains f where "head_of S cd i rs f" and "verify_or_recover_head S cd j Replace_Done e = (Inr (), e\<lparr>rd_head := Some f\<rparr>)"
proof -
  have chain: "holds_chain S cd i rs d" and ne: "rs \<noteq> []" using assms(2) by (simp_all add: recoverable_def)
  obtain g where g: "head_of S cd i rs g" "write_head S cd j Replace_Done e = (Inr (), e\<lparr>rd_head := Some g\<rparr>)"
    using write_head_done [OF assms(1), of j e] holds_chain_fits [OF chain ne] j ne by auto
  show ?thesis
  proof (cases "rd_head d")
    case None
    then have "length rs = 1" using assms(2) by (simp add: recoverable_def)
    with None g j e show ?thesis by (intro that) (simp_all add: verify_or_recover_head_def)
  next
    case (Some f)
    then consider "head_of S cd i rs f" | "butlast rs \<noteq> []" "head_of S cd i (butlast rs) f"
      using assms(2) by (auto simp: recoverable_def)
    then show ?thesis
    proof cases
      case 1
      obtain h where "read_head S cd i f = Inr h" "jh_sequence h = of_nat (length rs)"
        "jh_last_record_mac h = last_mac rs" "jh_record_bytes h = of_nat (bytes_of cd rs)"
        using read_head_of [OF assms(1) 1 ne] holds_chain_size [OF assms(1) chain] chain
        by (auto simp: holds_chain_def)
      with 1 Some j e show ?thesis by (intro that [OF 1]) (simp_all add: verify_or_recover_head_def)
    next
      case 2
      with lagging_head [OF assms(1) chain 2 j, of e] Some e g show ?thesis by (intro that) simp_all
    qed
  qed
qed

lemma open_recovers:
  assumes "codec_ok S cd" and "validate_spec S = Inr ()" and "validate_identity S i = Inr ()"
    and "recoverable S cd i rs d"
  obtains j e where "open_journal S cd i clean_io d = (Inr j, e)" and "in_order S cd j e"
    and "jn_identity j = i" and "jn_records j = rs"
proof -
  let ?j = "empty_handle i\<lparr>jn_records := rs, jn_record_bytes := of_nat (bytes_of cd rs)\<rparr>"
  let ?e = "d\<lparr>rd_head_temps := 0, rd_record_temps := []\<rparr>"
  have chain: "holds_chain S cd i rs d" and ne: "rs \<noteq> []"
    and temps: "\<forall>t \<in> set (rd_record_temps d). \<not> rt_linked t" "length (rd_record_temps d) \<le> 1" "rd_head_temps d \<le> 1"
    using assms(4) by (auto simp: recoverable_def)
  have head: "hf_bytes f \<le> unat (MAX_RECORD_BYTES S)" if "rd_head d = Some f" for f
    using that assms(4) by (auto simp: recoverable_def head_of_def)
  have inv: "inventory_run_directory S d = Inr ()"
    by (rule inventory_ok [OF assms(1) chain temps]) (rule head)
  have load: "load_chain S cd i d = Inr (rs, of_nat (bytes_of cd rs))"
    by (rule load_chain_ok [OF assms(1) chain temps(1)])
  have temp: "recover_temporary_files ?j Cleanup_Done d = (Inr (), ?e)"
    using assms(4) by (intro recover_temps_ok [OF assms(1)]) (simp add: empty_handle_def)
  obtain f where f: "head_of S cd i rs f" "verify_or_recover_head S cd ?j Replace_Done ?e = (Inr (), ?e\<lparr>rd_head := Some f\<rparr>)"
    by (rule recovered_head [OF assms(1,4), of ?j ?e]) (simp_all add: empty_handle_def)
  have id: "rd_identity d = ji_run_directory_identity i" using chain by (simp add: holds_chain_def)
  have "load_and_recover S cd (empty_handle i) clean_io d = (Inr (), ?j, ?e\<lparr>rd_head := Some f\<rparr>)"
    using inv load temp f(2) id
    by (simp add: load_and_recover_def clean_io_def verify_boundaries_def empty_handle_def)
  then have "open_journal S cd i clean_io d = (Inr ?j, ?e\<lparr>rd_head := Some f\<rparr>)"
    using assms(2,3) id
    by (simp add: open_journal_def finish_open_def verify_boundaries_def clean_io_def empty_handle_def)
  moreover have "in_order S cd ?j (?e\<lparr>rd_head := Some f\<rparr>)"
    using chain ne f(1) by (simp add: in_order_def holds_chain_def empty_handle_def)
  ultimately show ?thesis by (rule that) (simp_all add: empty_handle_def)
qed

section \<open>What an append leaves behind\<close>

lemma files_of_below:
  "length rs + 8 < 2 ^ 64 \<Longrightarrow> x \<in> fst ` set (files_of cd 0 rs) \<Longrightarrow> x < of_nat (Suc (length rs))"
  by (auto simp: fst_files_of word_less_nat_alt unat_of_nat_u64 simp del: of_nat_Suc)

lemma files_of_insert:
  assumes "length rs + 8 < 2 ^ 64"
  shows "bt_insert (of_nat (Suc (length rs))) \<lparr>rf_bytes = cd_record_len cd r, rf_record = Some r\<rparr> (files_of cd 0 rs) =
      files_of cd 0 (rs @ [r])"
    and "bt_get (files_of cd 0 rs) (of_nat (Suc (length rs))) = None"
proof -
  have below: "\<forall>x \<in> fst ` set (files_of cd 0 rs). x < of_nat (Suc (length rs))"
    using files_of_below [OF assms] by blast
  from bt_insert_last [OF this] show "bt_insert (of_nat (Suc (length rs)))
      \<lparr>rf_bytes = cd_record_len cd r, rf_record = Some r\<rparr> (files_of cd 0 rs) = files_of cd 0 (rs @ [r])"
    by (simp add: files_of_append)
  from below show "bt_get (files_of cd 0 rs) (of_nat (Suc (length rs))) = None"
    by (auto simp: bt_get_None_iff simp del: of_nat_Suc)
qed

lemma next_record_extends:
  assumes ok: "codec_ok S cd" and chain: "holds_chain S cd i rs d"
    and j: "jn_identity j = i" "jn_records j = rs" "jn_record_bytes j = of_nat (bytes_of cd rs)"
    and room: "length rs < unat (MAX_RECORDS S)"
    and valid: "validate_phase S phase = Inr ()" "validate_optional_subject S subject = Inr ()"
    and r: "next_record S cd j phase subject payload = Inr r"
  shows "jr_sequence r = of_nat (Suc (length rs))"
    and "chain_ok S cd i (rs @ [r]) 0 zero_tag"
    and "checked_add (of_nat (bytes_of cd rs)) (of_nat (cd_record_len cd r)) = Some (of_nat (bytes_of cd (rs @ [r])) :: u64)"
    and "cd_record_len cd r \<le> unat (MAX_RECORD_BYTES S)" and "bytes_of cd (rs @ [r]) \<le> unat (MAX_TOTAL_BYTES S)"
    and "jr_phase r = phase \<and> jr_subject r = subject \<and> jr_payload r = payload"
proof -
  have size: "length rs + 8 < 2 ^ 64" by (rule holds_chain_size [OF ok chain])
  from r obtain t c where t: "cd_sign cd (record_mac_payload r) = Some t" "jr_mac r = t"
    and seq: "jr_sequence r = of_nat (Suc (length rs))"
    and fields: "jr_version r = FORMAT_VERSION S" "jr_identity r = i" "jr_previous_mac r = last_mac rs"
      "jr_phase r = phase" "jr_subject r = subject" "jr_payload r = payload"
    and len: "cd_record_len cd r < 2 ^ 64" "cd_record_len cd r \<le> unat (MAX_RECORD_BYTES S)"
    and c: "checked_add (of_nat (bytes_of cd rs)) (of_nat (cd_record_len cd r)) = Some c" "c \<le> MAX_TOTAL_BYTES S"
    using j size
    by (auto simp: next_record_def next_sequence result_iffs Let_def validate_record_size_def record_mac_payload_def
        simp del: of_nat_Suc)
  show "jr_sequence r = of_nat (Suc (length rs))" by (rule seq)
  have "verify_tag cd (record_mac_payload r) (jr_mac r) = Inr ()"
    using codec_ok_sign [OF ok, of "record_mac_payload r"] t by auto
  moreover have "validate_record S r i (of_nat (Suc (length rs))) (last_mac rs) = Inr ()"
    using fields seq valid by (simp add: validate_record_def)
  ultimately show "chain_ok S cd i (rs @ [r]) 0 zero_tag"
    using chain by (simp add: chain_ok_append holds_chain_def last_mac_def del: of_nat_Suc)
  have "bytes_of cd rs < 2 ^ 64"
    using chain unat_less_exp [of "MAX_TOTAL_BYTES S"] by (auto simp: holds_chain_def)
  then have uc: "unat c = bytes_of cd (rs @ [r])"
    using c(1) len by (simp add: checked_add_Some_iff unat_of_nat_u64)
  then have "c = of_nat (bytes_of cd (rs @ [r]))"
    using unat_less_exp [of c] by (simp add: word_unat_eq_iff unat_of_nat_u64 del: bytes_of_simps)
  with c show "checked_add (of_nat (bytes_of cd rs)) (of_nat (cd_record_len cd r)) =
      Some (of_nat (bytes_of cd (rs @ [r])) :: u64)" by simp
  show "cd_record_len cd r \<le> unat (MAX_RECORD_BYTES S)" by (rule len(2))
  show "bytes_of cd (rs @ [r]) \<le> unat (MAX_TOTAL_BYTES S)"
    using c(2) uc by (simp add: word_le_nat_alt del: bytes_of_simps)
  show "jr_phase r = phase \<and> jr_subject r = subject \<and> jr_payload r = payload" using fields by simp
qed

lemma holds_chain_extend:
  assumes "codec_ok S cd" and "holds_chain S cd i rs d" and "jr_sequence r = of_nat (Suc (length rs))"
    and "chain_ok S cd i (rs @ [r]) 0 zero_tag" and "length rs < unat (MAX_RECORDS S)"
    and "cd_record_len cd r \<le> unat (MAX_RECORD_BYTES S)" and "bytes_of cd (rs @ [r]) \<le> unat (MAX_TOTAL_BYTES S)"
    and "rd_identity e = rd_identity d"
    and "rd_records e = bt_insert (jr_sequence r) \<lparr>rf_bytes = cd_record_len cd r, rf_record = Some r\<rparr> (rd_records d)"
  shows "holds_chain S cd i (rs @ [r]) e"
proof -
  have "0 < cd_record_len cd r" using assms(1) by (simp add: codec_ok_def)
  then show ?thesis
    using assms(2-9) files_of_insert(1) [OF holds_chain_size [OF assms(1,2)], of cd r]
    by (simp add: holds_chain_def del: of_nat_Suc)
qed

lemma settled_recoverable:
  "in_order S cd j d \<Longrightarrow> jn_records j \<noteq> [] \<Longrightarrow> recoverable S cd (jn_identity j) (jn_records j) d"
  by (auto simp: in_order_def recoverable_def)

lemma publish_head_cases:
  assumes "codec_ok S cd" and "jn_records j \<noteq> []" and "jn_record_bytes j = of_nat (bytes_of cd (jn_records j))"
    and "validate_identity S (jn_identity j) = Inr ()" and "is_canonical_lower_hex_64 (last_mac (jn_records j))"
    and "publish_head S cd j outcome d = (res, j', d')"
  obtains (refused) "res = Inl HeadWriteFailed" "j' = j\<lparr>jn_head_dirty := True\<rparr>" "d' = d"
  | (temp) "res = Inl HeadWriteFailed" "j' = j\<lparr>jn_head_dirty := True\<rparr>" "d' = d\<lparr>rd_head_temps := rd_head_temps d + 1\<rparr>"
  | (unconfirmed) f where "res = Inl HeadWriteFailed" "j' = j\<lparr>jn_head_dirty := True\<rparr>" "d' = d\<lparr>rd_head := Some f\<rparr>"
      "head_of S cd (jn_identity j) (jn_records j) f"
  | (published) f where "res = Inr ()" "j' = j\<lparr>jn_head_dirty := False\<rparr>" "d' = d\<lparr>rd_head := Some f\<rparr>"
      "head_of S cd (jn_identity j) (jn_records j) f"
proof -
  obtain h where "new_head S cd j = Inr h"
    and "head_of S cd (jn_identity j) (jn_records j) \<lparr>hf_bytes = cd_head_len cd h, hf_head = Some h\<rparr>"
    by (rule new_head_ok [OF assms(1-5)])
  with assms(6) that show ?thesis
    by (cases outcome) (auto simp: publish_head_def write_head_def durable_replace_def)
qed

text \<open>A published record with a head of the old or of the new chain, and at most one temporary head.\<close>

lemma extended_recoverable:
  assumes "in_order S cd j d" and "holds_chain S cd (jn_identity j) (jn_records j @ [r]) e"
    and "rd_record_temps e = []" and "rd_head_temps e \<le> 1"
    and "rd_head e = rd_head d \<or> (\<exists>f. rd_head e = Some f \<and> head_of S cd (jn_identity j) (jn_records j @ [r]) f)"
  shows "recoverable S cd (jn_identity j) (jn_records j @ [r]) e"
  using assms by (cases "jn_records j = []") (auto simp: recoverable_def in_order_def)

lemma append_record_left:
  assumes ok: "codec_ok S cd" and st: "in_order S cd j d" and room: "length (jn_records j) < unat (MAX_RECORDS S)"
    and valid: "validate_phase S phase = Inr ()" "validate_optional_subject S subject = Inr ()"
    and r: "next_record S cd j phase subject payload = Inr r"
    and step: "append_record S cd j r io d = (res, j', d')" and linked: "ap_publish io \<noteq> Publish_Linked"
  shows "(\<exists>e. res = Inl e \<and> (jn_records j \<noteq> [] \<longrightarrow> recoverable S cd (jn_identity j) (jn_records j) d')) \<or>
    (recoverable S cd (jn_identity j) (jn_records j @ [r]) d' \<and>
      (\<forall>x. res = Inr x \<longrightarrow> x = r \<and> jn_records j' = jn_records j @ [r] \<and> jn_identity j' = jn_identity j \<and> in_order S cd j' d'))"
proof -
  let ?rs = "jn_records j" and ?i = "jn_identity j"
  let ?file = "\<lparr>rf_bytes = cd_record_len cd r, rf_record = Some r\<rparr>"
  let ?d = "d\<lparr>rd_records := bt_insert (jr_sequence r) ?file (rd_records d)\<rparr>"
  let ?j = "j\<lparr>jn_records := ?rs @ [r], jn_record_bytes := of_nat (bytes_of cd (?rs @ [r]))\<rparr>"
  have chain: "holds_chain S cd ?i ?rs d" and bytes: "jn_record_bytes j = of_nat (bytes_of cd ?rs)"
    and temps: "rd_record_temps d = []" "rd_head_temps d = 0"
    using st by (auto simp: in_order_def)
  note ext = next_record_extends [OF ok chain refl refl bytes room valid r]
  have new: "holds_chain S cd ?i (?rs @ [r]) ?d"
    by (rule holds_chain_extend [OF ok chain ext(1,2) room ext(4,5)]) simp_all
  have absent: "bt_get (rd_records d) (jr_sequence r) = None"
    using files_of_insert(2) [OF holds_chain_size [OF ok chain], of cd] chain ext(1)
    by (simp add: holds_chain_def del: of_nat_Suc)
  show ?thesis
  proof (cases "ap_publish io")
    case Publish_Refused
    then show ?thesis using step absent settled_recoverable [OF st]
      by (auto simp: append_record_def durable_publish_no_replace_def)
  next
    case Publish_Temp_Left
    have "recoverable S cd ?i ?rs (d\<lparr>rd_record_temps := [\<lparr>rt_sequence = jr_sequence r, rt_linked = False\<rparr>]\<rparr>)"
      if "?rs \<noteq> []"
      using settled_recoverable [OF st that] ext(1) by (simp add: recoverable_def holds_chain_def)
    then show ?thesis using Publish_Temp_Left step absent temps
      by (auto simp: append_record_def durable_publish_no_replace_def)
  next
    case Publish_Unconfirmed
    then show ?thesis using step absent extended_recoverable [OF st new] temps
      by (auto simp: append_record_def durable_publish_no_replace_def)
  next
    case Publish_Done
    obtain hres j2 d2 where head: "publish_head S cd ?j (ap_head io) ?d = (hres, j2, d2)"
      by (metis prod_cases3)
    have res: "(res, j', d') = (case hres of Inl e \<Rightarrow> (Inl e, j2, d2)
        | Inr u \<Rightarrow> (case verify_boundaries j2 d2 (ap_after io) of Inl e \<Rightarrow> (Inl e, j2, d2) | Inr u \<Rightarrow> (Inr r, j2, d2)))"
      using Publish_Done step absent head bytes ext(3)
      by (cases hres) (auto simp: append_record_def durable_publish_no_replace_def split: sum.splits)
    have rec: "recoverable S cd ?i (?rs @ [r]) d2"
      using new temps holds_chain_fits [OF new]
      by (cases rule: publish_head_cases [OF ok _ _ _ _ head])
        (auto intro!: extended_recoverable [OF st] simp: holds_chain_def)
    have "in_order S cd j2 d2 \<and> jn_records j2 = ?rs @ [r] \<and> jn_identity j2 = ?i" if "hres = Inr ()"
      using that new temps holds_chain_fits [OF new]
      by (cases rule: publish_head_cases [OF ok _ _ _ _ head]) (auto simp: in_order_def holds_chain_def)
    with rec res show ?thesis by (auto split: sum.splits)
  qed (use linked in simp)
qed

lemma append_journal_clean:
  assumes "in_order S cd j d"
  shows "append_journal S cd j phase subject payload io d =
    (case and_then (append_checks S j d phase subject (ap_boundary io)) (\<lambda>_. next_record S cd j phase subject payload) of
       Inl e \<Rightarrow> (Inl e, j, d) | Inr r \<Rightarrow> append_record S cd j r io d)"
  using assms
  by (auto simp: append_journal_def append_clean_def in_order_def split: sum.splits)

lemma append_checks_Inr:
  "append_checks S j d phase subject b = Inr u \<longleftrightarrow>
     validate_phase S phase = Inr () \<and> validate_optional_subject S subject = Inr () \<and>
     length (jn_records j) < unat (MAX_RECORDS S) \<and> verify_boundaries j d b = Inr ()"
  by (auto simp: append_checks_def result_iffs)

lemma append_leaves:
  assumes ok: "codec_ok S cd" and st: "in_order S cd j d" and ne: "jn_records j \<noteq> []"
    and step: "append_journal S cd j phase subject payload io d = (res, j', d')"
    and linked: "ap_publish io \<noteq> Publish_Linked"
  obtains (old) e where "res = Inl e" and "recoverable S cd (jn_identity j) (jn_records j) d'"
  | (new) r where "recoverable S cd (jn_identity j) (jn_records j @ [r]) d'"
      and "jr_phase r = phase" "jr_subject r = subject" "jr_payload r = payload"
      and "jr_sequence r = of_nat (Suc (length (jn_records j)))"
      and "\<And>x. res = Inr x \<Longrightarrow> x = r"
      and "\<And>x. res = Inr x \<Longrightarrow> jn_records j' = jn_records j @ [r] \<and> jn_identity j' = jn_identity j \<and> in_order S cd j' d'"
proof (cases "and_then (append_checks S j d phase subject (ap_boundary io)) (\<lambda>_. next_record S cd j phase subject payload)")
  case (Inl e)
  with step have "res = Inl e" "d' = d" by (auto simp: append_journal_clean [OF st])
  with settled_recoverable [OF st ne] show ?thesis by (intro old) auto
next
  case (Inr r)
  then have r: "next_record S cd j phase subject payload = Inr r"
    and room: "length (jn_records j) < unat (MAX_RECORDS S)"
    and valid: "validate_phase S phase = Inr ()" "validate_optional_subject S subject = Inr ()"
    by (auto simp: result_iffs append_checks_Inr)
  have "append_record S cd j r io d = (res, j', d')" using step Inr by (simp add: append_journal_clean [OF st])
  note left = append_record_left [OF ok st room valid r this linked]
  have chain: "holds_chain S cd (jn_identity j) (jn_records j) d"
    and bytes: "jn_record_bytes j = of_nat (bytes_of cd (jn_records j))" using st by (simp_all add: in_order_def)
  note ext = next_record_extends [OF ok chain refl refl bytes room valid r]
  from left show ?thesis
  proof (elim disjE exE conjE)
    fix e assume "res = Inl e" and "jn_records j \<noteq> [] \<longrightarrow> recoverable S cd (jn_identity j) (jn_records j) d'"
    then show ?thesis using ne by (intro old) auto
  next
    assume "recoverable S cd (jn_identity j) (jn_records j @ [r]) d'" and "\<forall>x. res = Inr x \<longrightarrow> x = r \<and>
      jn_records j' = jn_records j @ [r] \<and> jn_identity j' = jn_identity j \<and> in_order S cd j' d'"
    then show ?thesis using ext(1,6) by (intro new [of r]) auto
  qed
qed

section \<open>Publications that close the journal\<close>

lemma linked_tail_unreadable:
  assumes "entry \<in> set es" and "record_links d (fst entry) \<noteq> 1"
  shows "\<exists>e. load_records S cd i d es n p t = Inl e"
proof (cases "load_records S cd i d es n p t")
  case (Inr x)
  obtain rs t' where "load_records S cd i d es n p t = Inr (rs, t')" using Inr by (cases x) auto
  then have "\<forall>e \<in> set es. record_links d (fst e) = 1"
  proof (induction es arbitrary: n p t rs t')
    case (Cons e es)
    then show ?case by (force simp: result_iffs read_record_def split: prod.splits)
  qed simp
  with assms show ?thesis by blast
qed simp

lemma unreadable_stays_closed:
  assumes "entry \<in> set (rd_records d)" and "record_links d (fst entry) \<noteq> 1"
  shows "\<exists>e. open_journal S cd i io d = (Inl e, d)"
proof -
  obtain e where "load_records S cd i d (rd_records d) 0 zero_tag 0 = Inl e"
    using linked_tail_unreadable [OF assms] by blast
  then have "load_chain S cd i d = Inl e" by (simp add: load_chain_def)
  then show ?thesis
    by (auto simp: open_journal_def finish_open_def load_and_recover_def empty_handle_def result_iffs split: sum.splits)
qed

section \<open>Tags determine histories\<close>

lemma chain_ok_sequence:
  "chain_ok S cd i (rs @ [r]) n p \<Longrightarrow>
     jr_sequence r = of_nat (Suc (n + length rs)) \<and> jr_previous_mac r = (if rs = [] then p else jr_mac (last rs)) \<and>
     cd_sign cd (record_mac_payload r) = Some (jr_mac r)"
  by (auto simp: chain_ok_append validate_record_def verify_tag_def result_iffs)

lemma same_last_tag_same_history:
  assumes "chain_ok S cd i rs 0 zero_tag" and "chain_ok S cd i rs' 0 zero_tag"
    and "length rs < 2 ^ 64" and "length rs' < 2 ^ 64"
    and "\<forall>r \<in> set rs. \<forall>r' \<in> set rs'. jr_mac r = jr_mac r' \<longrightarrow> record_mac_payload r = record_mac_payload r'"
    and "rs \<noteq> []" and "rs' \<noteq> []" and "jr_mac (last rs) = jr_mac (last rs')"
  shows "rs = rs'"
  using assms
proof (induction rs arbitrary: rs' rule: rev_induct)
  case (snoc r rs)
  obtain qs q where rs': "rs' = qs @ [q]" using snoc.prems(7) by (cases rs' rule: rev_cases) auto
  have payload: "record_mac_payload r = record_mac_payload q" and mac: "jr_mac r = jr_mac q"
    using snoc.prems(5,8) rs' by auto
  then have rq: "r = q" by (cases r; cases q) (simp add: record_mac_payload_def)
  note R = chain_ok_sequence [OF snoc.prems(1)] and Q = chain_ok_sequence [OF snoc.prems(2) [unfolded rs']]
  have "(of_nat (Suc (length rs)) :: u64) = of_nat (Suc (length qs))" using R Q rq by (simp del: of_nat_Suc)
  then have len: "length rs = length qs"
    using snoc.prems(3,4) rs' unat_of_nat_u64 by (metis length_append_singleton nat.inject)
  have "rs = qs"
  proof (cases "rs = []")
    case False
    with len have "qs \<noteq> []" by auto
    with False R Q rq have "jr_mac (last rs) = jr_mac (last qs)" by simp
    with False \<open>qs \<noteq> []\<close> show ?thesis
      using snoc.prems rs' by (intro snoc.IH) (auto simp: chain_ok_append)
  qed (use len in auto)
  with rq rs' show ?case by simp
qed simp

lemma open_read_only_chain:
  assumes "open_existing_read_only S cd i b d = Inr j"
  shows "chain_ok S cd i (jn_records j) 0 zero_tag" and "length (jn_records j) \<le> unat (MAX_RECORDS S)"
    and "jn_records j \<noteq> []" and "map (rf_record \<circ> snd) (rd_records d) = map Some (jn_records j)"
  using assms load_records_chain [of S cd i d "rd_records d" 0 zero_tag 0]
  by (auto simp: open_existing_read_only_def load_chain_def verify_head_exact_def result_iffs split: prod.splits)

lemma settled_reads:
  assumes "codec_ok S cd" and "validate_spec S = Inr ()" and "validate_identity S (jn_identity j) = Inr ()"
    and "in_order S cd j d" and "jn_records j \<noteq> []"
  shows "open_existing_read_only S cd (jn_identity j) True d = Inr j"
proof -
  obtain f where chain: "holds_chain S cd (jn_identity j) (jn_records j) d"
    and f: "rd_head d = Some f" "head_of S cd (jn_identity j) (jn_records j) f"
    and j: "jn_record_bytes j = of_nat (bytes_of cd (jn_records j))" "\<not> jn_head_dirty j"
    and temps: "rd_record_temps d = []" "rd_head_temps d = 0"
    using assms(4,5) by (auto simp: in_order_def)
  have inv: "inventory_run_directory S d = Inr ()"
    using temps f by (intro inventory_ok [OF assms(1) chain]) (auto simp: head_of_def)
  have load: "load_chain S cd (jn_identity j) d = Inr (jn_records j, jn_record_bytes j)"
    using load_chain_ok [OF assms(1) chain] temps j by simp
  have "rd_identity d = ji_run_directory_identity (jn_identity j)" and "length (jn_records j) < 2 ^ 64"
    and "bytes_of cd (jn_records j) \<le> unat (MAX_TOTAL_BYTES S)"
    using chain holds_chain_size [OF assms(1) chain] by (simp_all add: holds_chain_def)
  moreover from read_head_of [OF assms(1) f(2) assms(5) this(2,3)]
  obtain h where "read_head S cd (jn_identity j) f = Inr h" "jh_sequence h = of_nat (length (jn_records j))"
    "jh_last_record_mac h = last_mac (jn_records j)" "jh_record_bytes h = jn_record_bytes j"
    using j by metis
  ultimately show ?thesis
    using assms(2,3,5) inv load temps f j
    by (cases j) (simp add: open_existing_read_only_def verify_head_exact_def last_mac_def)
qed

section \<open>Record file names\<close>

lemma length_decimal [simp]: "length (padded_decimal k n) = k"
  by (induction k arbitrary: n) auto

lemma digit_char: "d < 10 \<Longrightarrow> digit_value (char_of (48 + d)) = d \<and> is_ascii_digit (char_of (48 + d))" for d :: nat
proof -
  assume "d < 10"
  then have "d \<in> {0,1,2,3,4,5,6,7,8,9}" by auto
  then show ?thesis by (elim insertE emptyE) (simp_all add: digit_value_def is_ascii_digit_def, code_simp+)
qed

lemma parse_decimal_append: "parse_decimal (xs @ [c]) = 10 * parse_decimal xs + digit_value c"
  by (simp add: parse_decimal_def)

lemma parse_decimal_decimal: "n < 10 ^ k \<Longrightarrow> parse_decimal (padded_decimal k n) = n"
proof (induction k arbitrary: n)
  case (Suc k)
  then have "n div 10 < 10 ^ k" by (simp add: div_less_iff_less_mult mult.commute)
  with Suc.IH digit_char [of "n mod 10"] show ?case by (simp add: parse_decimal_append)
qed (simp add: parse_decimal_def)

lemma decimal_digits: "list_all is_ascii_digit (padded_decimal k n)"
  by (induction k arbitrary: n) (simp_all add: digit_char)

section \<open>Continuing on the same handle\<close>

definition done_io :: append_io where
  "done_io = \<lparr>ap_boundary = True, ap_dirty_head = Replace_Done, ap_publish = Publish_Done, ap_head = Replace_Done,
     ap_after = True\<rparr>"

definition in_step :: "journal_spec \<Rightarrow> 'p codec \<Rightarrow> 'p state_journal \<Rightarrow> 'p run_directory \<Rightarrow> bool" where
  "in_step S cd j d \<longleftrightarrow>
     holds_chain S cd (jn_identity j) (jn_records j) d \<and> jn_record_bytes j = of_nat (bytes_of cd (jn_records j)) \<and>
     rd_record_temps d = [] \<and> rd_head_temps d \<le> 1"

lemma append_record_done:
  assumes ok: "codec_ok S cd" and st: "in_step S cd j d" and room: "length (jn_records j) < unat (MAX_RECORDS S)"
    and valid: "validate_phase S phase = Inr ()" "validate_optional_subject S subject = Inr ()"
    and r: "next_record S cd j phase subject payload = Inr r"
  obtains j' d' where "append_record S cd j r done_io d = (Inr r, j', d')" and "jn_records j' = jn_records j @ [r]"
    and "jn_identity j' = jn_identity j" and "recoverable S cd (jn_identity j) (jn_records j @ [r]) d'"
proof -
  let ?rs = "jn_records j" and ?i = "jn_identity j"
  let ?d = "d\<lparr>rd_records := bt_insert (jr_sequence r) \<lparr>rf_bytes = cd_record_len cd r, rf_record = Some r\<rparr> (rd_records d)\<rparr>"
  let ?j = "j\<lparr>jn_records := ?rs @ [r], jn_record_bytes := of_nat (bytes_of cd (?rs @ [r]))\<rparr>"
  have chain: "holds_chain S cd ?i ?rs d" and bytes: "jn_record_bytes j = of_nat (bytes_of cd ?rs)"
    using st by (auto simp: in_step_def)
  note ext = next_record_extends [OF ok chain refl refl bytes room valid r]
  have new: "holds_chain S cd ?i (?rs @ [r]) ?d"
    by (rule holds_chain_extend [OF ok chain ext(1,2) room ext(4,5)]) simp_all
  have absent: "bt_get (rd_records d) (jr_sequence r) = None"
    using files_of_insert(2) [OF holds_chain_size [OF ok chain], of cd] chain ext(1)
    by (simp add: holds_chain_def del: of_nat_Suc)
  obtain f where f: "head_of S cd ?i (?rs @ [r]) f"
    and w: "write_head S cd ?j Replace_Done ?d = (Inr (), ?d\<lparr>rd_head := Some f\<rparr>)"
    using write_head_done [OF ok, of ?j ?d] holds_chain_fits [OF new] by auto
  show ?thesis
  proof (rule that)
    show "append_record S cd j r done_io d = (Inr r, ?j\<lparr>jn_head_dirty := False\<rparr>, ?d\<lparr>rd_head := Some f\<rparr>)"
      using absent w bytes ext(3) new
      by (simp add: append_record_def done_io_def durable_publish_no_replace_def publish_head_def
          verify_boundaries_def holds_chain_def)
    show "recoverable S cd ?i (?rs @ [r]) (?d\<lparr>rd_head := Some f\<rparr>)"
      using new f st by (simp add: recoverable_def in_step_def holds_chain_def)
  qed simp_all
qed

lemma failed_head_leaves:
  assumes ok: "codec_ok S cd" and st: "in_order S cd j d" and io: "ap_publish io = Publish_Done"
    and step: "append_journal S cd j phase subject payload io d = (Inl HeadWriteFailed, j1, d1)"
  obtains r where "jn_records j1 = jn_records j @ [r]" and "jn_identity j1 = jn_identity j" and "jn_head_dirty j1"
    and "in_step S cd j1 d1" and "jr_payload r = payload" and "jr_phase r = phase"
proof -
  let ?rs = "jn_records j" and ?i = "jn_identity j"
  have chain: "holds_chain S cd ?i ?rs d" and bytes: "jn_record_bytes j = of_nat (bytes_of cd ?rs)"
    and temps: "rd_record_temps d = []" "rd_head_temps d = 0"
    using st by (auto simp: in_order_def)
  have no_head: "append_checks S j d phase subject b \<noteq> Inl HeadWriteFailed"
      "next_record S cd j phase subject payload \<noteq> Inl HeadWriteFailed" for b
    by (auto simp: append_checks_def next_record_def validate_phase_def validate_optional_subject_def
        validate_subject_def verify_boundaries_def validate_record_size_def and_then_Inl_iff ensure_Inl_iff ok_or_Inl_iff
        Let_def split: option.splits)
  then obtain r where checks: "append_checks S j d phase subject (ap_boundary io) = Inr ()"
    and r: "next_record S cd j phase subject payload = Inr r"
    and rec: "append_record S cd j r io d = (Inl HeadWriteFailed, j1, d1)"
    using step unfolding append_journal_clean [OF st] by (auto simp: result_iffs and_then_Inl_iff split: sum.splits)
  from checks have room: "length ?rs < unat (MAX_RECORDS S)"
    and valid: "validate_phase S phase = Inr ()" "validate_optional_subject S subject = Inr ()"
    by (auto simp: append_checks_Inr)
  note ext = next_record_extends [OF ok chain refl refl bytes room valid r]
  let ?d = "d\<lparr>rd_records := bt_insert (jr_sequence r) \<lparr>rf_bytes = cd_record_len cd r, rf_record = Some r\<rparr> (rd_records d)\<rparr>"
  let ?j = "j\<lparr>jn_records := ?rs @ [r], jn_record_bytes := of_nat (bytes_of cd (?rs @ [r]))\<rparr>"
  have new: "holds_chain S cd ?i (?rs @ [r]) ?d"
    by (rule holds_chain_extend [OF ok chain ext(1,2) room ext(4,5)]) simp_all
  have absent: "bt_get (rd_records d) (jr_sequence r) = None"
    using files_of_insert(2) [OF holds_chain_size [OF ok chain], of cd] chain ext(1)
    by (simp add: holds_chain_def del: of_nat_Suc)
  obtain hres j2 d2 where head: "publish_head S cd ?j (ap_head io) ?d = (hres, j2, d2)" by (metis prod_cases3)
  have b2: "verify_boundaries j2 d2 a \<noteq> Inl HeadWriteFailed" for a
    by (auto simp: verify_boundaries_def and_then_Inl_iff ensure_Inl_iff)
  have fail: "hres = Inl HeadWriteFailed" "j1 = j2" "d1 = d2"
    using rec io absent head bytes ext(3) b2 [of "ap_after io"]
    by (auto simp: append_record_def durable_publish_no_replace_def split: sum.splits)
  show ?thesis
    using fail new temps ext(6) holds_chain_fits [OF new]
    by (cases rule: publish_head_cases [OF ok _ _ _ _ head]) (auto intro!: that simp: in_step_def holds_chain_def)
qed

lemma retry_after_failed_head:
  assumes ok: "codec_ok S cd" and st: "in_step S cd j d" and dirty: "jn_head_dirty j" and ne: "jn_records j \<noteq> []"
    and checks: "append_checks S j d phase subject True = Inr ()"
    and r: "next_record S cd (j\<lparr>jn_head_dirty := False\<rparr>) phase subject payload = Inr r"
  obtains j' d' where "append_journal S cd j phase subject payload done_io d = (Inr r, j', d')"
    and "jn_records j' = jn_records j @ [r]" and "recoverable S cd (jn_identity j) (jn_records j @ [r]) d'"
proof -
  let ?j = "j\<lparr>jn_head_dirty := False\<rparr>"
  have bytes: "jn_record_bytes j = of_nat (bytes_of cd (jn_records j))" using st by (simp add: in_step_def)
  obtain f where w: "write_head S cd j Replace_Done d = (Inr (), d\<lparr>rd_head := Some f\<rparr>)"
    using write_head_done [OF ok ne bytes] holds_chain_fits [OF _ ne] st unfolding in_step_def by metis
  have st': "in_step S cd ?j (d\<lparr>rd_head := Some f\<rparr>)"
    using st by (simp add: in_step_def holds_chain_def)
  from checks have room: "length (jn_records ?j) < unat (MAX_RECORDS S)"
    and valid: "validate_phase S phase = Inr ()" "validate_optional_subject S subject = Inr ()"
    by (auto simp: append_checks_Inr)
  obtain j' d' where rec: "append_record S cd ?j r done_io (d\<lparr>rd_head := Some f\<rparr>) = (Inr r, j', d')"
    "jn_records j' = jn_records j @ [r]" "recoverable S cd (jn_identity j) (jn_records j @ [r]) d'"
    by (rule append_record_done [OF ok st' room valid r]) (erule that, simp_all)
  have "append_journal S cd j phase subject payload done_io d = (Inr r, j', d')"
    using checks dirty w rec(1) r
    by (simp add: append_journal_def append_clean_def publish_head_def done_io_def)
  with rec that show ?thesis by blast
qed

section \<open>A sample journal\<close>

definition sample_identity :: journal_identity where
  "sample_identity =
     \<lparr>ji_version = 3,
      ji_repository = \<lparr>rb_version = 1, rb_repository_id = zero_tag, rb_common_dir_path_sha256 = zero_tag,
        rb_common_dir_identity = \<lparr>fi_device = 1, fi_file = 2\<rparr>, rb_key_identity = \<lparr>fi_device = 1, fi_file = 3\<rparr>\<rparr>,
      ji_run_id = ''run-a'', ji_journal_id = zero_tag, ji_run_directory_identity = \<lparr>fi_device = 1, fi_file = 4\<rparr>\<rparr>"

text \<open>Tags are 64 copies of a digit that depends on the payload's sequence.\<close>

definition sample_codec :: "nat codec" where
  "sample_codec =
     \<lparr>cd_sign = (\<lambda>m. Some (replicate 64 (case m of Record_Mac_Payload _ _ s _ _ _ _ \<Rightarrow>
        if s = 1 then CHR ''1'' else if s = 2 then CHR ''2'' else CHR ''3'' | _ \<Rightarrow> CHR ''a''))),
      cd_record_len = (\<lambda>_. 100), cd_head_len = (\<lambda>_. 50)\<rparr>"

definition sample_record :: "nat journal_record" where
  "sample_record =
     \<lparr>jr_version = 3, jr_identity = sample_identity, jr_sequence = 1, jr_previous_mac = zero_tag,
      jr_phase = ''planned'', jr_subject = None, jr_payload = 7, jr_mac = replicate 64 (CHR ''1'')\<rparr>"

definition sample_head :: journal_head where
  "sample_head =
     \<lparr>jh_version = 3, jh_identity = sample_identity, jh_sequence = 1, jh_last_record_mac = replicate 64 (CHR ''1''),
      jh_record_bytes = 100, jh_mac = replicate 64 (CHR ''a'')\<rparr>"

definition sample_checkpoint_journal :: "nat state_journal" where
  "sample_checkpoint_journal = \<lparr>jn_identity = sample_identity, jn_records = [sample_record], jn_record_bytes = 100, jn_head_dirty = False\<rparr>"

definition sample_directory :: "nat run_directory" where
  "sample_directory =
     \<lparr>rd_identity = \<lparr>fi_device = 1, fi_file = 4\<rparr>, rd_records = [(1, \<lparr>rf_bytes = 100, rf_record = Some sample_record\<rparr>)],
      rd_record_temps = [], rd_head_temps = 0, rd_head = Some \<lparr>hf_bytes = 50, hf_head = Some sample_head\<rparr>\<rparr>"

lemma sample_hex: "is_canonical_lower_hex_64 (replicate 64 (CHR ''1''))" "is_canonical_lower_hex_64 (replicate 64 (CHR ''2''))"
    "is_canonical_lower_hex_64 (replicate 64 (CHR ''3''))" "is_canonical_lower_hex_64 (replicate 64 (CHR ''a''))"
    "is_canonical_lower_hex_64 zero_tag"
  by (simp_all add: is_canonical_lower_hex_64_def zero_tag_def lower_hex_byte_def is_ascii_digit_def list_all_length)

lemma sample_codec_ok: "codec_ok CheckpointJournalSpec sample_codec"
  by (auto simp: codec_ok_def sample_codec_def CheckpointJournalSpec_def sample_hex split: mac_payload.splits)

lemma sample_spec_valid: "validate_spec CheckpointJournalSpec = Inr ()"
  by code_simp

lemma sample_identity_valid: "validate_identity CheckpointJournalSpec sample_identity = Inr ()"
  by code_simp

lemma sample_phase: "validate_phase CheckpointJournalSpec ''planned'' = Inr ()"
  by code_simp

lemma checkpoint_limits:
  "FORMAT_VERSION CheckpointJournalSpec = 3" "MAX_RECORDS CheckpointJournalSpec = 4096"
  "MAX_RECORD_BYTES CheckpointJournalSpec = 4194304" "MAX_TOTAL_BYTES CheckpointJournalSpec = 67108864"
  by (simp_all add: CheckpointJournalSpec_def)

lemma sample_settled: "in_order CheckpointJournalSpec sample_codec sample_checkpoint_journal sample_directory"
proof -
  have "validate_record CheckpointJournalSpec sample_record sample_identity 1 zero_tag = Inr ()"
    by (simp add: validate_record_def sample_record_def checkpoint_limits validate_optional_subject_def sample_phase)
  moreover have "verify_tag sample_codec (record_mac_payload sample_record) (jr_mac sample_record) = Inr ()"
    "verify_tag sample_codec (head_mac_payload sample_head) (jh_mac sample_head) = Inr ()"
    by (simp_all add: verify_tag_def sample_codec_def record_mac_payload_def head_mac_payload_def sample_record_def
        sample_head_def sample_hex)
  ultimately show ?thesis
    by (simp add: in_order_def holds_chain_def head_of_def sample_checkpoint_journal_def sample_directory_def checkpoint_limits
        last_mac_def sample_identity_valid) (simp add: sample_codec_def sample_identity_def sample_head_def sample_record_def)
qed

definition sample_next :: "u64 \<Rightarrow> string \<Rightarrow> nat \<Rightarrow> nat journal_record" where
  "sample_next n previous payload =
     sample_record\<lparr>jr_sequence := n, jr_previous_mac := concat (replicate 64 previous), jr_payload := payload,
       jr_mac := replicate 64 (if n = 2 then CHR ''2'' else CHR ''3'')\<rparr>"

lemma sample_append_ok:
  "append_checks CheckpointJournalSpec sample_checkpoint_journal sample_directory ''planned'' None (ap_boundary done_io) = Inr ()"
  "next_record CheckpointJournalSpec sample_codec sample_checkpoint_journal ''planned'' None 8 = Inr (sample_next 2 ''1'' 8)"
  "append_record CheckpointJournalSpec sample_codec sample_checkpoint_journal (sample_next 2 ''1'' 8)
     (done_io\<lparr>ap_head := Replace_Refused\<rparr>) sample_directory =
     (Inl HeadWriteFailed,
      \<lparr>jn_identity = sample_identity, jn_records = [sample_record, sample_next 2 ''1'' 8], jn_record_bytes = 200,
       jn_head_dirty = True\<rparr>,
      sample_directory\<lparr>rd_records := rd_records sample_directory @
        [(2, \<lparr>rf_bytes = 100, rf_record = Some (sample_next 2 ''1'' 8)\<rparr>)]\<rparr>)"
    apply (simp add: append_checks_Inr sample_phase validate_optional_subject_def verify_boundaries_def checkpoint_limits
      sample_checkpoint_journal_def sample_directory_def sample_identity_def done_io_def)
   apply (simp add: next_record_def sample_next_def sample_checkpoint_journal_def sample_record_def sample_codec_def checkpoint_limits
      Let_def record_mac_payload_def validate_record_size_def last_mac_def checked_add_code)
  apply (simp add: append_record_def durable_publish_no_replace_def publish_head_def write_head_def new_head_def sign_head_def
      durable_replace_def done_io_def sample_next_def sample_record_def sample_checkpoint_journal_def sample_directory_def sample_codec_def
      checkpoint_limits bt_get_def checked_add_code head_mac_payload_def)
  done

section \<open>Properties\<close>



text \<open>C35. A publication that stops after the record file is linked and before its temporary name is removed
  closes the journal for good: the append reports a failure, and every later open, whatever its own writes do,
  fails and changes nothing in the directory, although the record and the temporary name are the residue that
  the recovery of temporary files is written for.\<close>

theorem linked_publication_closes_journal:
  assumes ok: "codec_ok S cd" and st: "in_order S cd j d"
    and checks: "append_checks S j d phase subject (ap_boundary io) = Inr ()"
    and r: "next_record S cd j phase subject payload = Inr r" and linked: "ap_publish io = Publish_Linked"
  shows "\<exists>d'. append_journal S cd j phase subject payload io d = (Inl PublishFailed, j, d') \<and>
    (\<forall>io'. \<exists>e. open_journal S cd (jn_identity j) io' d' = (Inl e, d'))"
proof -
  let ?file = "\<lparr>rf_bytes = cd_record_len cd r, rf_record = Some r\<rparr>"
  let ?d = "d\<lparr>rd_records := bt_insert (jr_sequence r) ?file (rd_records d),
    rd_record_temps := [\<lparr>rt_sequence = jr_sequence r, rt_linked = True\<rparr>]\<rparr>"
  have chain: "holds_chain S cd (jn_identity j) (jn_records j) d" and temps: "rd_record_temps d = []"
    and bytes: "jn_record_bytes j = of_nat (bytes_of cd (jn_records j))"
    using st by (auto simp: in_order_def)
  from checks have room: "length (jn_records j) < unat (MAX_RECORDS S)"
    and valid: "validate_phase S phase = Inr ()" "validate_optional_subject S subject = Inr ()"
    by (auto simp: append_checks_Inr)
  note seq = next_record_extends(1) [OF ok chain refl refl bytes room valid r]
  have size: "length (jn_records j) + 8 < 2 ^ 64" by (rule holds_chain_size [OF ok chain])
  have recs: "rd_records d = files_of cd 0 (jn_records j)" using chain by (simp add: holds_chain_def)
  have "append_journal S cd j phase subject payload io d = (Inl PublishFailed, j, ?d)"
    using checks r linked temps files_of_insert(2) [OF size, of cd] seq
    by (simp add: append_journal_clean [OF st] append_record_def durable_publish_no_replace_def recs del: of_nat_Suc)
  moreover have "\<exists>e. open_journal S cd (jn_identity j) io' ?d = (Inl e, ?d)" for io'
  proof (rule unreadable_stays_closed)
    show "(jr_sequence r, ?file) \<in> set (rd_records ?d)"
      using files_of_insert(1) [OF size, of cd r] seq by (simp add: recs files_of_append del: of_nat_Suc)
    show "record_links ?d (fst (jr_sequence r, ?file)) \<noteq> 1" by (simp add: record_links_def)
  qed
  ultimately show ?thesis by blast
qed

theorem linked_publication_closes_journal_witness:
  "\<exists>d'. append_journal CheckpointJournalSpec sample_codec sample_checkpoint_journal ''planned'' None 8
      (done_io\<lparr>ap_publish := Publish_Linked\<rparr>) sample_directory = (Inl PublishFailed, sample_checkpoint_journal, d') \<and>
    (\<forall>io'. \<exists>e. open_journal CheckpointJournalSpec sample_codec (jn_identity sample_checkpoint_journal) io' d' = (Inl e, d'))"
proof (rule linked_publication_closes_journal [OF sample_codec_ok sample_settled])
  show "append_checks CheckpointJournalSpec sample_checkpoint_journal sample_directory ''planned'' None
      (ap_boundary (done_io\<lparr>ap_publish := Publish_Linked\<rparr>)) = Inr ()"
    by (simp add: append_checks_Inr sample_phase validate_optional_subject_def verify_boundaries_def checkpoint_limits
        sample_checkpoint_journal_def sample_directory_def sample_identity_def done_io_def)
  show "next_record CheckpointJournalSpec sample_codec sample_checkpoint_journal ''planned'' None 8 =
      Inr (sample_record\<lparr>jr_sequence := 2, jr_previous_mac := replicate 64 (CHR ''1''), jr_payload := 8,
        jr_mac := replicate 64 (CHR ''2'')\<rparr>)"
    by (simp add: next_record_def sample_checkpoint_journal_def sample_record_def sample_codec_def checkpoint_limits Let_def
        record_mac_payload_def validate_record_size_def last_mac_def checked_add_code)
qed simp

text \<open>A failed head write does not wedge the handle: when the record was published and only its head
  failed, the next append on the same handle first rewrites the head, appends its record, and the directory then
  opens with both records.\<close>

theorem retry_rewrites_dirty_head:
  assumes ok: "codec_ok S cd" and spec: "validate_spec S = Inr ()" and ident: "validate_identity S (jn_identity j) = Inr ()"
    and st: "in_order S cd j d" and io: "ap_publish io = Publish_Done"
    and step: "append_journal S cd j phase subject payload io d = (Inl HeadWriteFailed, j1, d1)"
    and checks: "append_checks S j1 d1 phase' subject' True = Inr ()"
    and r': "next_record S cd (j1\<lparr>jn_head_dirty := False\<rparr>) phase' subject' payload' = Inr r'"
  shows "\<exists>r j2 d2 j3 d3. append_journal S cd j1 phase' subject' payload' done_io d1 = (Inr r', j2, d2) \<and>
    jr_payload r = payload \<and> jn_records j2 = jn_records j @ [r, r'] \<and>
    open_journal S cd (jn_identity j) clean_io d2 = (Inr j3, d3) \<and> in_order S cd j3 d3 \<and>
    jn_records j3 = jn_records j @ [r, r']"
proof -
  obtain r where rs: "jn_records j1 = jn_records j @ [r]" and i: "jn_identity j1 = jn_identity j"
    and dirty: "jn_head_dirty j1" and in_step: "in_step S cd j1 d1" and p: "jr_payload r = payload"
    by (rule failed_head_leaves [OF ok st io step])
  have ne: "jn_records j1 \<noteq> []" using rs by simp
  obtain j2 d2 where app: "append_journal S cd j1 phase' subject' payload' done_io d1 = (Inr r', j2, d2)"
    and rs2: "jn_records j2 = jn_records j1 @ [r']"
    and rec: "recoverable S cd (jn_identity j1) (jn_records j1 @ [r']) d2"
    by (rule retry_after_failed_head [OF ok in_step dirty ne checks r'])
  obtain j3 d3 where "open_journal S cd (jn_identity j) clean_io d2 = (Inr j3, d3)" "in_order S cd j3 d3"
    "jn_records j3 = jn_records j1 @ [r']"
    using open_recovers [OF ok spec ident rec [unfolded i]] by metis
  then show ?thesis using app rs2 rs p by auto
qed

theorem retry_rewrites_dirty_head_witness:
  "\<exists>r j2 d2. append_journal CheckpointJournalSpec sample_codec
      (fst (snd (append_journal CheckpointJournalSpec sample_codec sample_checkpoint_journal ''planned'' None 8
        (done_io\<lparr>ap_head := Replace_Refused\<rparr>) sample_directory))) ''planned'' None 9 done_io
      (snd (snd (append_journal CheckpointJournalSpec sample_codec sample_checkpoint_journal ''planned'' None 8
        (done_io\<lparr>ap_head := Replace_Refused\<rparr>) sample_directory))) =
      (Inr (sample_next 3 ''2'' 9), j2, d2) \<and> jr_payload r = 8 \<and>
    jn_records j2 = [sample_record, r, sample_next 3 ''2'' 9]"
proof -
  let ?S = CheckpointJournalSpec
  let ?j1 = "\<lparr>jn_identity = sample_identity, jn_records = [sample_record, sample_next 2 ''1'' 8], jn_record_bytes = 200,
    jn_head_dirty = True\<rparr>"
  let ?d1 = "sample_directory\<lparr>rd_records := rd_records sample_directory @
    [(2, \<lparr>rf_bytes = 100, rf_record = Some (sample_next 2 ''1'' 8)\<rparr>)]\<rparr>"
  have step: "append_journal ?S sample_codec sample_checkpoint_journal ''planned'' None 8 (done_io\<lparr>ap_head := Replace_Refused\<rparr>)
      sample_directory = (Inl HeadWriteFailed, ?j1, ?d1)"
    by (simp add: append_journal_clean [OF sample_settled] sample_append_ok)
  have checks: "append_checks ?S ?j1 ?d1 ''planned'' None True = Inr ()"
    by (simp add: append_checks_Inr sample_phase validate_optional_subject_def verify_boundaries_def checkpoint_limits
        sample_directory_def sample_identity_def)
  have nxt: "next_record ?S sample_codec (?j1\<lparr>jn_head_dirty := False\<rparr>) ''planned'' None 9 = Inr (sample_next 3 ''2'' 9)"
    by (simp add: next_record_def sample_next_def sample_record_def sample_codec_def checkpoint_limits Let_def
        record_mac_payload_def validate_record_size_def last_mac_def checked_add_code)
  have ident: "validate_identity ?S (jn_identity sample_checkpoint_journal) = Inr ()"
    by (simp add: sample_checkpoint_journal_def sample_identity_valid)
  have "ap_publish (done_io\<lparr>ap_head := Replace_Refused\<rparr>) = Publish_Done" by (simp add: done_io_def)
  from retry_rewrites_dirty_head [OF sample_codec_ok sample_spec_valid ident sample_settled this step checks nxt]
  show ?thesis unfolding step fst_conv snd_conv by (auto simp: sample_checkpoint_journal_def)
qed

text \<open>C36. The tag of the last record stands for the whole history: two directories that the read-only open
  accepts for the same journal and whose last records carry the same tag hold the same records, provided no two
  of their records with different contents have the same tag.\<close>

theorem last_tag_fixes_history:
  assumes "open_existing_read_only S cd i b d = Inr j" and "open_existing_read_only S cd i b' d' = Inr j'"
    and "\<forall>r \<in> set (jn_records j). \<forall>r' \<in> set (jn_records j').
      jr_mac r = jr_mac r' \<longrightarrow> record_mac_payload r = record_mac_payload r'"
    and "last_mac (jn_records j) = last_mac (jn_records j')"
  shows "jn_records j = jn_records j' \<and> map (rf_record \<circ> snd) (rd_records d) = map (rf_record \<circ> snd) (rd_records d')"
proof -
  have small: "unat (MAX_RECORDS S) < 2 ^ 64" using unat_less_exp [of "MAX_RECORDS S"] by simp
  note J = open_read_only_chain [OF assms(1)] and J' = open_read_only_chain [OF assms(2)]
  have "jn_records j = jn_records j'"
    using J J' small assms(3,4)
    by (intro same_last_tag_same_history [of S cd i]) (auto simp: last_mac_def)
  with J(4) J'(4) show ?thesis by simp
qed

theorem last_tag_fixes_history_witness:
  "open_existing_read_only CheckpointJournalSpec sample_codec sample_identity True sample_directory = Inr sample_checkpoint_journal \<and>
   map (rf_record \<circ> snd) (rd_records sample_directory) = [Some sample_record]"
proof -
  have "open_existing_read_only CheckpointJournalSpec sample_codec sample_identity True sample_directory = Inr sample_checkpoint_journal"
    using settled_reads [OF sample_codec_ok sample_spec_valid _ sample_settled] sample_identity_valid
    by (simp add: sample_checkpoint_journal_def)
  from last_tag_fixes_history [OF this this] this show ?thesis
    by (simp add: sample_directory_def)
qed

text \<open>Record file names are read back: the name of every sequence number parses to that number.\<close>

theorem record_file_name_round_trip: "parse_record_file_name (record_file_name s) = Some s"
proof -
  have small: "unat s < 2 ^ 64" using unat_less_exp [of s] by simp
  then have "unat s < 10 ^ 20" by simp
  then have "parse_decimal (padded_decimal 20 (unat s)) = unat s" by (rule parse_decimal_decimal)
  then show ?thesis
    using small by (simp add: parse_record_file_name_def record_file_name_def strip_suffix_def decimal_digits Let_def
        del: padded_decimal.simps)
qed

end
