(* ===== verification/Snapshot_Store.thy ===== *)
theory Snapshot_Store
  imports Journal_Recovery
begin

text \<open>
  Typed snapshots over the authenticated journal (\<^verbatim>\<open>src/src/authenticated_snapshot.rs\<close>): the signed
  locator, committing a generation, and opening a store after any interruption.

  A snapshot travels as the payload of a journal record; a payload that does not decode is \<open>None\<close>.
  The store on disk is the active run directory and the locator file, for a store with no pending initialization or
  rollover intent; the records that opening a retained journal yields, the tags and lengths of locators, and the
  repository binding the authenticator accepts are arguments.

  The lemmas show that one interrupted commit is recovered with the old or the new snapshot, and that committing
  again on a handle whose journal head could not be written reports success and leaves a store that never opens.
\<close>

section \<open>Data\<close>

record 't authenticated_snapshot =
  sp_version :: u32
  sp_generation :: u64
  sp_token :: u64
  sp_value :: 't

record retained_snapshot_anchor =
  ra_identity :: journal_identity
  ra_start_generation :: u64
  ra_end_generation :: u64
  ra_terminal_token :: u64
  ra_terminal_mac :: string

record snapshot_locator =
  lc_version :: u32
  lc_logical_id :: string
  lc_active_identity :: journal_identity
  lc_active_start_generation :: u64
  lc_generation :: u64
  lc_token :: u64
  lc_prior_token :: u64
  lc_prior_terminal_mac :: string
  lc_terminal_mac :: string
  lc_retained_instances :: "retained_snapshot_anchor list"
  lc_mac :: string

type_synonym locator_payload =
  "u32 \<times> string \<times> journal_identity \<times> u64 \<times> u64 \<times> u64 \<times> u64 \<times> string \<times> string \<times> retained_snapshot_anchor list"

type_synonym 't snapshot_payload = "'t authenticated_snapshot option"

record snapshot_spec =
  JOURNAL :: journal_spec
  SNAPSHOT_FORMAT_VERSION :: u32
  SNAPSHOT_PHASE :: string

record 't snapshot_codec =
  sc_journal :: "'t snapshot_payload codec"
  sc_sign_locator :: "locator_payload \<Rightarrow> string option"
  sc_locator_len :: "snapshot_locator \<Rightarrow> nat"
  sc_bound :: "repository_auth_binding \<Rightarrow> bool"

record 't snapshot_store =
  st_journal :: "'t snapshot_payload state_journal"
  st_logical_id :: string
  st_locator :: snapshot_locator
  st_current :: "'t authenticated_snapshot"

record 't store_disk =
  sd_run :: "'t snapshot_payload run_directory"
  sd_locator :: "snapshot_locator option"

datatype snapshot_error =
    JournalFailed journal_error
  | MalformedLogicalId
  | LocatorMissing
  | LocatorTagMalformed
  | LocatorMalformed
  | LocatorRange
  | LocatorActiveBound
  | RetainedChainMalformed
  | FalsePriorAnchor
  | LostPriorAnchor
  | LocatorUnsigned
  | LocatorTagInvalid
  | LocatorTooLarge
  | LocatorWriteFailed
  | WrongJournal
  | NotASnapshot
  | PayloadMalformed
  | GenerationOverflow
  | NonMonotonic
  | NoGeneration
  | LocatorTailMismatch
  | LocatorIndex
  | LocatorRollbackInconsistent
  | LocatorRollbackTooFar
  | TokenNotIncreasing
  | RetainedMissing
  | RetainedLength
  | RetainedTerminalMismatch
  | RootRefused
  | WrongRepository
  | RecoveryPending

text \<open>The atomic replacement of the locator is refused, or done without being confirmed, or done.\<close>

datatype locator_outcome = Locator_Refused | Locator_Unconfirmed | Locator_Done

record commit_io =
  cm_append :: append_io
  cm_locator :: locator_outcome

text \<open>\<open>op_root\<close> and \<open>op_after\<close> say whether the locks, the scavenging and the inventory of the root
  succeed before the locator is used and after the store is built.\<close>

record open_io =
  op_root :: bool
  op_load :: load_io
  op_locator :: locator_outcome
  op_after :: bool

section \<open>The locator\<close>

definition checked_sub :: "u64 \<Rightarrow> u64 \<Rightarrow> u64 option" where
  "checked_sub a b = (if b \<le> a then Some (a - b) else None)"

definition validate_logical_id :: "snapshot_spec \<Rightarrow> string \<Rightarrow> snapshot_error + unit" where
  "validate_logical_id S logical_id =
     ensure (logical_id \<noteq> [] \<and> length logical_id \<le> unat (MAX_INSTANCE_ID_BYTES (JOURNAL S))
       \<and> logical_id \<noteq> ''.'' \<and> logical_id \<noteq> ''..'' \<and> list_all safe_id_byte logical_id) MalformedLogicalId"

definition locator_mac_payload :: "snapshot_locator \<Rightarrow> locator_payload" where
  "locator_mac_payload l =
     (lc_version l, lc_logical_id l, lc_active_identity l, lc_active_start_generation l, lc_generation l, lc_token l,
      lc_prior_token l, lc_prior_terminal_mac l, lc_terminal_mac l, lc_retained_instances l)"

definition active_records :: "snapshot_locator \<Rightarrow> u64 option" where
  "active_records l =
     Option.bind (checked_sub (lc_generation l) (lc_active_start_generation l)) (\<lambda>v. checked_add v 1)"

fun validate_anchors ::
  "journal_identity \<Rightarrow> retained_snapshot_anchor list \<Rightarrow> u64 \<Rightarrow> u64 \<Rightarrow> snapshot_error + u64" where
  "validate_anchors active [] expected_start previous_token = Inr expected_start"
| "validate_anchors active (a # as) expected_start previous_token =
     and_then (ensure (is_canonical_lower_hex_64 (ra_terminal_mac a)) LocatorTagMalformed) (\<lambda>_.
     and_then (ensure (ra_start_generation a = expected_start \<and> ra_start_generation a \<le> ra_end_generation a
       \<and> previous_token < ra_terminal_token a \<and> ra_identity a \<noteq> active
       \<and> ji_repository (ra_identity a) = ji_repository active) RetainedChainMalformed) (\<lambda>_.
     and_then (ok_or (checked_add (ra_end_generation a) 1) LocatorRange) (\<lambda>next_start.
     validate_anchors active as next_start (ra_terminal_token a))))"

definition validate_prior_anchor :: "snapshot_locator \<Rightarrow> u64 \<Rightarrow> snapshot_error + unit" where
  "validate_prior_anchor l expected_start =
     (if lc_active_start_generation l = 1 then
        ensure (lc_prior_token l = 0 \<and> lc_prior_terminal_mac l = zero_tag \<and> lc_retained_instances l = []) FalsePriorAnchor
      else if lc_retained_instances l = [] then Inl LostPriorAnchor
      else let prior = last (lc_retained_instances l) in
        ensure (expected_start = lc_active_start_generation l \<and> ra_terminal_token prior = lc_prior_token l
          \<and> ra_terminal_mac prior = lc_prior_terminal_mac l) LostPriorAnchor)"

definition validate_locator :: "snapshot_spec \<Rightarrow> snapshot_locator \<Rightarrow> string \<Rightarrow> snapshot_error + unit" where
  "validate_locator S l logical_id =
     and_then (ensure (is_canonical_lower_hex_64 (lc_mac l) \<and> is_canonical_lower_hex_64 (lc_prior_terminal_mac l)
       \<and> is_canonical_lower_hex_64 (lc_terminal_mac l)) LocatorTagMalformed) (\<lambda>_.
     and_then (ensure (lc_version l = SNAPSHOT_FORMAT_VERSION S \<and> lc_logical_id l = logical_id
       \<and> lc_active_start_generation l \<noteq> 0 \<and> lc_active_start_generation l \<le> lc_generation l \<and> lc_token l \<noteq> 0
       \<and> lc_prior_token l < lc_token l \<and> length (lc_retained_instances l) \<le> 128) LocatorMalformed) (\<lambda>_.
     and_then (ok_or (active_records l) LocatorRange) (\<lambda>records.
     and_then (ensure (unat records \<le> unat (MAX_RECORDS (JOURNAL S))) LocatorActiveBound) (\<lambda>_.
     and_then (validate_anchors (lc_active_identity l) (lc_retained_instances l) 1 0) (\<lambda>expected_start.
     validate_prior_anchor l expected_start)))))"

definition decode_locator ::
  "snapshot_spec \<Rightarrow> 't snapshot_codec \<Rightarrow> string \<Rightarrow> snapshot_locator \<Rightarrow> snapshot_error + snapshot_locator" where
  "decode_locator S cd logical_id l =
     and_then (validate_locator S l logical_id) (\<lambda>_.
     and_then (ensure (sc_bound cd (ji_repository (lc_active_identity l))) WrongRepository) (\<lambda>_.
     and_then (ok_or (sc_sign_locator cd (locator_mac_payload l)) LocatorUnsigned) (\<lambda>expected.
     and_then (ensure (expected = lc_mac l) LocatorTagInvalid) (\<lambda>_. Inr l))))"

definition read_locator ::
  "snapshot_spec \<Rightarrow> 't snapshot_codec \<Rightarrow> string \<Rightarrow> snapshot_locator option \<Rightarrow> snapshot_error + snapshot_locator" where
  "read_locator S cd logical_id file =
     and_then (ok_or file LocatorMissing) (\<lambda>l.
     and_then (ensure (sc_locator_len cd l \<le> unat (MAX_RECORD_BYTES (JOURNAL S))) LocatorMissing) (\<lambda>_.
     decode_locator S cd logical_id l))"

definition write_locator ::
  "snapshot_spec \<Rightarrow> 't snapshot_codec \<Rightarrow> snapshot_locator \<Rightarrow> locator_outcome \<Rightarrow> snapshot_locator option \<Rightarrow>
    (snapshot_error + unit) \<times> snapshot_locator \<times> snapshot_locator option" where
  "write_locator S cd l outcome file =
     (case and_then (validate_locator S l (lc_logical_id l)) (\<lambda>_.
        ok_or (sc_sign_locator cd (locator_mac_payload l)) LocatorUnsigned) of
        Inl e \<Rightarrow> (Inl e, l, file)
      | Inr tag \<Rightarrow>
          let l = l\<lparr>lc_mac := tag\<rparr> in
          if unat (MAX_RECORD_BYTES (JOURNAL S)) < sc_locator_len cd l then (Inl LocatorTooLarge, l, file)
          else case outcome of
            Locator_Refused \<Rightarrow> (Inl LocatorWriteFailed, l, file)
          | Locator_Unconfirmed \<Rightarrow> (Inl LocatorWriteFailed, l, Some l)
          | Locator_Done \<Rightarrow> (Inr (), l, Some l))"

section \<open>Reading snapshots out of a journal\<close>

definition record_snapshot ::
  "snapshot_spec \<Rightarrow> u64 \<Rightarrow> u64 \<Rightarrow> 't snapshot_payload journal_record \<Rightarrow> snapshot_error + 't authenticated_snapshot" where
  "record_snapshot S start previous_token r =
     and_then (ensure (jr_phase r = SNAPSHOT_PHASE S \<and> jr_subject r = None) NotASnapshot) (\<lambda>_.
     and_then (ok_or (jr_payload r) PayloadMalformed) (\<lambda>snapshot.
     and_then (ok_or (checked_add start (saturating_sub (jr_sequence r) 1)) GenerationOverflow) (\<lambda>generation.
     and_then (ensure (sp_version snapshot = SNAPSHOT_FORMAT_VERSION S \<and> sp_generation snapshot = generation
       \<and> previous_token < sp_token snapshot) NonMonotonic) (\<lambda>_. Inr snapshot))))"

fun scan_snapshots ::
  "snapshot_spec \<Rightarrow> u64 \<Rightarrow> u64 \<Rightarrow> 't authenticated_snapshot option \<Rightarrow> 't snapshot_payload journal_record list \<Rightarrow>
    snapshot_error + 't authenticated_snapshot option" where
  "scan_snapshots S start previous_token current [] = Inr current"
| "scan_snapshots S start previous_token current (r # rs) =
     and_then (record_snapshot S start previous_token r) (\<lambda>snapshot.
     scan_snapshots S start (sp_token snapshot) (Some snapshot) rs)"

definition journal_current ::
  "snapshot_spec \<Rightarrow> 't snapshot_payload state_journal \<Rightarrow> snapshot_locator \<Rightarrow> snapshot_error + 't authenticated_snapshot" where
  "journal_current S j l =
     and_then (ensure (jn_identity j = lc_active_identity l) WrongJournal) (\<lambda>_.
     and_then (scan_snapshots S (lc_active_start_generation l) (lc_prior_token l) None (jn_records j)) (\<lambda>current.
     ok_or current NoGeneration))"

definition exact_current_from_journal ::
  "snapshot_spec \<Rightarrow> 't snapshot_payload state_journal \<Rightarrow> snapshot_locator \<Rightarrow> snapshot_error + 't authenticated_snapshot" where
  "exact_current_from_journal S j l =
     and_then (journal_current S j l) (\<lambda>current.
     and_then (ensure (sp_generation current = lc_generation l \<and> sp_token current = lc_token l
       \<and> last_mac (jn_records j) = lc_terminal_mac l) LocatorTailMismatch) (\<lambda>_. Inr current))"

definition advance_locator :: "snapshot_locator \<Rightarrow> 't authenticated_snapshot \<Rightarrow> string \<Rightarrow> snapshot_locator" where
  "advance_locator l current tag =
     l\<lparr>lc_generation := sp_generation current, lc_token := sp_token current, lc_terminal_mac := tag\<rparr>"

definition lagging_locator_anchored :: "'t snapshot_payload state_journal \<Rightarrow> snapshot_locator \<Rightarrow> snapshot_error + unit" where
  "lagging_locator_anchored j l =
     and_then (ok_or (checked_sub (lc_generation l) (lc_active_start_generation l)) LocatorIndex) (\<lambda>index.
     and_then (ensure (unat index < length (jn_records j)) LocatorIndex) (\<lambda>_.
     ensure (jr_mac (jn_records j ! unat index) = lc_terminal_mac l) LocatorRollbackInconsistent))"

definition from_journal ::
  "snapshot_spec \<Rightarrow> 't snapshot_codec \<Rightarrow> 't snapshot_payload state_journal \<Rightarrow> string \<Rightarrow> snapshot_locator \<Rightarrow> locator_outcome \<Rightarrow>
    snapshot_locator option \<Rightarrow> (snapshot_error + 't snapshot_store) \<times> snapshot_locator option" where
  "from_journal S cd j logical_id l outcome file =
     (case journal_current S j l of
        Inl e \<Rightarrow> (Inl e, file)
      | Inr current \<Rightarrow>
          let store = (\<lambda>l. \<lparr>st_journal = j, st_logical_id = logical_id, st_locator = l, st_current = current\<rparr>) in
          if sp_generation current = lc_generation l then
            (if sp_token current \<noteq> lc_token l \<or> last_mac (jn_records j) \<noteq> lc_terminal_mac l
             then (Inl LocatorTailMismatch, file) else (Inr (store l), file))
          else if sp_generation current = saturating_add (lc_generation l) 1 then
            (case lagging_locator_anchored j l of
               Inl e \<Rightarrow> (Inl e, file)
             | Inr u \<Rightarrow>
                 (case write_locator S cd (advance_locator l current (last_mac (jn_records j))) outcome file of
                    (Inl e, l, file) \<Rightarrow> (Inl e, file)
                  | (Inr u, l, file) \<Rightarrow> (Inr (store l), file)))
          else (Inl LocatorRollbackTooFar, file))"

section \<open>Retained journals\<close>

definition verify_retained_journal ::
  "snapshot_spec \<Rightarrow> retained_snapshot_anchor \<Rightarrow> u64 \<Rightarrow> 't snapshot_payload journal_record list \<Rightarrow> snapshot_error + unit" where
  "verify_retained_journal S a previous_token rs =
     and_then (ok_or (Option.bind (checked_sub (ra_end_generation a) (ra_start_generation a)) (\<lambda>v. checked_add v 1))
       LocatorRange) (\<lambda>expected_len.
     and_then (ensure (of_nat (length rs) = expected_len) RetainedLength) (\<lambda>_.
     and_then (scan_snapshots S (ra_start_generation a) previous_token None rs) (\<lambda>terminal.
     and_then (ok_or terminal RetainedMissing) (\<lambda>terminal.
     ensure (last_mac rs = ra_terminal_mac a \<and> sp_token terminal = ra_terminal_token a) RetainedTerminalMismatch))))"

fun verify_retained_instances ::
  "snapshot_spec \<Rightarrow> (journal_identity \<Rightarrow> 't snapshot_payload journal_record list option) \<Rightarrow> u64 \<Rightarrow>
    retained_snapshot_anchor list \<Rightarrow> snapshot_error + unit" where
  "verify_retained_instances S retained previous_token [] = Inr ()"
| "verify_retained_instances S retained previous_token (a # as) =
     and_then (ok_or (retained (ra_identity a)) RetainedMissing) (\<lambda>rs.
     and_then (verify_retained_journal S a previous_token rs) (\<lambda>_.
     verify_retained_instances S retained (ra_terminal_token a) as))"

section \<open>Opening and committing\<close>

definition open_store ::
  "snapshot_spec \<Rightarrow> 't snapshot_codec \<Rightarrow> (journal_identity \<Rightarrow> 't snapshot_payload journal_record list option) \<Rightarrow> string \<Rightarrow>
    open_io \<Rightarrow> 't store_disk \<Rightarrow> (snapshot_error + 't snapshot_store) \<times> 't store_disk" where
  "open_store S cd retained logical_id io disk =
     (case and_then (validate_logical_id S logical_id) (\<lambda>_.
        and_then (read_locator S cd logical_id (sd_locator disk)) (\<lambda>l.
        and_then (ensure (op_root io) RootRefused) (\<lambda>_.
        and_then (verify_retained_instances S retained 0 (lc_retained_instances l)) (\<lambda>_. Inr l)))) of
        Inl e \<Rightarrow> (Inl e, disk)
      | Inr l \<Rightarrow>
          (case open_journal (JOURNAL S) (sc_journal cd) (lc_active_identity l) (op_load io) (sd_run disk) of
             (Inl e, run) \<Rightarrow> (Inl (JournalFailed e), disk\<lparr>sd_run := run\<rparr>)
           | (Inr j, run) \<Rightarrow>
               (case from_journal S cd j logical_id l (op_locator io) (sd_locator disk) of
                  (res, file) \<Rightarrow>
                    (and_then res (\<lambda>st. and_then (ensure (op_after io) RootRefused) (\<lambda>_. Inr st)),
                     disk\<lparr>sd_run := run, sd_locator := file\<rparr>))))"

text \<open>Reading without recovery; \<open>pending\<close> says that an intent exists, \<open>root\<close> that the locks and the inventory of
  the root are in order, \<open>reachable\<close> that the boundaries of the journal are.\<close>

definition read_existing_current ::
  "snapshot_spec \<Rightarrow> 't snapshot_codec \<Rightarrow> (journal_identity \<Rightarrow> 't snapshot_payload journal_record list option) \<Rightarrow> string \<Rightarrow>
    bool \<Rightarrow> bool \<Rightarrow> bool \<Rightarrow> 't store_disk \<Rightarrow> snapshot_error + 't authenticated_snapshot" where
  "read_existing_current S cd retained logical_id pending root reachable disk =
     and_then (validate_logical_id S logical_id) (\<lambda>_.
     and_then (ensure (\<not> pending) RecoveryPending) (\<lambda>_.
     and_then (read_locator S cd logical_id (sd_locator disk)) (\<lambda>l.
     and_then (ensure root RootRefused) (\<lambda>_.
     and_then (verify_retained_instances S retained 0 (lc_retained_instances l)) (\<lambda>_.
     case open_existing_read_only (JOURNAL S) (sc_journal cd) (lc_active_identity l) reachable (sd_run disk) of
       Inl e \<Rightarrow> Inl (JournalFailed e)
     | Inr j \<Rightarrow> exact_current_from_journal S j l)))))"

definition next_snapshot ::
  "snapshot_spec \<Rightarrow> 't snapshot_store \<Rightarrow> u64 \<Rightarrow> 't \<Rightarrow> snapshot_error + 't authenticated_snapshot" where
  "next_snapshot S st token v =
     and_then (ensure (sp_token (st_current st) < token) TokenNotIncreasing) (\<lambda>_.
     and_then (ok_or (checked_add (sp_generation (st_current st)) 1) GenerationOverflow) (\<lambda>generation.
     Inr \<lparr>sp_version = SNAPSHOT_FORMAT_VERSION S, sp_generation = generation, sp_token = token, sp_value = v\<rparr>))"

definition commit_snapshot ::
  "snapshot_spec \<Rightarrow> 't snapshot_codec \<Rightarrow> 't snapshot_store \<Rightarrow> u64 \<Rightarrow> 't \<Rightarrow> commit_io \<Rightarrow> 't store_disk \<Rightarrow>
    (snapshot_error + 't authenticated_snapshot) \<times> 't snapshot_store \<times> 't store_disk" where
  "commit_snapshot S cd st token v io disk =
     (case next_snapshot S st token v of
        Inl e \<Rightarrow> (Inl e, st, disk)
      | Inr next \<Rightarrow>
          (case append_journal (JOURNAL S) (sc_journal cd) (st_journal st) (SNAPSHOT_PHASE S) None (Some next)
             (cm_append io) (sd_run disk) of
             (Inl e, j, run) \<Rightarrow> (Inl (JournalFailed e), st\<lparr>st_journal := j\<rparr>, disk\<lparr>sd_run := run\<rparr>)
           | (Inr r, j, run) \<Rightarrow>
               (case write_locator S cd (advance_locator (st_locator st) next (last_mac (jn_records j)))
                  (cm_locator io) (sd_locator disk) of
                  (res, l, file) \<Rightarrow>
                    (case res of Inl e \<Rightarrow> Inl e | Inr u \<Rightarrow> Inr next,
                     st\<lparr>st_journal := j, st_locator := l, st_current := next\<rparr>,
                     disk\<lparr>sd_run := run, sd_locator := file\<rparr>))))"

definition initial_locator ::
  "snapshot_spec \<Rightarrow> string \<Rightarrow> journal_identity \<Rightarrow> u64 \<Rightarrow> string \<Rightarrow> snapshot_locator" where
  "initial_locator S logical_id identity token tag =
     \<lparr>lc_version = SNAPSHOT_FORMAT_VERSION S, lc_logical_id = logical_id, lc_active_identity = identity,
      lc_active_start_generation = 1, lc_generation = 1, lc_token = token, lc_prior_token = 0,
      lc_prior_terminal_mac = zero_tag, lc_terminal_mac = tag, lc_retained_instances = [], lc_mac = zero_tag\<rparr>"

text \<open>Creation on a journal instance that initialization reserved.\<close>

definition create_store ::
  "snapshot_spec \<Rightarrow> 't snapshot_codec \<Rightarrow> 't snapshot_payload state_journal \<Rightarrow> string \<Rightarrow> u64 \<Rightarrow> 't \<Rightarrow> commit_io \<Rightarrow> 't store_disk \<Rightarrow>
    (snapshot_error + 't snapshot_store) \<times> 't store_disk" where
  "create_store S cd j logical_id token v io disk =
     (if token = 0 then (Inl TokenNotIncreasing, disk)
      else let current = \<lparr>sp_version = SNAPSHOT_FORMAT_VERSION S, sp_generation = 1, sp_token = token, sp_value = v\<rparr> in
        (case append_journal (JOURNAL S) (sc_journal cd) j (SNAPSHOT_PHASE S) None (Some current)
           (cm_append io) (sd_run disk) of
           (Inl e, j, run) \<Rightarrow> (Inl (JournalFailed e), disk\<lparr>sd_run := run\<rparr>)
         | (Inr r, j, run) \<Rightarrow>
             (case write_locator S cd (initial_locator S logical_id (jn_identity j) token (last_mac (jn_records j)))
                (cm_locator io) (sd_locator disk) of
                (Inl e, l, file) \<Rightarrow> (Inl e, disk\<lparr>sd_run := run, sd_locator := file\<rparr>)
              | (Inr u, l, file) \<Rightarrow>
                  (Inr \<lparr>st_journal = j, st_logical_id = logical_id, st_locator = l, st_current = current\<rparr>,
                   disk\<lparr>sd_run := run, sd_locator := file\<rparr>))))"

text \<open>Whether a store was initialized. \<open>root_exists\<close> is the presence of the namespace's root directory,
  \<open>before\<close> and \<open>after\<close> say whether the root's lock and scavenging, and its intent and inventory checks, succeed.\<close>

definition store_initialized ::
  "snapshot_spec \<Rightarrow> 't snapshot_codec \<Rightarrow> string \<Rightarrow> bool \<Rightarrow> bool \<Rightarrow> bool \<Rightarrow> snapshot_locator option \<Rightarrow> snapshot_error + bool" where
  "store_initialized S cd logical_id root_exists before after f =
     and_then (validate_logical_id S logical_id) (\<lambda>_.
     if \<not> root_exists then Inr False
     else and_then (ensure before RootRefused) (\<lambda>_.
       and_then (if f = None then Inr () else and_then (read_locator S cd logical_id f) (\<lambda>_. Inr ())) (\<lambda>_.
       and_then (ensure after RootRefused) (\<lambda>_. Inr (f \<noteq> None)))))"

section \<open>Stores in order\<close>

text \<open>Every string of such a locator is bounded: its logical id and the identities it names are valid.\<close>

definition bounded_locator :: "snapshot_spec \<Rightarrow> snapshot_locator \<Rightarrow> bool" where
  "bounded_locator S l \<longleftrightarrow> validate_logical_id S (lc_logical_id l) = Inr () \<and>
     (\<forall>i \<in> set (lc_active_identity l # map ra_identity (lc_retained_instances l)). validate_identity (JOURNAL S) i = Inr ())"

text \<open>The locator on disk names the handle's journal and its last record.\<close>

definition locator_for ::
  "snapshot_spec \<Rightarrow> 't snapshot_codec \<Rightarrow> string \<Rightarrow> 't snapshot_payload journal_record list \<Rightarrow> 't authenticated_snapshot \<Rightarrow>
    snapshot_locator \<Rightarrow> bool" where
  "locator_for S cd logical_id rs current l \<longleftrightarrow>
     bounded_locator S l \<and> decode_locator S cd logical_id l = Inr l \<and> sc_locator_len cd l \<le> unat (MAX_RECORD_BYTES (JOURNAL S)) \<and>
     lc_generation l = sp_generation current \<and> lc_token l = sp_token current \<and> lc_terminal_mac l = last_mac rs \<and>
     unat (lc_generation l) + 1 = unat (lc_active_start_generation l) + length rs"

definition store_ok ::
  "snapshot_spec \<Rightarrow> 't snapshot_codec \<Rightarrow> (journal_identity \<Rightarrow> 't snapshot_payload journal_record list option) \<Rightarrow>
    't snapshot_store \<Rightarrow> 't store_disk \<Rightarrow> bool" where
  "store_ok S cd retained st disk \<longleftrightarrow>
     validate_logical_id S (st_logical_id st) = Inr () \<and>
     in_order (JOURNAL S) (sc_journal cd) (st_journal st) (sd_run disk) \<and>
     validate_identity (JOURNAL S) (jn_identity (st_journal st)) = Inr () \<and>
     journal_current S (st_journal st) (st_locator st) = Inr (st_current st) \<and>
     locator_for S cd (st_logical_id st) (jn_records (st_journal st)) (st_current st) (st_locator st) \<and>
     sd_locator disk = Some (st_locator st) \<and>
     verify_retained_instances S retained 0 (lc_retained_instances (st_locator st)) = Inr ()"

text \<open>What the store relies on of the authenticator and the serializer, besides what its journal relies on: every
  locator is signed with a canonical tag, and a valid locator with bounded strings fits the record bound.\<close>

definition snapshot_codec_ok :: "snapshot_spec \<Rightarrow> 't snapshot_codec \<Rightarrow> bool" where
  "snapshot_codec_ok S cd \<longleftrightarrow>
     codec_ok (JOURNAL S) (sc_journal cd) \<and> validate_spec (JOURNAL S) = Inr () \<and>
     validate_phase (JOURNAL S) (SNAPSHOT_PHASE S) = Inr () \<and>
     (\<forall>m. case sc_sign_locator cd m of None \<Rightarrow> False | Some t \<Rightarrow> is_canonical_lower_hex_64 t) \<and>
     (\<forall>l. bounded_locator S l \<and> validate_locator S l (lc_logical_id l) = Inr () \<longrightarrow>
       sc_locator_len cd l \<le> unat (MAX_RECORD_BYTES (JOURNAL S)))"

lemma scan_snapshots_append:
  "scan_snapshots S start p c0 rs = Inr (Some c) \<Longrightarrow> (rs = [] \<Longrightarrow> p = sp_token c) \<Longrightarrow>
     scan_snapshots S start p c0 (rs @ ss) = scan_snapshots S start (sp_token c) (Some c) ss"
proof (induction rs arbitrary: p c0)
  case (Cons r rs)
  from Cons.prems(1) obtain s where s: "record_snapshot S start p r = Inr s"
    "scan_snapshots S start (sp_token s) (Some s) rs = Inr (Some c)" by (auto simp: result_iffs)
  from Cons.IH [OF s(2)] s show ?case by (cases rs) auto
qed simp

lemma journal_current_scan:
  assumes "journal_current S j l = Inr c"
  shows "jn_identity j = lc_active_identity l" and "jn_records j \<noteq> []"
    and "scan_snapshots S (lc_active_start_generation l) (lc_prior_token l) None (jn_records j) = Inr (Some c)"
  using assms by (auto simp: journal_current_def result_iffs)

lemma next_snapshot_recorded:
  assumes gen: "unat (sp_generation c) + 1 = unat start + n" and "n + 8 < 2 ^ 64"
    and nxt: "checked_add (sp_generation c) 1 = Some g" and tok: "sp_token c < t"
    and r: "jr_phase r = SNAPSHOT_PHASE S" "jr_subject r = None" "jr_sequence r = of_nat (Suc n)"
      "jr_payload r = Some \<lparr>sp_version = SNAPSHOT_FORMAT_VERSION S, sp_generation = g, sp_token = t, sp_value = v\<rparr>"
  shows "record_snapshot S start (sp_token c) r =
    Inr \<lparr>sp_version = SNAPSHOT_FORMAT_VERSION S, sp_generation = g, sp_token = t, sp_value = v\<rparr>"
proof -
  have "unat (saturating_sub (jr_sequence r) 1) = n"
    using r(3) assms(2) by (simp add: unat_saturating_sub unat_of_nat_u64 del: of_nat_Suc)
  moreover have "unat g = unat (sp_generation c) + 1"
    using checked_add_one_Some [OF nxt] by simp
  ultimately have "checked_add start (saturating_sub (jr_sequence r) 1) = Some g"
    using gen by (simp add: checked_add_Some_iff)
  with r tok show ?thesis by (simp add: record_snapshot_def)
qed

lemma validate_locator_advance:
  assumes "validate_locator S l logical_id = Inr ()" and "unat g = unat (lc_generation l) + 1" and "lc_token l < t"
    and "is_canonical_lower_hex_64 tag"
    and "unat g + 1 \<le> unat (lc_active_start_generation l) + unat (MAX_RECORDS (JOURNAL S))"
  shows "validate_locator S (l\<lparr>lc_generation := g, lc_token := t, lc_terminal_mac := tag\<rparr>) logical_id = Inr ()"
proof -
  let ?l = "l\<lparr>lc_generation := g, lc_token := t, lc_terminal_mac := tag\<rparr>"
  have le: "lc_active_start_generation l \<le> lc_generation l" and prior: "lc_prior_token l < lc_token l"
    using assms(1) by (auto simp: validate_locator_def result_iffs)
  have ge: "lc_active_start_generation l \<le> g" using le assms(2) by (simp add: word_le_nat_alt)
  have "unat (g - lc_active_start_generation l) = unat g - unat (lc_active_start_generation l)"
    using ge by (simp add: unat_sub)
  moreover have "0 < unat (lc_active_start_generation l)"
    using assms(1) by (auto simp: validate_locator_def result_iffs unat_gt_0)
  ultimately obtain n where n: "active_records ?l = Some n" "unat n \<le> unat (MAX_RECORDS (JOURNAL S))"
    using ge assms(5) unat_less_exp [of g] ge [unfolded word_le_nat_alt]
    by (auto simp: active_records_def checked_sub_def checked_add_of_nat(1) [of _ 1, simplified] checked_add_of_nat(2) [of _ 1, simplified])
  from prior assms(3) have "lc_prior_token l < t" by (rule less_trans)
  moreover have "t \<noteq> 0" using assms(3) by auto
  moreover have "validate_prior_anchor ?l x = validate_prior_anchor l x" for x by (simp add: validate_prior_anchor_def)
  ultimately show ?thesis
    using assms(1,4) n ge by (auto simp: validate_locator_def result_iffs)
qed

definition clean_open :: open_io where
  "clean_open = \<lparr>op_root = True, op_load = clean_io, op_locator = Locator_Done, op_after = True\<rparr>"

lemma decode_locator_Inr:
  "decode_locator S cd logical_id l = Inr l' \<longleftrightarrow>
     l' = l \<and> validate_locator S l logical_id = Inr () \<and> sc_bound cd (ji_repository (lc_active_identity l)) \<and>
     sc_sign_locator cd (locator_mac_payload l) = Some (lc_mac l)"
  by (auto simp: decode_locator_def result_iffs)

lemma write_locator_signed:
  assumes "snapshot_codec_ok S cd" and "validate_locator S l (lc_logical_id l) = Inr ()" and "bounded_locator S l"
    and "sc_bound cd (ji_repository (lc_active_identity l))"
  obtains l' where "decode_locator S cd (lc_logical_id l) l' = Inr l'" and "\<exists>tag. l' = l\<lparr>lc_mac := tag\<rparr>"
    and "\<And>outcome file. write_locator S cd l outcome file =
      (if outcome = Locator_Done then Inr () else Inl LocatorWriteFailed, l',
       if outcome = Locator_Refused then file else Some l')"
proof -
  obtain tag where tag: "sc_sign_locator cd (locator_mac_payload l) = Some tag" "is_canonical_lower_hex_64 tag"
  proof -
    have "case sc_sign_locator cd (locator_mac_payload l) of None \<Rightarrow> False | Some t \<Rightarrow> is_canonical_lower_hex_64 t"
      using assms(1) unfolding snapshot_codec_ok_def by blast
    then show ?thesis using that by (auto split: option.splits)
  qed
  let ?l = "l\<lparr>lc_mac := tag\<rparr>"
  have pay: "locator_mac_payload ?l = locator_mac_payload l" by (simp add: locator_mac_payload_def)
  have "active_records ?l = active_records l" "validate_prior_anchor ?l x = validate_prior_anchor l x" for x
    by (simp_all add: active_records_def validate_prior_anchor_def)
  then have val: "validate_locator S ?l (lc_logical_id l) = Inr ()"
    using assms(2) tag(2) by (auto simp: validate_locator_def result_iffs)
  then have dec: "decode_locator S cd (lc_logical_id l) ?l = Inr ?l" using assms(4) by (simp add: decode_locator_Inr pay tag)
  have "\<not> unat (MAX_RECORD_BYTES (JOURNAL S)) < sc_locator_len cd ?l"
    using assms(1,3) val by (simp add: snapshot_codec_ok_def bounded_locator_def not_less)
  then have "write_locator S cd l outcome f =
      (if outcome = Locator_Done then Inr () else Inl LocatorWriteFailed, ?l,
       if outcome = Locator_Refused then f else Some ?l)" for outcome f
    using assms(2) tag by (cases outcome) (simp_all add: write_locator_def Let_def)
  with dec that show ?thesis by blast
qed

text \<open>Opening a directory whose journal is recoverable: the locator on disk names its last record, or the one
  before it.\<close>

lemma reopen_exact:
  assumes ok: "snapshot_codec_ok S cd" and lid: "validate_logical_id S logical_id = Inr ()"
    and ident: "validate_identity (JOURNAL S) i = Inr ()"
    and rec: "recoverable (JOURNAL S) (sc_journal cd) i rs (sd_run disk)"
    and disk: "sd_locator disk = Some l" and l: "locator_for S cd logical_id rs c l"
    and active: "lc_active_identity l = i"
    and scan: "scan_snapshots S (lc_active_start_generation l) (lc_prior_token l) None rs = Inr (Some c)"
    and ret: "verify_retained_instances S retained 0 (lc_retained_instances l) = Inr ()"
  obtains st disk2 where "open_store S cd retained logical_id clean_open disk = (Inr st, disk2)"
    and "store_ok S cd retained st disk2" and "st_current st = c" and "st_logical_id st = logical_id"
    and "jn_records (st_journal st) = rs"
proof -
  obtain j run where j: "open_journal (JOURNAL S) (sc_journal cd) i clean_io (sd_run disk) = (Inr j, run)"
    "in_order (JOURNAL S) (sc_journal cd) j run" "jn_identity j = i" "jn_records j = rs"
    by (rule open_recovers [OF _ _ ident rec]) (use ok in \<open>auto simp: snapshot_codec_ok_def\<close>)
  have cur: "journal_current S j l = Inr c" using j active scan by (simp add: journal_current_def)
  let ?st = "\<lparr>st_journal = j, st_logical_id = logical_id, st_locator = l, st_current = c\<rparr>"
  have "from_journal S cd j logical_id l Locator_Done (Some l) = (Inr ?st, Some l)"
    using cur l j by (simp add: from_journal_def locator_for_def Let_def)
  moreover have "read_locator S cd logical_id (Some l) = Inr l"
    using l by (simp add: read_locator_def locator_for_def)
  ultimately have op: "open_store S cd retained logical_id clean_open disk =
      (Inr ?st, disk\<lparr>sd_run := run, sd_locator := Some l\<rparr>)"
    using lid disk ret active j(1) by (simp add: open_store_def clean_open_def)
  have "store_ok S cd retained ?st (disk\<lparr>sd_run := run, sd_locator := Some l\<rparr>)"
    using lid ident j cur l ret by (simp add: store_ok_def)
  from that [OF op this] show ?thesis using j(4) by simp
qed

lemma locator_for_next:
  assumes ok: "snapshot_codec_ok S cd" and l: "locator_for S cd logical_id rs c l"
    and lid: "lc_logical_id l = logical_id"
    and nxt: "checked_add (sp_generation c) 1 = Some (sp_generation c')" and tok: "sp_token c < sp_token c'"
    and chain: "holds_chain (JOURNAL S) (sc_journal cd) i (rs @ [r]) run"
  obtains l' where "locator_for S cd logical_id (rs @ [r]) c' l'"
    and "\<exists>tag. l' = (advance_locator l c' (last_mac (rs @ [r])))\<lparr>lc_mac := tag\<rparr>"
    and "\<And>outcome file. write_locator S cd (advance_locator l c' (last_mac (rs @ [r]))) outcome file =
      (if outcome = Locator_Done then Inr () else Inl LocatorWriteFailed, l',
       if outcome = Locator_Refused then file else Some l')"
proof -
  have g: "unat (sp_generation c') = unat (sp_generation c) + 1" using checked_add_one_Some [OF nxt] by simp
  have "validate_locator S (advance_locator l c' (last_mac (rs @ [r]))) logical_id = Inr ()"
    unfolding advance_locator_def
    using l tok g holds_chain_fits(2) [OF chain] chain
    by (intro validate_locator_advance) (auto simp: locator_for_def decode_locator_Inr holds_chain_def)
  moreover have "lc_logical_id (advance_locator l c' (last_mac (rs @ [r]))) = logical_id"
    by (simp add: advance_locator_def lid)
  moreover have bounded: "bounded_locator S (advance_locator l c' (last_mac (rs @ [r])))"
    using l by (simp add: locator_for_def bounded_locator_def advance_locator_def)
  moreover have "sc_bound cd (ji_repository (lc_active_identity (advance_locator l c' (last_mac (rs @ [r])))))"
    using l by (simp add: locator_for_def decode_locator_Inr advance_locator_def)
  ultimately obtain l' where dec: "decode_locator S cd logical_id l' = Inr l'"
    and l': "\<exists>tag. l' = (advance_locator l c' (last_mac (rs @ [r])))\<lparr>lc_mac := tag\<rparr>"
    and w: "\<And>outcome file. write_locator S cd (advance_locator l c' (last_mac (rs @ [r]))) outcome file =
      (if outcome = Locator_Done then Inr () else Inl LocatorWriteFailed, l',
       if outcome = Locator_Refused then file else Some l')"
    using write_locator_signed [OF ok, of "advance_locator l c' (last_mac (rs @ [r]))"] by metis
  have "locator_for S cd logical_id (rs @ [r]) c' l'"
    using dec l' l g ok by (auto simp: locator_for_def advance_locator_def snapshot_codec_ok_def bounded_locator_def
        decode_locator_Inr lid)
  with l' w that show ?thesis by blast
qed

lemma reopen_lagging:
  assumes ok: "snapshot_codec_ok S cd" and lid: "validate_logical_id S logical_id = Inr ()"
    and ident: "validate_identity (JOURNAL S) i = Inr ()"
    and rec: "recoverable (JOURNAL S) (sc_journal cd) i (rs @ [r]) (sd_run disk)"
    and disk: "sd_locator disk = Some l" and l: "locator_for S cd logical_id rs c l" and ne: "rs \<noteq> []"
    and active: "lc_active_identity l = i"
    and scan: "scan_snapshots S (lc_active_start_generation l) (lc_prior_token l) None (rs @ [r]) = Inr (Some c')"
    and nxt: "checked_add (sp_generation c) 1 = Some (sp_generation c')" and tok: "sp_token c < sp_token c'"
    and ret: "verify_retained_instances S retained 0 (lc_retained_instances l) = Inr ()"
  obtains st disk2 where "open_store S cd retained logical_id clean_open disk = (Inr st, disk2)"
    and "store_ok S cd retained st disk2" and "st_current st = c'" and "st_logical_id st = logical_id"
    and "jn_records (st_journal st) = rs @ [r]"
proof -
  obtain j run where j: "open_journal (JOURNAL S) (sc_journal cd) i clean_io (sd_run disk) = (Inr j, run)"
    "in_order (JOURNAL S) (sc_journal cd) j run" "jn_identity j = i" "jn_records j = rs @ [r]"
    by (rule open_recovers [OF _ _ ident rec]) (use ok in \<open>auto simp: snapshot_codec_ok_def\<close>)
  have chain: "holds_chain (JOURNAL S) (sc_journal cd) i (rs @ [r]) run" using j by (auto simp: in_order_def)
  have lid': "lc_logical_id l = logical_id"
    using l by (auto simp: locator_for_def decode_locator_Inr validate_locator_def result_iffs)
  obtain l' tag where l': "locator_for S cd logical_id (rs @ [r]) c' l'"
    and l'_def: "l' = (advance_locator l c' (last_mac (rs @ [r])))\<lparr>lc_mac := tag\<rparr>"
    and w: "\<And>outcome file. write_locator S cd (advance_locator l c' (last_mac (rs @ [r]))) outcome file =
      (if outcome = Locator_Done then Inr () else Inl LocatorWriteFailed, l',
       if outcome = Locator_Refused then file else Some l')"
    using locator_for_next [OF ok l lid' nxt tok chain] by metis
  have g: "unat (sp_generation c') = unat (sp_generation c) + 1" using checked_add_one_Some [OF nxt] by simp
  then have ne_g: "sp_generation c' \<noteq> lc_generation l" "sp_generation c' = saturating_add (lc_generation l) 1"
    using l unat_less_exp [of "sp_generation c'"]
    by (auto simp: locator_for_def word_unat_eq_iff unat_saturating_add)
  have start: "lc_active_start_generation l \<le> lc_generation l"
    using l by (auto simp: locator_for_def decode_locator_Inr validate_locator_def result_iffs)
  then have index: "unat (lc_generation l - lc_active_start_generation l) = length rs - 1"
    using l start by (auto simp: unat_sub locator_for_def)
  have anchored: "lagging_locator_anchored j l = Inr ()"
    using start index ne j(4) l
    by (auto simp: lagging_locator_anchored_def checked_sub_def locator_for_def last_mac_def nth_append last_conv_nth
        less_Suc_eq_le)
  have cur: "journal_current S j l = Inr c'" using j active scan by (simp add: journal_current_def)
  have cur': "journal_current S j l' = Inr c'"
    using j active scan l'_def by (simp add: journal_current_def advance_locator_def)
  let ?st = "\<lparr>st_journal = j, st_logical_id = logical_id, st_locator = l', st_current = c'\<rparr>"
  have "from_journal S cd j logical_id l Locator_Done (Some l) = (Inr ?st, Some l')"
    using cur ne_g(1) ne_g(2) [symmetric] anchored w j(4) by (simp add: from_journal_def Let_def)
  moreover have "read_locator S cd logical_id (Some l) = Inr l"
    using l by (simp add: read_locator_def locator_for_def)
  ultimately have op: "open_store S cd retained logical_id clean_open disk =
      (Inr ?st, disk\<lparr>sd_run := run, sd_locator := Some l'\<rparr>)"
    using lid disk ret active j(1) by (simp add: open_store_def clean_open_def)
  have "lc_retained_instances l' = lc_retained_instances l" by (simp add: l'_def advance_locator_def)
  then have "store_ok S cd retained ?st (disk\<lparr>sd_run := run, sd_locator := Some l'\<rparr>)"
    using lid ident j cur' l' ret by (simp add: store_ok_def)
  from that [OF op this] show ?thesis using j(4) by simp
qed

lemma next_snapshot_Inr:
  "next_snapshot S st t v = Inr n \<longleftrightarrow> sp_token (st_current st) < t \<and>
     checked_add (sp_generation (st_current st)) 1 = Some (sp_generation n) \<and>
     n = \<lparr>sp_version = SNAPSHOT_FORMAT_VERSION S, sp_generation = sp_generation n, sp_token = t, sp_value = v\<rparr>"
  by (cases n) (auto simp: next_snapshot_def result_iffs)

lemma store_ok_facts:
  assumes "snapshot_codec_ok S cd" and "store_ok S cd retained st disk"
  shows "jn_records (st_journal st) \<noteq> []" and "length (jn_records (st_journal st)) + 8 < 2 ^ 64"
    and "scan_snapshots S (lc_active_start_generation (st_locator st)) (lc_prior_token (st_locator st)) None
      (jn_records (st_journal st)) = Inr (Some (st_current st))"
    and "lc_active_identity (st_locator st) = jn_identity (st_journal st)"
    and "unat (sp_generation (st_current st)) + 1 =
      unat (lc_active_start_generation (st_locator st)) + length (jn_records (st_journal st))"
    and "lc_logical_id (st_locator st) = st_logical_id st"
proof -
  have cur: "journal_current S (st_journal st) (st_locator st) = Inr (st_current st)"
    and l: "locator_for S cd (st_logical_id st) (jn_records (st_journal st)) (st_current st) (st_locator st)"
    and chain: "holds_chain (JOURNAL S) (sc_journal cd) (jn_identity (st_journal st)) (jn_records (st_journal st)) (sd_run disk)"
    using assms(2) by (auto simp: store_ok_def in_order_def)
  show "jn_records (st_journal st) \<noteq> []"
    and "scan_snapshots S (lc_active_start_generation (st_locator st)) (lc_prior_token (st_locator st)) None
      (jn_records (st_journal st)) = Inr (Some (st_current st))"
    and "lc_active_identity (st_locator st) = jn_identity (st_journal st)"
    using journal_current_scan [OF cur] by simp_all
  show "length (jn_records (st_journal st)) + 8 < 2 ^ 64"
    using holds_chain_size [OF _ chain] assms(1) by (simp add: snapshot_codec_ok_def)
  show "unat (sp_generation (st_current st)) + 1 =
      unat (lc_active_start_generation (st_locator st)) + length (jn_records (st_journal st))"
    using l by (auto simp: locator_for_def)
  show "lc_logical_id (st_locator st) = st_logical_id st"
    using l by (auto simp: locator_for_def decode_locator_Inr validate_locator_def result_iffs)
qed

lemma commit_scan:
  assumes ok: "snapshot_codec_ok S cd" and st: "store_ok S cd retained st disk"
    and n: "next_snapshot S st t v = Inr n"
    and r: "jr_phase r = SNAPSHOT_PHASE S" "jr_subject r = None" "jr_payload r = Some n"
      "jr_sequence r = of_nat (Suc (length (jn_records (st_journal st))))"
  shows "scan_snapshots S (lc_active_start_generation (st_locator st)) (lc_prior_token (st_locator st)) None
    (jn_records (st_journal st) @ [r]) = Inr (Some n)"
proof -
  note F = store_ok_facts [OF ok st]
  from n have g: "checked_add (sp_generation (st_current st)) 1 = Some (sp_generation n)"
    and t: "sp_token (st_current st) < t"
    and n': "n = \<lparr>sp_version = SNAPSHOT_FORMAT_VERSION S, sp_generation = sp_generation n, sp_token = t, sp_value = v\<rparr>"
    by (simp_all only: next_snapshot_Inr)
  have "record_snapshot S (lc_active_start_generation (st_locator st)) (sp_token (st_current st)) r =
      Inr \<lparr>sp_version = SNAPSHOT_FORMAT_VERSION S, sp_generation = sp_generation n, sp_token = t, sp_value = v\<rparr>"
    using r(3) n' by (intro next_snapshot_recorded [OF F(5,2) g t r(1,2,4)]) simp
  then show ?thesis using scan_snapshots_append [OF F(3)] F(1) n' by simp
qed

text \<open>What a commit leaves: the old state, the new record with the old locator, or the new record with a locator
  that names it.\<close>

lemma commit_leaves:
  assumes ok: "snapshot_codec_ok S cd" and st: "store_ok S cd retained st disk"
    and step: "commit_snapshot S cd st token v io disk = (res, st', disk')"
    and linked: "ap_publish (cm_append io) \<noteq> Publish_Linked"
  obtains (old) e where "res = Inl e" and "sd_locator disk' = Some (st_locator st)"
      and "recoverable (JOURNAL S) (sc_journal cd) (jn_identity (st_journal st)) (jn_records (st_journal st)) (sd_run disk')"
  | (lagging) e n r where "res = Inl e" and "next_snapshot S st token v = Inr n" and "sd_locator disk' = Some (st_locator st)"
      and "recoverable (JOURNAL S) (sc_journal cd) (jn_identity (st_journal st)) (jn_records (st_journal st) @ [r]) (sd_run disk')"
      and "scan_snapshots S (lc_active_start_generation (st_locator st)) (lc_prior_token (st_locator st)) None
        (jn_records (st_journal st) @ [r]) = Inr (Some n)"
  | (advanced) n r l' tag where "res = Inl LocatorWriteFailed \<or> res = Inr n" and "next_snapshot S st token v = Inr n"
      and "sd_locator disk' = Some l'"
      and "l' = (advance_locator (st_locator st) n (last_mac (jn_records (st_journal st) @ [r])))\<lparr>lc_mac := tag\<rparr>"
      and "locator_for S cd (st_logical_id st) (jn_records (st_journal st) @ [r]) n l'"
      and "recoverable (JOURNAL S) (sc_journal cd) (jn_identity (st_journal st)) (jn_records (st_journal st) @ [r]) (sd_run disk')"
      and "scan_snapshots S (lc_active_start_generation (st_locator st)) (lc_prior_token (st_locator st)) None
        (jn_records (st_journal st) @ [r]) = Inr (Some n)"
proof -
  note F = store_ok_facts [OF ok st]
  let ?rs = "jn_records (st_journal st)"
  have parts: "in_order (JOURNAL S) (sc_journal cd) (st_journal st) (sd_run disk)" "sd_locator disk = Some (st_locator st)"
    "locator_for S cd (st_logical_id st) ?rs (st_current st) (st_locator st)" "codec_ok (JOURNAL S) (sc_journal cd)"
    using st ok by (simp_all add: store_ok_def snapshot_codec_ok_def)
  show ?thesis
  proof (cases "next_snapshot S st token v")
    case (Inl e)
    then have "res = Inl e" "disk' = disk" using step by (auto simp: commit_snapshot_def)
    then show ?thesis using settled_recoverable [OF parts(1) F(1)] parts(2) by (intro old) auto
  next
    case n: (Inr n)
    have g: "checked_add (sp_generation (st_current st)) 1 = Some (sp_generation n)" "sp_token (st_current st) < sp_token n"
      using n by (auto simp: next_snapshot_def result_iffs)
    obtain ares j run where app: "append_journal (JOURNAL S) (sc_journal cd) (st_journal st) (SNAPSHOT_PHASE S) None (Some n)
        (cm_append io) (sd_run disk) = (ares, j, run)" by (metis prod_cases3)
    show ?thesis
    proof (cases rule: append_leaves [OF parts(4,1) F(1) app linked])
      case (1 e)
      then show ?thesis using step n app parts(2) by (intro old) (auto simp: commit_snapshot_def)
    next
      case (2 r)
      note scan = commit_scan [OF ok st n 2(2-5)]
      show ?thesis
      proof (cases ares)
        case (Inl e)
        then show ?thesis using step n app parts(2) 2(1) scan by (intro lagging) (auto simp: commit_snapshot_def)
      next
        case (Inr x)
        with 2(7) have j: "jn_records j = ?rs @ [r]"
          and chain: "holds_chain (JOURNAL S) (sc_journal cd) (jn_identity (st_journal st)) (?rs @ [r]) run"
          by (auto simp: in_order_def)
        obtain l' tag where l': "locator_for S cd (st_logical_id st) (?rs @ [r]) n l'"
          and l'_def: "l' = (advance_locator (st_locator st) n (last_mac (?rs @ [r])))\<lparr>lc_mac := tag\<rparr>"
          and w: "\<And>outcome f. write_locator S cd (advance_locator (st_locator st) n (last_mac (?rs @ [r]))) outcome f =
            (if outcome = Locator_Done then Inr () else Inl LocatorWriteFailed, l', if outcome = Locator_Refused then f else Some l')"
          using locator_for_next [OF ok parts(3) F(6) g chain] by metis
        have res: "res = (if cm_locator io = Locator_Done then Inr n else Inl LocatorWriteFailed)" "sd_run disk' = run"
          "sd_locator disk' = (if cm_locator io = Locator_Refused then Some (st_locator st) else Some l')"
          using step n app Inr j w parts(2) by (auto simp: commit_snapshot_def)
        show ?thesis
        proof (cases "cm_locator io = Locator_Refused")
          case True
          then show ?thesis using res 2(1) scan n by (intro lagging) auto
        next
          case False
          then show ?thesis using res 2(1) by (intro advanced [OF _ n _ l'_def l' _ scan]) auto
        qed
      qed
    qed
  qed
qed

lemma commit_recovers:
  assumes ok: "snapshot_codec_ok S cd" and st: "store_ok S cd retained st disk"
    and step: "commit_snapshot S cd st token v io disk = (res, st', disk')"
    and linked: "ap_publish (cm_append io) \<noteq> Publish_Linked"
  shows "\<exists>st2 disk2. open_store S cd retained (st_logical_id st) clean_open disk' = (Inr st2, disk2) \<and>
    store_ok S cd retained st2 disk2 \<and>
    (st_current st2 = st_current st \<or> next_snapshot S st token v = Inr (st_current st2)) \<and>
    (\<forall>n. res = Inr n \<longrightarrow> next_snapshot S st token v = Inr n \<and> st_current st2 = n)"
proof -
  note F = store_ok_facts [OF ok st]
  have parts: "validate_logical_id S (st_logical_id st) = Inr ()"
    "validate_identity (JOURNAL S) (jn_identity (st_journal st)) = Inr ()"
    "locator_for S cd (st_logical_id st) (jn_records (st_journal st)) (st_current st) (st_locator st)"
    "verify_retained_instances S retained 0 (lc_retained_instances (st_locator st)) = Inr ()"
    using st by (simp_all add: store_ok_def)
  show ?thesis
  proof (cases rule: commit_leaves [OF ok st step linked])
    case (1 e)
    from reopen_exact [OF ok parts(1,2) 1(3,2) parts(3) F(4,3) parts(4)] 1(1) show ?thesis by (metis Inr_not_Inl)
  next
    case (2 e n r)
    have g: "checked_add (sp_generation (st_current st)) 1 = Some (sp_generation n)" "sp_token (st_current st) < sp_token n"
      using 2(2) by (auto simp: next_snapshot_def result_iffs)
    from reopen_lagging [OF ok parts(1,2) 2(4,3) parts(3) F(1,4) 2(5) g parts(4)] 2(1,2) show ?thesis
      by (metis Inr_not_Inl)
  next
    case (3 n r l' tag)
    have same: "lc_active_identity l' = jn_identity (st_journal st)"
      "lc_active_start_generation l' = lc_active_start_generation (st_locator st)"
      "lc_prior_token l' = lc_prior_token (st_locator st)"
      "lc_retained_instances l' = lc_retained_instances (st_locator st)"
      using F(4) by (simp_all add: 3(4) advance_locator_def)
    from reopen_exact [OF ok parts(1,2) 3(6,3,5) same(1), of retained] 3(1,2,7) parts(4) same show ?thesis
      by (metis Inr_inject Inr_not_Inl)
  qed
qed

lemma store_reads_current:
  assumes ok: "snapshot_codec_ok S cd" and st: "store_ok S cd retained st disk"
  shows "read_existing_current S cd retained (st_logical_id st) False True True disk = Inr (st_current st)"
proof -
  note F = store_ok_facts [OF ok st]
  have "open_existing_read_only (JOURNAL S) (sc_journal cd) (jn_identity (st_journal st)) True (sd_run disk) = Inr (st_journal st)"
    using ok st by (intro settled_reads [OF _ _ _ _ F(1)]) (simp_all add: snapshot_codec_ok_def store_ok_def)
  moreover have "exact_current_from_journal S (st_journal st) (st_locator st) = Inr (st_current st)"
    using st by (simp add: store_ok_def locator_for_def exact_current_from_journal_def)
  ultimately show ?thesis
    using st F(4) by (simp add: read_existing_current_def store_ok_def locator_for_def read_locator_def)
qed

section \<open>Committing again after a failed head\<close>

lemma append_success:
  assumes ok: "codec_ok S cd" and st: "in_step S cd j d" and ne: "jn_records j \<noteq> []"
    and step: "append_journal S cd j phase subject payload io d = (Inr r, j', d')"
  shows "holds_chain S cd (jn_identity j) (jn_records j @ [r]) d'" and "rd_record_temps d' = []"
    and "jr_payload r = payload" and "jr_sequence r = of_nat (Suc (length (jn_records j)))"
proof -
  have clean: "holds_chain S cd (jn_identity j) (jn_records j @ [r]) d' \<and> rd_record_temps d' = [] \<and> jr_payload r = payload \<and>
      jr_sequence r = of_nat (Suc (length (jn_records j)))"
    if k: "in_step S cd k e" "jn_records k = jn_records j" "jn_identity k = jn_identity j"
      and app: "append_clean S cd k phase subject payload io e = (Inr r, j', d')"
      and checks: "validate_phase S phase = Inr ()" "validate_optional_subject S subject = Inr ()"
        "length (jn_records j) < unat (MAX_RECORDS S)" for k e
  proof -
    obtain q where q: "next_record S cd k phase subject payload = Inr q" "append_record S cd k q io e = (Inr r, j', d')"
      using app by (auto simp: append_clean_def split: sum.splits)
    have chain: "holds_chain S cd (jn_identity j) (jn_records j) e"
      and bytes: "jn_record_bytes k = of_nat (bytes_of cd (jn_records j))" and temps: "rd_record_temps e = []"
      using k by (auto simp: in_step_def)
    note ext = next_record_extends [OF ok chain k(3,2) bytes checks(3,1,2) q(1)]
    have "q = r" and d': "rd_identity d' = rd_identity e" "rd_record_temps d' = []"
      "rd_records d' = bt_insert (jr_sequence q) \<lparr>rf_bytes = cd_record_len cd q, rf_record = Some q\<rparr> (rd_records e)"
      using q(2) temps
      by (auto simp: append_record_def durable_publish_no_replace_def publish_head_def write_head_def durable_replace_def
          split: if_splits publish_outcome.splits option.splits sum.splits replace_outcome.splits)
    with holds_chain_extend [OF ok chain ext(1,2) checks(3) ext(4,5) d'(1,3)] ext(1,6) show ?thesis by simp
  qed
  have "holds_chain S cd (jn_identity j) (jn_records j @ [r]) d' \<and> rd_record_temps d' = [] \<and> jr_payload r = payload \<and>
      jr_sequence r = of_nat (Suc (length (jn_records j)))"
  proof (cases "jn_head_dirty j")
    case False
    then show ?thesis using step st
      by (intro clean [of j d]) (auto simp: append_journal_def append_checks_Inr split: sum.splits)
  next
    case True
    obtain hres k e where head: "publish_head S cd j (ap_dirty_head io) d = (hres, k, e)" by (metis prod_cases3)
    have h: "hres = Inr ()" "append_clean S cd k phase subject payload io e = (Inr r, j', d')"
      using step True head by (auto simp: append_journal_def split: sum.splits)
    have bytes: "jn_record_bytes j = of_nat (bytes_of cd (jn_records j))" using st by (simp add: in_step_def)
    have "holds_chain S cd (jn_identity j) (jn_records j) d" using st by (simp add: in_step_def)
    note fits = holds_chain_fits [OF this ne]
    have "in_step S cd k e \<and> jn_records k = jn_records j \<and> jn_identity k = jn_identity j"
      using st h(1) by (cases rule: publish_head_cases [OF ok ne bytes fits head]) (auto simp: in_step_def holds_chain_def)
    then show ?thesis using step h
      by (intro clean [of k e]) (auto simp: append_journal_def append_checks_Inr split: sum.splits)
  qed
  then show "holds_chain S cd (jn_identity j) (jn_records j @ [r]) d'" and "rd_record_temps d' = []"
    and "jr_payload r = payload" and "jr_sequence r = of_nat (Suc (length (jn_records j)))" by simp_all
qed

lemma open_journal_loads:
  assumes "open_journal S cd i io d = (Inr j, e)"
  shows "\<exists>t. load_chain S cd i d = Inr (jn_records j, t)" and "jn_identity j = i"
  using assms
  by (auto simp: open_journal_def finish_open_def load_and_recover_def empty_handle_def Let_def result_iffs
      split: sum.splits prod.splits)

lemma commit_appends:
  assumes "commit_snapshot S cd st token v io disk = (res, st', disk')" and "next_snapshot S st token v = Inr n"
    and "append_journal (JOURNAL S) (sc_journal cd) (st_journal st) (SNAPSHOT_PHASE S) None (Some n) (cm_append io) (sd_run disk) =
      (ares, j, run)"
  shows "sd_run disk' = run" and "\<And>e. ares = Inl e \<Longrightarrow> res = Inl (JournalFailed e) \<and> st' = st\<lparr>st_journal := j\<rparr> \<and>
      disk' = disk\<lparr>sd_run := run\<rparr>"
    and "\<And>r. ares = Inr r \<Longrightarrow> \<exists>lres l. write_locator S cd (advance_locator (st_locator st) n (last_mac (jn_records j)))
      (cm_locator io) (sd_locator disk) = (lres, l, sd_locator disk') \<and> (\<forall>e. lres = Inl e \<longrightarrow> res = Inl e) \<and> (\<forall>u. lres = Inr u \<longrightarrow> res = Inr n)"
  using assms by (auto simp: commit_snapshot_def split: sum.splits prod.splits)

lemma write_locator_no_journal_error: "write_locator S cd l outcome f \<noteq> (Inl (JournalFailed e), l', f')"
proof
  assume w: "write_locator S cd l outcome f = (Inl (JournalFailed e), l', f')"
  have a: "validate_anchors i as x y \<noteq> Inl (JournalFailed e)" for i as x y
    by (induction as arbitrary: x y) (auto simp: and_then_Inl_iff ensure_Inl_iff ok_or_Inl_iff)
  have "validate_locator S l k \<noteq> Inl (JournalFailed e)" for k
    using a by (auto simp: validate_locator_def validate_prior_anchor_def and_then_Inl_iff ensure_Inl_iff ok_or_Inl_iff Let_def split: if_splits)
  with w show False
    by (cases outcome) (auto simp: write_locator_def Let_def and_then_Inl_iff ok_or_Inl_iff split: sum.splits if_splits)
qed

lemma write_locator_keeps:
  assumes "write_locator S cd l outcome f = (res, l', f')" and "f' = Some x"
    and "f = None \<or> (\<exists>y. f = Some y \<and> lc_active_start_generation y = lc_active_start_generation l \<and>
      lc_active_identity y = lc_active_identity l)"
  shows "lc_active_start_generation x = lc_active_start_generation l \<and> lc_active_identity x = lc_active_identity l"
  using assms
  by (cases outcome) (auto simp: write_locator_def Let_def split: sum.splits if_splits)

lemma scan_stops_at:
  assumes "\<And>p. \<exists>e. record_snapshot S start p r = Inl e"
  shows "\<exists>e. scan_snapshots S start p c (rs @ [r]) = Inl e"
proof (induction rs arbitrary: p c)
  case Nil
  obtain e where "record_snapshot S start p r = Inl e" using assms by blast
  then show ?case by simp
next
  case (Cons q rs)
  then show ?case by (cases "record_snapshot S start p q") simp_all
qed

lemma stale_generation_refused:
  assumes "unat g + 1 = unat start + n" and "n + 8 < 2 ^ 64" and "jr_sequence r = of_nat (Suc (Suc n))"
    and "jr_payload r = Some x" and "unat (sp_generation x) = unat g + 1"
  shows "\<exists>e. record_snapshot S start p r = Inl e"
proof (cases "record_snapshot S start p r")
  case (Inr y)
  have "unat (of_nat (Suc (Suc n)) :: u64) = Suc (Suc n)" using assms(2) by (simp only: unat_of_nat_u64)
  then have "unat (saturating_sub (jr_sequence r) 1) = Suc n"
    using assms(3) by (simp add: unat_saturating_sub del: of_nat_Suc)
  moreover from Inr assms(4) have "checked_add start (saturating_sub (jr_sequence r) 1) = Some (sp_generation x)"
    by (auto simp: record_snapshot_def result_iffs)
  ultimately show ?thesis using assms(1,5) by (simp add: checked_add_Some_iff)
qed blast

lemma failed_commit_leaves:
  assumes ok: "snapshot_codec_ok S cd" and st: "store_ok S cd retained st disk"
    and first: "commit_snapshot S cd st token v io disk = (Inl (JournalFailed HeadWriteFailed), st1, disk1)"
    and published: "ap_publish (cm_append io) = Publish_Done"
  obtains j1 run1 r1 where "st1 = st\<lparr>st_journal := j1\<rparr>" and "disk1 = disk\<lparr>sd_run := run1\<rparr>"
    and "jn_records j1 = jn_records (st_journal st) @ [r1]" and "jn_identity j1 = jn_identity (st_journal st)"
    and "in_step (JOURNAL S) (sc_journal cd) j1 run1"
proof -
  let ?rs = "jn_records (st_journal st)" and ?i = "jn_identity (st_journal st)"
  have cok: "codec_ok (JOURNAL S) (sc_journal cd)"
    and set: "in_order (JOURNAL S) (sc_journal cd) (st_journal st) (sd_run disk)"
    using ok st by (simp_all add: snapshot_codec_ok_def store_ok_def)
  obtain n1 where n1: "next_snapshot S st token v = Inr n1"
    using first by (cases "next_snapshot S st token v") (auto simp: commit_snapshot_def next_snapshot_def result_iffs and_then_Inl_iff ensure_Inl_iff ok_or_Inl_iff)
  obtain ares j1 run1 where app1: "append_journal (JOURNAL S) (sc_journal cd) (st_journal st) (SNAPSHOT_PHASE S) None (Some n1)
      (cm_append io) (sd_run disk) = (ares, j1, run1)" by (metis prod_cases3)
  note C1 = commit_appends [OF first n1 app1]
  have "ares = Inl HeadWriteFailed"
  proof (cases ares)
    case (Inr r)
    with C1(3) obtain lres l where "write_locator S cd (advance_locator (st_locator st) n1 (last_mac (jn_records j1)))
      (cm_locator io) (sd_locator disk) = (lres, l, sd_locator disk1)" "lres = Inl (JournalFailed HeadWriteFailed)"
      by (metis Inl_inject Inr_not_Inl sum.exhaust)
    then show ?thesis using write_locator_no_journal_error by blast
  qed (use C1(2) in auto)
  with C1(2) have st1: "st1 = st\<lparr>st_journal := j1\<rparr>" "disk1 = disk\<lparr>sd_run := run1\<rparr>" by simp_all
  obtain r1 where j1: "jn_records j1 = ?rs @ [r1]" "jn_identity j1 = ?i" "in_step (JOURNAL S) (sc_journal cd) j1 run1"
    by (rule failed_head_leaves [OF cok set published app1 [unfolded \<open>ares = Inl HeadWriteFailed\<close>]])
  from that [OF st1 j1] show ?thesis .
qed

lemma recommit_leaves:
  assumes ok: "snapshot_codec_ok S cd" and st: "store_ok S cd retained st disk"
    and first: "commit_snapshot S cd st token v io disk = (Inl (JournalFailed HeadWriteFailed), st1, disk1)"
    and published: "ap_publish (cm_append io) = Publish_Done"
    and second: "commit_snapshot S cd st1 token' v' io' disk1 = (Inr n, st2, disk2)"
  obtains r1 r2 where
    "load_chain (JOURNAL S) (sc_journal cd) (jn_identity (st_journal st)) (sd_run disk2) =
       Inr ((jn_records (st_journal st) @ [r1]) @ [r2], of_nat (bytes_of (sc_journal cd) ((jn_records (st_journal st) @ [r1]) @ [r2])))"
    and "\<forall>p. \<exists>e. record_snapshot S (lc_active_start_generation (st_locator st)) p r2 = Inl e"
    and "\<forall>l. sd_locator disk2 = Some l \<longrightarrow> lc_active_start_generation l = lc_active_start_generation (st_locator st) \<and>
      lc_active_identity l = jn_identity (st_journal st)"
proof -
  note F = store_ok_facts [OF ok st]
  let ?rs = "jn_records (st_journal st)" and ?i = "jn_identity (st_journal st)"
  have cok: "codec_ok (JOURNAL S) (sc_journal cd)" using ok by (simp add: snapshot_codec_ok_def)
  obtain j1 run1 r1 where st1: "st1 = st\<lparr>st_journal := j1\<rparr>" "disk1 = disk\<lparr>sd_run := run1\<rparr>"
    and j1: "jn_records j1 = ?rs @ [r1]" "jn_identity j1 = ?i" "in_step (JOURNAL S) (sc_journal cd) j1 run1"
    by (rule failed_commit_leaves [OF ok st first published])
  obtain n2 where n2: "next_snapshot S st1 token' v' = Inr n2"
    using second by (cases "next_snapshot S st1 token' v'") (auto simp: commit_snapshot_def)
  obtain bres j2 run2 where app2: "append_journal (JOURNAL S) (sc_journal cd) j1 (SNAPSHOT_PHASE S) None (Some n2)
      (cm_append io') run1 = (bres, j2, run2)" by (metis prod_cases3)
  have "append_journal (JOURNAL S) (sc_journal cd) (st_journal st1) (SNAPSHOT_PHASE S) None (Some n2) (cm_append io')
      (sd_run disk1) = (bres, j2, run2)" using app2 by (simp add: st1)
  note C2 = commit_appends [OF second n2 this]
  obtain r2 where r2: "bres = Inr r2" using C2(2) by (cases bres) auto
  have ne: "jn_records j1 \<noteq> []" using j1 by simp
  note S = append_success [OF cok j1(3) ne app2 [unfolded r2]]
  have gen: "unat (sp_generation n2) = unat (sp_generation (st_current st)) + 1"
  proof -
    have "checked_add (sp_generation (st_current st)) 1 = Some (sp_generation n2)"
      using n2 by (auto simp: next_snapshot_def result_iffs st1)
    from checked_add_one_Some [OF this] show ?thesis by simp
  qed
  have start: "lc_active_start_generation l = lc_active_start_generation (st_locator st) \<and> lc_active_identity l = ?i"
    if "sd_locator disk2 = Some l" for l
  proof -
    obtain lres l2 where w: "write_locator S cd (advance_locator (st_locator st) n2 (last_mac (jn_records j2))) (cm_locator io')
        (sd_locator disk) = (lres, l2, sd_locator disk2)"
      using C2(3) [OF r2] by (auto simp: st1)
    have "sd_locator disk = Some (st_locator st)" using st by (simp add: store_ok_def)
    from write_locator_keeps [OF w that] this F(4) show ?thesis by (simp add: advance_locator_def)
  qed
  have "\<exists>e. record_snapshot S (lc_active_start_generation (st_locator st)) p r2 = Inl e" for p
    using S(3,4) j1(1) gen by (intro stale_generation_refused [OF F(5,2)]) simp_all
  moreover have "load_chain (JOURNAL S) (sc_journal cd) ?i (sd_run disk2) =
      Inr ((?rs @ [r1]) @ [r2], of_nat (bytes_of (sc_journal cd) ((?rs @ [r1]) @ [r2])))"
    using S(1,2) j1 unfolding C2(1) by (intro load_chain_ok [OF cok]) auto
  ultimately show ?thesis using start that by blast
qed

section \<open>A sample store\<close>

definition SampleSnapshotSpec :: snapshot_spec where
  "SampleSnapshotSpec = \<lparr>JOURNAL = CheckpointJournalSpec, SNAPSHOT_FORMAT_VERSION = 1, SNAPSHOT_PHASE = ''snapshot''\<rparr>"

definition sample_store_codec :: "nat snapshot_codec" where
  "sample_store_codec =
     \<lparr>sc_journal = \<lparr>cd_sign = (\<lambda>m. Some (replicate 64 (CHR ''1''))), cd_record_len = (\<lambda>_. 100), cd_head_len = (\<lambda>_. 50)\<rparr>,
      sc_sign_locator = (\<lambda>_. Some (replicate 64 (CHR ''2''))), sc_locator_len = (\<lambda>_. 200), sc_bound = (\<lambda>_. True)\<rparr>"

definition sample_snapshot :: "nat authenticated_snapshot" where
  "sample_snapshot = \<lparr>sp_version = 1, sp_generation = 1, sp_token = 5, sp_value = 7\<rparr>"

definition sample_store :: "nat snapshot_store" where
  "sample_store =
     \<lparr>st_journal = \<lparr>jn_identity = sample_identity, jn_records = [\<lparr>jr_version = 3, jr_identity = sample_identity,
        jr_sequence = 1, jr_previous_mac = zero_tag, jr_phase = ''snapshot'', jr_subject = None,
        jr_payload = Some sample_snapshot, jr_mac = replicate 64 (CHR ''1'')\<rparr>], jn_record_bytes = 100, jn_head_dirty = False\<rparr>,
      st_logical_id = ''claims'',
      st_locator = (initial_locator SampleSnapshotSpec ''claims'' sample_identity 5 (replicate 64 (CHR ''1'')))\<lparr>lc_mac := replicate 64 (CHR ''2'')\<rparr>,
      st_current = sample_snapshot\<rparr>"

definition sample_disk :: "nat store_disk" where
  "sample_disk =
     \<lparr>sd_run = \<lparr>rd_identity = \<lparr>fi_device = 1, fi_file = 4\<rparr>,
        rd_records = [(1, \<lparr>rf_bytes = 100, rf_record = Some (hd (jn_records (st_journal sample_store)))\<rparr>)],
        rd_record_temps = [], rd_head_temps = 0,
        rd_head = Some \<lparr>hf_bytes = 50, hf_head = Some \<lparr>jh_version = 3, jh_identity = sample_identity, jh_sequence = 1,
          jh_last_record_mac = replicate 64 (CHR ''1''), jh_record_bytes = 100, jh_mac = replicate 64 (CHR ''1'')\<rparr>\<rparr>\<rparr>,
      sd_locator = Some (st_locator sample_store)\<rparr>"

lemma sample_snapshot_phase: "validate_phase CheckpointJournalSpec ''snapshot'' = Inr ()"
  by code_simp

lemma sample_store_codec_ok: "snapshot_codec_ok SampleSnapshotSpec sample_store_codec"
  by (simp add: snapshot_codec_ok_def SampleSnapshotSpec_def sample_store_codec_def sample_spec_valid sample_snapshot_phase
      codec_ok_def sample_hex checkpoint_limits)

lemma sample_logical_id: "validate_logical_id SampleSnapshotSpec ''claims'' = Inr ()"
  by code_simp

lemma sample_store_ok: "store_ok SampleSnapshotSpec sample_store_codec retained sample_store sample_disk"
proof -
  have v: "validate_optional_subject CheckpointJournalSpec None = Inr ()" by (simp add: validate_optional_subject_def)
  have "in_order CheckpointJournalSpec (sc_journal sample_store_codec) (st_journal sample_store) (sd_run sample_disk)"
    by (simp add: in_order_def holds_chain_def head_of_def sample_store_def sample_disk_def checkpoint_limits last_mac_def
        validate_record_def sample_snapshot_phase v verify_tag_def sample_hex sample_store_codec_def record_mac_payload_def
        head_mac_payload_def sample_identity_valid) (simp add: sample_identity_def)
  moreover have "locator_for SampleSnapshotSpec sample_store_codec ''claims'' (jn_records (st_journal sample_store)) sample_snapshot
      (st_locator sample_store)"
    using sample_logical_id
    by (simp add: locator_for_def bounded_locator_def sample_identity_valid decode_locator_Inr validate_locator_def sample_store_def sample_hex initial_locator_def
        SampleSnapshotSpec_def sample_store_codec_def active_records_def checked_sub_def checked_add_code validate_prior_anchor_def
        checkpoint_limits last_mac_def sample_snapshot_def)
  moreover have "journal_current SampleSnapshotSpec (st_journal sample_store) (st_locator sample_store) = Inr sample_snapshot"
    by (simp add: journal_current_def record_snapshot_def sample_store_def initial_locator_def SampleSnapshotSpec_def
        sample_snapshot_def checked_add_code saturating_sub_def)
  ultimately show ?thesis
    by (simp add: store_ok_def sample_logical_id [unfolded SampleSnapshotSpec_def] sample_identity_valid sample_store_def sample_disk_def initial_locator_def
        SampleSnapshotSpec_def)
qed

definition failing_head_io :: commit_io where
  "failing_head_io = \<lparr>cm_append = done_io\<lparr>ap_head := Replace_Refused\<rparr>, cm_locator = Locator_Done\<rparr>"

definition done_commit_io :: commit_io where
  "done_commit_io = \<lparr>cm_append = done_io, cm_locator = Locator_Done\<rparr>"

lemma sample_directory_identity: "ji_run_directory_identity sample_identity = \<lparr>fi_device = 1, fi_file = 4\<rparr>"
  by (simp add: sample_identity_def)

lemmas sample_commit_simps = sample_directory_identity
  commit_snapshot_def next_snapshot_def append_journal_def append_checks_def append_clean_def next_record_def append_record_def
  durable_publish_no_replace_def publish_head_def write_head_def new_head_def sign_head_def durable_replace_def
  verify_boundaries_def validate_record_size_def failing_head_io_def done_commit_io_def done_io_def sample_store_def
  sample_disk_def sample_store_codec_def sample_snapshot_def SampleSnapshotSpec_def checkpoint_limits sample_snapshot_phase
  validate_optional_subject_def checked_add_code bt_get_def last_mac_def

lemma sample_first_commit:
  "fst (commit_snapshot SampleSnapshotSpec sample_store_codec sample_store 6 8 failing_head_io sample_disk) =
     Inl (JournalFailed HeadWriteFailed)"
  by (simp add: sample_commit_simps Let_def)

lemma sample_second_commit:
  "fst (commit_snapshot SampleSnapshotSpec sample_store_codec
      (fst (snd (commit_snapshot SampleSnapshotSpec sample_store_codec sample_store 6 8 failing_head_io sample_disk))) 6 8 done_commit_io
      (snd (snd (commit_snapshot SampleSnapshotSpec sample_store_codec sample_store 6 8 failing_head_io sample_disk)))) =
     Inr \<lparr>sp_version = 1, sp_generation = 2, sp_token = 6, sp_value = 8\<rparr>"
  by (simp add: sample_commit_simps Let_def write_locator_def advance_locator_def validate_locator_def sample_hex initial_locator_def
      active_records_def checked_sub_def validate_prior_anchor_def)

section \<open>Properties\<close>

text \<open>C37. Committing again on a handle whose journal head could not be written destroys the store silently: if a
  commit failed because only the journal head could not be written, and a further commit on the same handle reports
  success, then no later open of the store succeeds, whatever its own writes do. The handle's current snapshot stays
  at the old generation while its journal already holds the next one, so the further commit publishes that generation
  number a second time.\<close>

theorem recommit_after_failed_head_closes_store:
  assumes ok: "snapshot_codec_ok S cd" and st: "store_ok S cd retained st disk"
    and first: "commit_snapshot S cd st token v io disk = (Inl (JournalFailed HeadWriteFailed), st1, disk1)"
    and published: "ap_publish (cm_append io) = Publish_Done"
    and second: "commit_snapshot S cd st1 token' v' io' disk1 = (Inr n, st2, disk2)"
  shows "\<exists>e disk3. open_store S cd retained (st_logical_id st) io'' disk2 = (Inl e, disk3)"
proof -
  let ?rs = "jn_records (st_journal st)"
  obtain r1 r2 where load: "load_chain (JOURNAL S) (sc_journal cd) (jn_identity (st_journal st)) (sd_run disk2) =
       Inr ((?rs @ [r1]) @ [r2], of_nat (bytes_of (sc_journal cd) ((?rs @ [r1]) @ [r2])))"
    and bad: "\<forall>p. \<exists>e. record_snapshot S (lc_active_start_generation (st_locator st)) p r2 = Inl e"
    and start: "\<forall>l. sd_locator disk2 = Some l \<longrightarrow> lc_active_start_generation l = lc_active_start_generation (st_locator st) \<and>
      lc_active_identity l = jn_identity (st_journal st)"
    by (rule recommit_leaves [OF ok st first published second])
  have current: "\<exists>e. journal_current S j l = Inl e" if rs: "jn_records j = (?rs @ [r1]) @ [r2]" and l: "sd_locator disk2 = Some l" for j l
  proof -
    obtain e where "scan_snapshots S (lc_active_start_generation l) (lc_prior_token l) None ((?rs @ [r1]) @ [r2]) = Inl e"
      using scan_stops_at [OF bad [rule_format], where rs = "?rs @ [r1]"] start [rule_format, OF l] by metis
    then show ?thesis using rs by (cases "jn_identity j = lc_active_identity l") (simp_all add: journal_current_def)
  qed
  show ?thesis
  proof (cases "open_store S cd retained (st_logical_id st) io'' disk2")
    case (Pair res disk3)
    show ?thesis
    proof (cases res)
      case (Inr st3)
      then obtain l j run3 where l: "sd_locator disk2 = Some l"
        and op: "open_journal (JOURNAL S) (sc_journal cd) (lc_active_identity l) (op_load io'') (sd_run disk2) = (Inr j, run3)"
        and from_j: "fst (from_journal S cd j (st_logical_id st) l (op_locator io'') (sd_locator disk2)) = Inr st3"
        using Pair by (auto simp: open_store_def read_locator_def decode_locator_Inr result_iffs split: sum.splits prod.splits)
      have "jn_records j = (?rs @ [r1]) @ [r2]"
        using open_journal_loads(1) [OF op] load start [rule_format, OF l] by auto
      from current [OF this l] from_j show ?thesis by (auto simp: from_journal_def)
    qed (use Pair in auto)
  qed
qed

theorem recommit_after_failed_head_closes_store_witness:
  "\<exists>e disk3. open_store SampleSnapshotSpec sample_store_codec (\<lambda>_. None) ''claims'' clean_open
     (snd (snd (commit_snapshot SampleSnapshotSpec sample_store_codec
       (fst (snd (commit_snapshot SampleSnapshotSpec sample_store_codec sample_store 6 8 failing_head_io sample_disk))) 6 8 done_commit_io
       (snd (snd (commit_snapshot SampleSnapshotSpec sample_store_codec sample_store 6 8 failing_head_io sample_disk)))))) = (Inl e, disk3)"
proof -
  let ?c1 = "commit_snapshot SampleSnapshotSpec sample_store_codec sample_store 6 8 failing_head_io sample_disk"
  let ?c2 = "commit_snapshot SampleSnapshotSpec sample_store_codec (fst (snd ?c1)) 6 8 done_commit_io (snd (snd ?c1))"
  have first: "?c1 = (Inl (JournalFailed HeadWriteFailed), fst (snd ?c1), snd (snd ?c1))"
    using sample_first_commit by (metis prod.collapse)
  have second: "?c2 = (Inr \<lparr>sp_version = 1, sp_generation = 2, sp_token = 6, sp_value = 8\<rparr>, fst (snd ?c2), snd (snd ?c2))"
    using sample_second_commit by (metis prod.collapse)
  have "ap_publish (cm_append failing_head_io) = Publish_Done" by (simp add: failing_head_io_def done_io_def)
  from recommit_after_failed_head_closes_store [OF sample_store_codec_ok sample_store_ok first this second,
      of "\<lambda>_. None" clean_open]
  show ?thesis by (simp add: sample_store_def [THEN arg_cong [of _ _ st_logical_id]])
qed

end
