(* ===== verification/Effect_WAL.thy ===== *)
theory Effect_WAL
  imports Snapshot_Store "HOL-Library.Sublist"
begin

text \<open>
  The write-ahead log of externally visible effects (\<^verbatim>\<open>src/src/effect_wal.rs\<close>): every effect
  passes through planned, started, observed and completed, and the whole event sequence with its phase index is one
  snapshot of the authenticated store.

  The lemmas show what a valid log is (each effect's phases in order and none repeated, so no effect is started
  twice), that a transition is accepted exactly when it continues the effect's history, and that an interrupted
  transition leaves a log that opens with the old or the new history.
\<close>

section \<open>Data\<close>

record effect_wal_spec =
  SNAPSHOT :: snapshot_spec
  EFFECT_FORMAT_VERSION :: u32

definition DefaultEffectWalSpec :: effect_wal_spec where
  "DefaultEffectWalSpec =
     \<lparr>SNAPSHOT = \<lparr>JOURNAL =
        \<lparr>FORMAT_VERSION = 1, NAMESPACE = ''effect_wal'', ROOT_NAME = ''authenticated-effect-wals-v1'',
         ROOT_LOCK_NAME = ''.effect-wals.lock'', INSTANCE_LOCK_NAME = ''.effect-wal.lock'', HEAD_FILE_NAME = ''.head.json'',
         MAX_RECORDS = 4096, MAX_RECORD_BYTES = 4 * 1024 * 1024, MAX_TOTAL_BYTES = 64 * 1024 * 1024,
         MAX_PHASE_BYTES = 32, MAX_SUBJECT_BYTES = 256, MAX_INSTANCE_ID_BYTES = 128\<rparr>,
        SNAPSHOT_FORMAT_VERSION = 1, SNAPSHOT_PHASE = ''snapshot''\<rparr>,
      EFFECT_FORMAT_VERSION = 1\<rparr>"

datatype effect_phase = Planned | Started | Observed | Completed

fun follows :: "effect_phase \<Rightarrow> effect_phase option \<Rightarrow> bool" where
  "follows Planned None = True"
| "follows Started (Some Planned) = True"
| "follows Observed (Some Started) = True"
| "follows Completed (Some Observed) = True"
| "follows _ _ = False"

record 'd effect_event =
  ev_version :: u32
  ev_sequence :: u64
  ev_effect_id :: string
  ev_phase :: effect_phase
  ev_data :: 'd

record 'd effect_wal_state =
  ws_version :: u32
  ws_logical_id :: string
  ws_events :: "'d effect_event list"
  ws_phases :: "(string, effect_phase) btree_map"

type_synonym 'd effect_wal = "'d effect_wal_state snapshot_store"

datatype effect_wal_error =
    LogicalIdMalformed
  | EffectIdMalformed
  | SkipsPhase
  | WalSequenceExhausted
  | EventCountExceeded
  | WalMalformed
  | EventInvalid
  | PhaseIndexMismatch
  | TokenMismatch
  | PayloadUnencodable
  | AuthenticatorFailed
  | StoreFailed snapshot_error

definition effect_phase_is_nonterminal :: "effect_phase \<Rightarrow> bool" where
  "effect_phase_is_nonterminal p \<longleftrightarrow> p = Planned \<or> p = Started \<or> p = Observed"

definition wal_state :: "'d effect_wal \<Rightarrow> 'd effect_wal_state" where
  "wal_state w = sp_value (st_current w)"

definition effect_wal_has_nonterminal_operations :: "'d effect_wal \<Rightarrow> bool" where
  "effect_wal_has_nonterminal_operations w \<longleftrightarrow> list_ex effect_phase_is_nonterminal (map snd (ws_phases (wal_state w)))"

definition wal_phase :: "'d effect_wal \<Rightarrow> string \<Rightarrow> effect_phase option" where
  "wal_phase w effect_id = bt_get (ws_phases (wal_state w)) effect_id"

section \<open>Validation\<close>

definition validate_effect_logical_id :: "effect_wal_spec \<Rightarrow> string \<Rightarrow> effect_wal_error + unit" where
  "validate_effect_logical_id S logical_id =
     ensure (logical_id \<noteq> [] \<and> length logical_id \<le> unat (MAX_INSTANCE_ID_BYTES (JOURNAL (SNAPSHOT S)))
       \<and> logical_id \<noteq> ''.'' \<and> logical_id \<noteq> ''..'' \<and> list_all safe_id_byte logical_id) LogicalIdMalformed"

definition validate_effect_id :: "effect_wal_spec \<Rightarrow> string \<Rightarrow> effect_wal_error + unit" where
  "validate_effect_id S effect_id =
     ensure (effect_id \<noteq> [] \<and> length effect_id \<le> unat (MAX_SUBJECT_BYTES (JOURNAL (SNAPSHOT S)))) EffectIdMalformed"

definition replay_effect_event ::
  "effect_wal_spec \<Rightarrow> nat \<Rightarrow> (string, effect_phase) btree_map \<Rightarrow> 'd effect_event \<Rightarrow>
    effect_wal_error + (string, effect_phase) btree_map" where
  "replay_effect_event S index phases ev =
     and_then (validate_effect_id S (ev_effect_id ev)) (\<lambda>_.
     and_then (ok_or (checked_add (of_nat index) 1) WalSequenceExhausted) (\<lambda>sequence.
     and_then (ensure (ev_version ev = EFFECT_FORMAT_VERSION S \<and> ev_sequence ev = sequence
       \<and> follows (ev_phase ev) (bt_get phases (ev_effect_id ev))) EventInvalid) (\<lambda>_.
     Inr (bt_insert (ev_effect_id ev) (ev_phase ev) phases))))"

fun replay_effect_events ::
  "effect_wal_spec \<Rightarrow> nat \<Rightarrow> (string, effect_phase) btree_map \<Rightarrow> 'd effect_event list \<Rightarrow>
    effect_wal_error + (string, effect_phase) btree_map" where
  "replay_effect_events S index phases [] = Inr phases"
| "replay_effect_events S index phases (ev # evs) =
     and_then (replay_effect_event S index phases ev) (\<lambda>phases. replay_effect_events S (Suc index) phases evs)"

definition validate_effect_state :: "effect_wal_spec \<Rightarrow> 'd effect_wal_state \<Rightarrow> string \<Rightarrow> effect_wal_error + unit" where
  "validate_effect_state S s logical_id =
     and_then (validate_effect_logical_id S logical_id) (\<lambda>_.
     and_then (ensure (ws_version s = EFFECT_FORMAT_VERSION S \<and> ws_logical_id s = logical_id \<and> ws_events s \<noteq> []
       \<and> length (ws_events s) \<le> unat (MAX_RECORDS (JOURNAL (SNAPSHOT S)))
       \<and> length (ws_phases s) \<le> unat (MAX_RECORDS (JOURNAL (SNAPSHOT S)))) WalMalformed) (\<lambda>_.
     and_then (replay_effect_events S 0 [] (ws_events s)) (\<lambda>phases.
     ensure (phases = ws_phases s) PhaseIndexMismatch)))"

definition wal_validate :: "effect_wal_spec \<Rightarrow> 'd effect_wal \<Rightarrow> effect_wal_error + unit" where
  "wal_validate S w =
     and_then (validate_effect_state S (wal_state w) (st_logical_id w)) (\<lambda>_.
     ensure (sp_token (st_current w) = of_nat (length (ws_events (wal_state w)))) TokenMismatch)"

section \<open>Operations\<close>

text \<open>The payload argument of an operation is the outcome of encoding the caller's data as a JSON value. The result of
  reserving a journal instance for a new store is the argument \<open>reserved\<close>; it is an error where the store exists.\<close>

definition next_event_sequence :: "'d effect_wal \<Rightarrow> effect_wal_error + u64" where
  "next_event_sequence w = ok_or (checked_add (of_nat (length (ws_events (wal_state w)))) 1) WalSequenceExhausted"

definition next_wal_state ::
  "effect_wal_spec \<Rightarrow> 'd effect_wal \<Rightarrow> string \<Rightarrow> effect_phase \<Rightarrow> 'd option \<Rightarrow> effect_wal_error + u64 \<times> 'd effect_wal_state" where
  "next_wal_state S w effect_id phase data =
     and_then (validate_effect_id S effect_id) (\<lambda>_.
     and_then (ensure (follows phase (wal_phase w effect_id)) SkipsPhase) (\<lambda>_.
     and_then (next_event_sequence w) (\<lambda>sequence.
     and_then (ensure (unat sequence \<le> unat (MAX_RECORDS (JOURNAL (SNAPSHOT S)))) EventCountExceeded) (\<lambda>_.
     and_then (ok_or data PayloadUnencodable) (\<lambda>data.
     let next = (wal_state w)\<lparr>ws_events := ws_events (wal_state w) @ [\<lparr>ev_version = EFFECT_FORMAT_VERSION S,
         ev_sequence = sequence, ev_effect_id = effect_id, ev_phase = phase, ev_data = data\<rparr>],
       ws_phases := bt_insert effect_id phase (ws_phases (wal_state w))\<rparr> in
     and_then (validate_effect_state S next (ws_logical_id (wal_state w))) (\<lambda>_. Inr (sequence, next)))))))"

definition transition ::
  "effect_wal_spec \<Rightarrow> 'd effect_wal_state snapshot_codec \<Rightarrow> 'd effect_wal \<Rightarrow> string \<Rightarrow> effect_phase \<Rightarrow> 'd option \<Rightarrow> commit_io \<Rightarrow>
    'd effect_wal_state store_disk \<Rightarrow> (effect_wal_error + unit) \<times> 'd effect_wal \<times> 'd effect_wal_state store_disk" where
  "transition S cd w effect_id phase data io disk =
     (case next_wal_state S w effect_id phase data of
        Inl e \<Rightarrow> (Inl e, w, disk)
      | Inr (sequence, next) \<Rightarrow>
          (case commit_snapshot (SNAPSHOT S) cd w sequence next io disk of
             (Inl e, w, disk) \<Rightarrow> (Inl (StoreFailed e), w, disk)
           | (Inr c, w, disk) \<Rightarrow> (wal_validate S w, w, disk)))"

definition initial_wal_state :: "effect_wal_spec \<Rightarrow> string \<Rightarrow> string \<Rightarrow> 'd \<Rightarrow> 'd effect_wal_state" where
  "initial_wal_state S logical_id effect_id data =
     \<lparr>ws_version = EFFECT_FORMAT_VERSION S, ws_logical_id = logical_id,
      ws_events = [\<lparr>ev_version = EFFECT_FORMAT_VERSION S, ev_sequence = 1, ev_effect_id = effect_id, ev_phase = Planned,
        ev_data = data\<rparr>],
      ws_phases = bt_insert effect_id Planned []\<rparr>"

definition planned where "planned S cd w effect_id = transition S cd w effect_id Planned"
definition started where "started S cd w effect_id = transition S cd w effect_id Started"
definition observed where "observed S cd w effect_id = transition S cd w effect_id Observed"
definition completed where "completed S cd w effect_id = transition S cd w effect_id Completed"

definition create_planned ::
  "effect_wal_spec \<Rightarrow> 'd effect_wal_state snapshot_codec \<Rightarrow> snapshot_error + 'd effect_wal_state snapshot_payload state_journal \<Rightarrow>
    string \<Rightarrow> string \<Rightarrow> 'd option \<Rightarrow> commit_io \<Rightarrow> 'd effect_wal_state store_disk \<Rightarrow>
    (effect_wal_error + 'd effect_wal) \<times> 'd effect_wal_state store_disk" where
  "create_planned S cd reserved logical_id effect_id data io disk =
     (case and_then (validate_effect_logical_id S logical_id) (\<lambda>_.
        and_then (validate_effect_id S effect_id) (\<lambda>_.
        and_then (ok_or data PayloadUnencodable) (\<lambda>data.
        let state = initial_wal_state S logical_id effect_id data in
        and_then (validate_effect_state S state logical_id) (\<lambda>_. Inr state)))) of
        Inl e \<Rightarrow> (Inl e, disk)
      | Inr state \<Rightarrow>
          (case reserved of
             Inl e \<Rightarrow> (Inl (StoreFailed e), disk)
           | Inr j \<Rightarrow>
               (case create_store (SNAPSHOT S) cd j logical_id 1 state io disk of
                  (Inl e, disk) \<Rightarrow> (Inl (StoreFailed e), disk)
                | (Inr w, disk) \<Rightarrow> (and_then (wal_validate S w) (\<lambda>_. Inr w), disk))))"

definition open_wal ::
  "effect_wal_spec \<Rightarrow> 'd effect_wal_state snapshot_codec \<Rightarrow>
    (journal_identity \<Rightarrow> 'd effect_wal_state snapshot_payload journal_record list option) \<Rightarrow> string \<Rightarrow> open_io \<Rightarrow>
    'd effect_wal_state store_disk \<Rightarrow> (effect_wal_error + 'd effect_wal) \<times> 'd effect_wal_state store_disk" where
  "open_wal S cd retained logical_id io disk =
     (case validate_effect_logical_id S logical_id of
        Inl e \<Rightarrow> (Inl e, disk)
      | Inr u \<Rightarrow>
          (case open_store (SNAPSHOT S) cd retained logical_id io disk of
             (Inl e, disk) \<Rightarrow> (Inl (StoreFailed e), disk)
           | (Inr w, disk) \<Rightarrow> (and_then (wal_validate S w) (\<lambda>_. Inr w), disk)))"

text \<open>\<open>None\<close> stands for a store that was never initialized.\<close>

definition open_when_initialized ::
  "effect_wal_spec \<Rightarrow> 'd effect_wal_state snapshot_codec \<Rightarrow>
    (journal_identity \<Rightarrow> 'd effect_wal_state snapshot_payload journal_record list option) \<Rightarrow> string \<Rightarrow> bool \<Rightarrow> bool \<Rightarrow> bool \<Rightarrow> open_io \<Rightarrow>
    'd effect_wal_state store_disk \<Rightarrow> (effect_wal_error + 'd effect_wal option) \<times> 'd effect_wal_state store_disk" where
  "open_when_initialized S cd retained logical_id root_exists before after io disk =
     (case store_initialized (SNAPSHOT S) cd logical_id root_exists before after (sd_locator disk) of
        Inl e \<Rightarrow> (Inl (StoreFailed e), disk)
      | Inr initialized \<Rightarrow>
          if \<not> initialized then (Inr None, disk)
          else (case open_wal S cd retained logical_id io disk of
             (res, disk) \<Rightarrow> (and_then res (\<lambda>w. Inr (Some w)), disk)))"

text \<open>\<open>authenticators\<close> says whether the first and the second call of the authenticator succeed.\<close>

definition open_or_create_planned ::
  "effect_wal_spec \<Rightarrow> 'd effect_wal_state snapshot_codec \<Rightarrow>
    (journal_identity \<Rightarrow> 'd effect_wal_state snapshot_payload journal_record list option) \<Rightarrow> bool \<times> bool \<Rightarrow>
    snapshot_error + 'd effect_wal_state snapshot_payload state_journal \<Rightarrow> string \<Rightarrow> string \<Rightarrow> 'd option \<Rightarrow>
    commit_io \<Rightarrow> open_io \<Rightarrow> commit_io \<Rightarrow> 'd effect_wal_state store_disk \<Rightarrow>
    (effect_wal_error + 'd effect_wal) \<times> 'd effect_wal_state store_disk" where
  "open_or_create_planned S cd retained authenticators reserved logical_id effect_id data create_io open_io plan_io disk =
     (if \<not> fst authenticators then (Inl AuthenticatorFailed, disk)
      else case create_planned S cd reserved logical_id effect_id data create_io disk of
        (Inr w, disk) \<Rightarrow> (Inr w, disk)
      | (Inl create_error, disk) \<Rightarrow>
          if \<not> snd authenticators then (Inl AuthenticatorFailed, disk)
          else (case open_wal S cd retained logical_id open_io disk of
             (Inl e, disk) \<Rightarrow> (Inl e, disk)
           | (Inr w, disk) \<Rightarrow>
               if wal_phase w effect_id = None then
                 (case planned S cd w effect_id data plan_io disk of
                    (Inl e, w, disk) \<Rightarrow> (Inl e, disk)
                  | (Inr u, w, disk) \<Rightarrow> (Inr w, disk))
               else (Inr w, disk)))"

section \<open>Valid logs\<close>

definition phase_order :: "effect_phase list" where
  "phase_order = [Planned, Started, Observed, Completed]"

definition phases_of :: "'d effect_event list \<Rightarrow> string \<Rightarrow> effect_phase list" where
  "phases_of evs effect_id = map ev_phase (filter (\<lambda>e. ev_effect_id e = effect_id) evs)"

definition last_phase :: "effect_phase list \<Rightarrow> effect_phase option" where
  "last_phase ps = (if ps = [] then None else Some (last ps))"

definition event_at :: "effect_wal_spec \<Rightarrow> nat \<Rightarrow> 'd effect_event \<Rightarrow> bool" where
  "event_at S i e \<longleftrightarrow> validate_effect_id S (ev_effect_id e) = Inr () \<and> ev_version e = EFFECT_FORMAT_VERSION S \<and>
     ev_sequence e = of_nat (Suc i)"

definition orderly :: "effect_wal_spec \<Rightarrow> 'd effect_event list \<Rightarrow> bool" where
  "orderly S evs \<longleftrightarrow> (\<forall>i < length evs. event_at S i (evs ! i)) \<and> (\<forall>x. prefix (phases_of evs x) phase_order)"

definition indexes :: "(string, effect_phase) btree_map \<Rightarrow> 'd effect_event list \<Rightarrow> bool" where
  "indexes m evs \<longleftrightarrow> bt_ordered m \<and> (\<forall>x. bt_get m x = last_phase (phases_of evs x))"

lemma prefix_order_cases:
  "prefix ps phase_order \<longleftrightarrow> ps \<in> {[], [Planned], [Planned, Started], [Planned, Started, Observed], phase_order}"
  by (auto simp: phase_order_def prefix_Cons)

lemma follows_extends:
  "prefix ps phase_order \<Longrightarrow> follows p (last_phase ps) \<longleftrightarrow> prefix (ps @ [p]) phase_order"
proof -
  assume "prefix ps phase_order"
  then consider "ps = []" | "ps = [Planned]" | "ps = [Planned, Started]" | "ps = [Planned, Started, Observed]"
    | "ps = [Planned, Started, Observed, Completed]"
    unfolding prefix_order_cases unfolding phase_order_def by blast
  then show ?thesis by cases (cases p; simp add: last_phase_def phase_order_def)+
qed

lemma phases_of_snoc: "phases_of (evs @ [e]) x = phases_of evs x @ (if ev_effect_id e = x then [ev_phase e] else [])"
  by (simp add: phases_of_def)

lemma replay_effect_snoc:
  "replay_effect_events S n m (evs @ [e]) =
     and_then (replay_effect_events S n m evs) (\<lambda>m. replay_effect_event S (n + length evs) m e)"
proof (induction evs arbitrary: n m)
  case Nil
  then show ?case by (cases "replay_effect_event S n m e") simp_all
next
  case (Cons a evs)
  then show ?case by (cases "replay_effect_event S n m a") simp_all
qed

lemma orderly_snoc:
  "orderly S (evs @ [e]) \<longleftrightarrow> orderly S evs \<and> event_at S (length evs) e \<and>
     prefix (phases_of evs (ev_effect_id e) @ [ev_phase e]) phase_order"
proof -
  have ev: "(\<forall>i < length (evs @ [e]). event_at S i ((evs @ [e]) ! i)) \<longleftrightarrow>
      (\<forall>i < length evs. event_at S i (evs ! i)) \<and> event_at S (length evs) e"
    by (auto simp: nth_append less_Suc_eq)
  have "(\<forall>x. prefix (phases_of (evs @ [e]) x) phase_order) \<longleftrightarrow>
      (\<forall>x. prefix (phases_of evs x) phase_order) \<and> prefix (phases_of evs (ev_effect_id e) @ [ev_phase e]) phase_order"
    by (auto simp: phases_of_snoc dest: append_prefixD)
  with ev show ?thesis unfolding orderly_def by blast
qed

lemma indexes_snoc:
  "indexes m evs \<Longrightarrow> indexes (bt_insert (ev_effect_id e) (ev_phase e) m) (evs @ [e])"
  by (auto simp: indexes_def bt_ordered_insert bt_get_insert phases_of_snoc last_phase_def)

lemma indexes_unique: "indexes m evs \<Longrightarrow> indexes m' evs \<Longrightarrow> m = m'"
  by (intro bt_ext ext) (simp_all add: indexes_def)

lemma replay_effect_event_iff:
  assumes "indexes m evs" and "orderly S evs" and "length evs + 8 < 2 ^ 64"
  shows "replay_effect_event S (length evs) m e = Inr m' \<longleftrightarrow>
    event_at S (length evs) e \<and> prefix (phases_of evs (ev_effect_id e) @ [ev_phase e]) phase_order \<and>
    m' = bt_insert (ev_effect_id e) (ev_phase e) m"
proof -
  have "checked_add (of_nat (length evs) :: u64) 1 = Some (of_nat (Suc (length evs)))"
    using assms(3) by (simp add: next_sequence)
  moreover have "follows (ev_phase e) (bt_get m (ev_effect_id e)) \<longleftrightarrow>
      prefix (phases_of evs (ev_effect_id e) @ [ev_phase e]) phase_order"
    using assms(1,2) by (simp add: indexes_def orderly_def follows_extends)
  ultimately show ?thesis
    by (auto simp: replay_effect_event_def event_at_def result_iffs simp del: of_nat_Suc)
qed

lemma indexes_Nil: "indexes [] []"
  by (simp add: indexes_def phases_of_def last_phase_def bt_get_def)

lemma indexes_exists: "\<exists>m. indexes m evs"
proof (induction evs rule: rev_induct)
  case (snoc e evs)
  then show ?case using indexes_snoc by blast
qed (use indexes_Nil in blast)

lemma replay_effect_events_iff:
  "length evs + 8 < 2 ^ 64 \<Longrightarrow> replay_effect_events S 0 [] evs = Inr m \<longleftrightarrow> orderly S evs \<and> indexes m evs"
proof (induction evs arbitrary: m rule: rev_induct)
  case Nil
  then show ?case using indexes_unique [OF indexes_Nil] indexes_Nil by (auto simp: orderly_def phases_of_def)
next
  case (snoc e evs)
  have size: "length evs + 8 < 2 ^ 64" using snoc.prems by simp
  obtain k where k: "indexes k evs" using indexes_exists by blast
  show ?case
  proof (cases "orderly S evs")
    case True
    then have "replay_effect_events S 0 [] (evs @ [e]) = replay_effect_event S (length evs) k e"
      using snoc.IH [OF size, of k] k by (simp add: replay_effect_snoc)
    moreover have "indexes m (evs @ [e]) \<longleftrightarrow> m = bt_insert (ev_effect_id e) (ev_phase e) k"
      using indexes_snoc [OF k] indexes_unique by blast
    ultimately show ?thesis using True replay_effect_event_iff [OF k True size, of e m] by (simp add: orderly_snoc)
  next
    case False
    then show ?thesis using snoc.IH [OF size] by (auto simp: replay_effect_snoc result_iffs orderly_snoc)
  qed
qed

lemma indexes_length: "indexes m evs \<Longrightarrow> length m \<le> length evs"
proof -
  assume m: "indexes m evs"
  have "fst ` set m \<subseteq> ev_effect_id ` set evs"
  proof
    fix x assume "x \<in> fst ` set m"
    then have "phases_of evs x \<noteq> []" using m bt_get_None_iff [of m x] by (auto simp: indexes_def last_phase_def)
    then show "x \<in> ev_effect_id ` set evs" by (auto simp: phases_of_def filter_empty_conv)
  qed
  then have "card (fst ` set m) \<le> length evs"
    by (meson List.finite_set card_image_le card_length card_mono finite_imageI le_trans)
  moreover have "card (fst ` set m) = length m"
    using m bt_ordered_distinct [of m] distinct_card [of "map fst m"] by (simp add: indexes_def)
  ultimately show ?thesis by simp
qed

lemma valid_state_iff:
  assumes "unat (MAX_RECORDS (JOURNAL (SNAPSHOT S))) + 8 < 2 ^ 64"
  shows "validate_effect_state S s logical_id = Inr () \<longleftrightarrow>
    validate_effect_logical_id S logical_id = Inr () \<and> ws_version s = EFFECT_FORMAT_VERSION S \<and> ws_logical_id s = logical_id \<and>
    ws_events s \<noteq> [] \<and> length (ws_events s) \<le> unat (MAX_RECORDS (JOURNAL (SNAPSHOT S))) \<and>
    orderly S (ws_events s) \<and> indexes (ws_phases s) (ws_events s)"
proof (cases "length (ws_events s) \<le> unat (MAX_RECORDS (JOURNAL (SNAPSHOT S)))")
  case True
  then have "length (ws_events s) + 8 < 2 ^ 64" using assms by simp
  from replay_effect_events_iff [OF this] show ?thesis
    using True indexes_length [of "ws_phases s" "ws_events s"] by (auto simp: validate_effect_state_def result_iffs)
qed (auto simp: validate_effect_state_def result_iffs)

section \<open>Transitions\<close>

definition wal_ok ::
  "effect_wal_spec \<Rightarrow> 'd effect_wal_state snapshot_codec \<Rightarrow>
    (journal_identity \<Rightarrow> 'd effect_wal_state snapshot_payload journal_record list option) \<Rightarrow> 'd effect_wal \<Rightarrow>
    'd effect_wal_state store_disk \<Rightarrow> bool" where
  "wal_ok S cd retained w disk \<longleftrightarrow> store_ok (SNAPSHOT S) cd retained w disk \<and> wal_validate S w = Inr ()"

abbreviation wal_events :: "'d effect_wal \<Rightarrow> 'd effect_event list" where
  "wal_events w \<equiv> ws_events (wal_state w)"

definition new_event :: "effect_wal_spec \<Rightarrow> 'd effect_wal \<Rightarrow> string \<Rightarrow> effect_phase \<Rightarrow> 'd \<Rightarrow> 'd effect_event" where
  "new_event S w effect_id phase d = \<lparr>ev_version = EFFECT_FORMAT_VERSION S, ev_sequence = of_nat (Suc (length (wal_events w))),
     ev_effect_id = effect_id, ev_phase = phase, ev_data = d\<rparr>"

lemma wal_validate_parts:
  assumes "unat (MAX_RECORDS (JOURNAL (SNAPSHOT S))) + 8 < 2 ^ 64" and "wal_validate S w = Inr ()"
  shows "orderly S (wal_events w)" and "indexes (ws_phases (wal_state w)) (wal_events w)"
    and "length (wal_events w) + 8 < 2 ^ 64" and "ws_logical_id (wal_state w) = st_logical_id w"
    and "validate_effect_logical_id S (st_logical_id w) = Inr ()" and "ws_version (wal_state w) = EFFECT_FORMAT_VERSION S"
    and "sp_token (st_current w) = of_nat (length (wal_events w))"
  using assms by (auto simp: wal_validate_def valid_state_iff result_iffs)

lemma next_wal_state_iff:
  assumes size: "unat (MAX_RECORDS (JOURNAL (SNAPSHOT S))) + 8 < 2 ^ 64" and w: "wal_validate S w = Inr ()"
  shows "next_wal_state S w effect_id phase data = Inr (sequence, s) \<longleftrightarrow>
    validate_effect_id S effect_id = Inr () \<and> prefix (phases_of (wal_events w) effect_id @ [phase]) phase_order \<and>
    length (wal_events w) < unat (MAX_RECORDS (JOURNAL (SNAPSHOT S))) \<and> sequence = of_nat (Suc (length (wal_events w))) \<and>
    (\<exists>d. data = Some d \<and> s = (wal_state w)\<lparr>ws_events := wal_events w @ [new_event S w effect_id phase d],
      ws_phases := bt_insert effect_id phase (ws_phases (wal_state w))\<rparr>)" (is "?L \<longleftrightarrow> ?R")
proof -
  note V = wal_validate_parts [OF size w]
  have seq: "checked_add (of_nat (length (wal_events w)) :: u64) 1 = Some (of_nat (Suc (length (wal_events w))))"
    using V(3) by (simp add: next_sequence)
  have un: "unat (of_nat (Suc (length (wal_events w))) :: u64) = Suc (length (wal_events w))"
    using V(3) by (simp only: unat_of_nat_u64)
  have fol: "follows phase (wal_phase w effect_id) \<longleftrightarrow> prefix (phases_of (wal_events w) effect_id @ [phase]) phase_order"
    using V(1,2) by (simp add: wal_phase_def indexes_def orderly_def follows_extends)
  define N where "N d = (wal_state w)\<lparr>ws_events := wal_events w @ [new_event S w effect_id phase d],
      ws_phases := bt_insert effect_id phase (ws_phases (wal_state w))\<rparr>" for d
  have eq: "next_wal_state S w effect_id phase data =
      and_then (validate_effect_id S effect_id) (\<lambda>_.
      and_then (ensure (prefix (phases_of (wal_events w) effect_id @ [phase]) phase_order) SkipsPhase) (\<lambda>_.
      and_then (ensure (Suc (length (wal_events w)) \<le> unat (MAX_RECORDS (JOURNAL (SNAPSHOT S)))) EventCountExceeded) (\<lambda>_.
      and_then (ok_or data PayloadUnencodable) (\<lambda>d.
      and_then (validate_effect_state S (N d) (st_logical_id w)) (\<lambda>_. Inr (of_nat (Suc (length (wal_events w))), N d))))))"
    by (simp only: next_wal_state_def next_event_sequence_def seq ok_or_simps and_then_simps un fol V(4) N_def new_event_def Let_def)
  have val: "validate_effect_state S (N d) (st_logical_id w) = Inr ()"
    if "validate_effect_id S effect_id = Inr ()" "prefix (phases_of (wal_events w) effect_id @ [phase]) phase_order"
      "length (wal_events w) < unat (MAX_RECORDS (JOURNAL (SNAPSHOT S)))" for d
    using that V indexes_snoc [OF V(2), of "new_event S w effect_id phase d"]
    by (simp add: valid_state_iff [OF size] orderly_snoc event_at_def new_event_def N_def del: of_nat_Suc)
  show ?thesis
    unfolding eq N_def [symmetric] by (auto simp: result_iffs val Suc_le_eq simp del: of_nat_Suc)
qed

lemma next_wal_state_valid:
  "next_wal_state S w effect_id phase data = Inr (sequence, s) \<Longrightarrow> validate_effect_state S s (ws_logical_id (wal_state w)) = Inr ()"
  by (auto simp: next_wal_state_def Let_def result_iffs)

lemma open_store_logical_id: "open_store S cd retained logical_id io disk = (Inr st, disk') \<Longrightarrow> st_logical_id st = logical_id"
  by (auto simp: open_store_def from_journal_def Let_def result_iffs split: sum.splits prod.splits if_splits)

lemma codec_ok_records: "snapshot_codec_ok S cd \<Longrightarrow> unat (MAX_RECORDS (JOURNAL S)) + 8 < 2 ^ 64"
  by (simp add: snapshot_codec_ok_def codec_ok_def)

lemma next_snapshot_fields: "next_snapshot S st t v = Inr n \<Longrightarrow> sp_value n = v \<and> sp_token n = t"
  by (auto simp: next_snapshot_def result_iffs)

lemma reopened_valid:
  assumes ok: "snapshot_codec_ok (SNAPSHOT S) cd" and w: "wal_ok S cd retained w disk"
    and st: "store_ok (SNAPSHOT S) cd retained w2 disk2" "st_logical_id w2 = st_logical_id w"
    and cur: "st_current w2 = st_current w \<or> (\<exists>sequence s. next_wal_state S w effect_id phase data = Inr (sequence, s) \<and>
      next_snapshot (SNAPSHOT S) w sequence s = Inr (st_current w2))"
  shows "wal_ok S cd retained w2 disk2"
  using cur
proof (elim disjE exE conjE)
  assume "st_current w2 = st_current w"
  then show ?thesis using w st by (simp add: wal_ok_def wal_validate_def wal_state_def)
next
  fix sequence s
  assume s: "next_wal_state S w effect_id phase data = Inr (sequence, s)"
    and n: "next_snapshot (SNAPSHOT S) w sequence s = Inr (st_current w2)"
  have size: "unat (MAX_RECORDS (JOURNAL (SNAPSHOT S))) + 8 < 2 ^ 64" using codec_ok_records [OF ok] .
  have v: "wal_validate S w = Inr ()" using w by (simp add: wal_ok_def)
  have c: "sp_value (st_current w2) = s" "sp_token (st_current w2) = sequence"
    using next_snapshot_fields [OF n] by simp_all
  have "sequence = of_nat (length (ws_events s))"
    using s by (auto simp: next_wal_state_iff [OF size v])
  then show ?thesis
    using st c next_wal_state_valid [OF s] wal_validate_parts(4) [OF size v]
    by (simp add: wal_ok_def wal_validate_def wal_state_def)
qed

lemma store_reopens:
  assumes ok: "snapshot_codec_ok S cd" and st: "store_ok S cd retained st disk"
  shows "\<exists>st2 disk2. open_store S cd retained (st_logical_id st) clean_open disk = (Inr st2, disk2) \<and>
    store_ok S cd retained st2 disk2 \<and> st_current st2 = st_current st"
proof -
  have "commit_snapshot S cd st 0 v done_commit_io disk = (Inl TokenNotIncreasing, st, disk)" for v
    by (simp add: commit_snapshot_def next_snapshot_def ensure_def)
  from commit_recovers [OF ok st this] show ?thesis
    by (auto simp: next_snapshot_def ensure_def done_commit_io_def done_io_def)
qed

lemma transition_recovers:
  assumes ok: "snapshot_codec_ok (SNAPSHOT S) cd" and w: "wal_ok S cd retained w disk"
    and step: "transition S cd w effect_id phase data io disk = (res, w', disk')"
    and linked: "ap_publish (cm_append io) \<noteq> Publish_Linked"
  shows "\<exists>w2 disk2. open_wal S cd retained (st_logical_id w) clean_open disk' = (Inr w2, disk2) \<and>
    wal_ok S cd retained w2 disk2 \<and>
    (wal_events w2 = wal_events w \<and> res \<noteq> Inr () \<or>
     (\<exists>d. data = Some d \<and> wal_events w2 = wal_events w @ [new_event S w effect_id phase d]))"
proof -
  have size: "unat (MAX_RECORDS (JOURNAL (SNAPSHOT S))) + 8 < 2 ^ 64" using codec_ok_records [OF ok] .
  have st: "store_ok (SNAPSHOT S) cd retained w disk" and v: "wal_validate S w = Inr ()" using w by (simp_all add: wal_ok_def)
  have lid: "validate_effect_logical_id S (st_logical_id w) = Inr ()" using wal_validate_parts(5) [OF size v] .
  have opened: "open_wal S cd retained (st_logical_id w) clean_open disk' = (Inr w2, disk2)"
    if "open_store (SNAPSHOT S) cd retained (st_logical_id w) clean_open disk' = (Inr w2, disk2)" "wal_ok S cd retained w2 disk2"
    for w2 disk2
    using that lid by (simp add: open_wal_def wal_ok_def)
  show ?thesis
  proof (cases "next_wal_state S w effect_id phase data")
    case (Inl e)
    with step have d: "disk' = disk" and res: "res = Inl e" by (auto simp: transition_def)
    obtain w2 disk2 where o2: "open_store (SNAPSHOT S) cd retained (st_logical_id w) clean_open disk = (Inr w2, disk2)"
      and s2: "store_ok (SNAPSHOT S) cd retained w2 disk2" and c2: "st_current w2 = st_current w"
      using store_reopens [OF ok st] by blast
    have "wal_ok S cd retained w2 disk2" using reopened_valid [OF ok w s2 open_store_logical_id [OF o2]] c2 by blast
    with opened [unfolded d, OF o2] c2 res d show ?thesis by (auto simp: wal_state_def)
  next
    case (Inr x)
    obtain sequence s where x: "next_wal_state S w effect_id phase data = Inr (sequence, s)" using Inr by (cases x) auto
    obtain cres where com: "commit_snapshot (SNAPSHOT S) cd w sequence s io disk = (cres, w', disk')"
      and res: "\<And>e. cres = Inl e \<Longrightarrow> res = Inl (StoreFailed e)"
      using step x by (auto simp: transition_def split: prod.splits sum.splits)
    from commit_recovers [OF ok st com linked] obtain w2 disk2 where
      o2: "open_store (SNAPSHOT S) cd retained (st_logical_id w) clean_open disk' = (Inr w2, disk2)"
      and s2: "store_ok (SNAPSHOT S) cd retained w2 disk2"
      and c2: "st_current w2 = st_current w \<or> next_snapshot (SNAPSHOT S) w sequence s = Inr (st_current w2)"
      and r2: "\<And>n. cres = Inr n \<Longrightarrow> next_snapshot (SNAPSHOT S) w sequence s = Inr n \<and> st_current w2 = n" by blast
    have wok: "wal_ok S cd retained w2 disk2"
      using reopened_valid [OF ok w s2 open_store_logical_id [OF o2]] c2 x by blast
    have ev: "\<exists>d. data = Some d \<and> wal_events w2 = wal_events w @ [new_event S w effect_id phase d]"
      if "next_snapshot (SNAPSHOT S) w sequence s = Inr (st_current w2)"
    proof -
      have "wal_state w2 = s" using next_snapshot_fields [OF that] by (simp add: wal_state_def)
      then show ?thesis using x by (auto simp: next_wal_state_iff [OF size v])
    qed
    have "wal_events w2 = wal_events w \<and> res \<noteq> Inr () \<or>
        (\<exists>d. data = Some d \<and> wal_events w2 = wal_events w @ [new_event S w effect_id phase d])"
      using c2 r2 res ev by (cases cres) (auto simp: wal_state_def)
    with opened [OF o2 wok] wok show ?thesis by blast
  qed
qed

text \<open>A history of processes: each opens the log, attempts one transition that may be interrupted, and is followed by
  the next.\<close>

inductive wal_history ::
  "effect_wal_spec \<Rightarrow> 'd effect_wal_state snapshot_codec \<Rightarrow>
    (journal_identity \<Rightarrow> 'd effect_wal_state snapshot_payload journal_record list option) \<Rightarrow> 'd effect_wal \<Rightarrow>
    'd effect_wal_state store_disk \<Rightarrow> 'd effect_wal \<Rightarrow> 'd effect_wal_state store_disk \<Rightarrow> bool" for S cd retained where
  unchanged: "wal_history S cd retained w disk w disk"
| attempt: "wal_history S cd retained w disk w1 disk1 \<Longrightarrow>
    transition S cd w1 effect_id phase data io disk1 = (res, w2, disk2) \<Longrightarrow> ap_publish (cm_append io) \<noteq> Publish_Linked \<Longrightarrow>
    open_wal S cd retained (st_logical_id w1) clean_open disk2 = (Inr w3, disk3) \<Longrightarrow>
    wal_history S cd retained w disk w3 disk3"

lemma history_extends:
  assumes "wal_history S cd retained w disk w' disk'" and "snapshot_codec_ok (SNAPSHOT S) cd" and "wal_ok S cd retained w disk"
  shows "wal_ok S cd retained w' disk' \<and> prefix (wal_events w) (wal_events w')"
  using assms
proof (induction rule: wal_history.induct)
  case (attempt w disk w1 disk1 effect_id phase data io res w2 disk2 w3 disk3)
  then have w1: "wal_ok S cd retained w1 disk1" "prefix (wal_events w) (wal_events w1)" by simp_all
  from transition_recovers [OF attempt.prems(1) w1(1) attempt.hyps(2,3)] attempt.hyps(4)
  have "wal_ok S cd retained w3 disk3 \<and> prefix (wal_events w1) (wal_events w3)" by auto
  with w1(2) show ?case using prefix_order.trans by blast
qed simp

lemma orderly_distinct: "orderly S evs \<Longrightarrow> distinct (phases_of evs x)"
proof -
  assume "orderly S evs"
  then have "prefix (phases_of evs x) phase_order" by (simp add: orderly_def)
  then obtain zs where "phase_order = phases_of evs x @ zs" by (auto simp: prefix_def)
  moreover have "distinct phase_order" by (simp add: phase_order_def)
  ultimately show ?thesis by (metis distinct_append)
qed

section \<open>A sample log\<close>

abbreviation sample_tag :: string where
  "sample_tag \<equiv> replicate 64 (CHR ''1'')"

definition sample_wal_identity :: journal_identity where
  "sample_wal_identity = sample_identity\<lparr>ji_version := 1\<rparr>"

definition sample_wal_codec :: "nat effect_wal_state snapshot_codec" where
  "sample_wal_codec =
     \<lparr>sc_journal = \<lparr>cd_sign = (\<lambda>m. Some sample_tag), cd_record_len = (\<lambda>_. 100), cd_head_len = (\<lambda>_. 50)\<rparr>,
      sc_sign_locator = (\<lambda>_. Some sample_tag), sc_locator_len = (\<lambda>_. 200), sc_bound = (\<lambda>_. True)\<rparr>"

definition sample_wal_state :: "nat effect_wal_state" where
  "sample_wal_state = initial_wal_state DefaultEffectWalSpec ''push'' ''e1'' 7"

definition sample_wal :: "nat effect_wal" where
  "sample_wal =
     \<lparr>st_journal = \<lparr>jn_identity = sample_wal_identity, jn_records = [\<lparr>jr_version = 1, jr_identity = sample_wal_identity,
        jr_sequence = 1, jr_previous_mac = zero_tag, jr_phase = ''snapshot'', jr_subject = None,
        jr_payload = Some \<lparr>sp_version = 1, sp_generation = 1, sp_token = 1, sp_value = sample_wal_state\<rparr>, jr_mac = sample_tag\<rparr>],
        jn_record_bytes = 100, jn_head_dirty = False\<rparr>,
      st_logical_id = ''push'',
      st_locator = (initial_locator (SNAPSHOT DefaultEffectWalSpec) ''push'' sample_wal_identity 1 sample_tag)\<lparr>lc_mac := sample_tag\<rparr>,
      st_current = \<lparr>sp_version = 1, sp_generation = 1, sp_token = 1, sp_value = sample_wal_state\<rparr>\<rparr>"

definition sample_wal_disk :: "nat effect_wal_state store_disk" where
  "sample_wal_disk =
     \<lparr>sd_run = \<lparr>rd_identity = \<lparr>fi_device = 1, fi_file = 4\<rparr>,
        rd_records = [(1, \<lparr>rf_bytes = 100, rf_record = Some (hd (jn_records (st_journal sample_wal)))\<rparr>)],
        rd_record_temps = [], rd_head_temps = 0,
        rd_head = Some \<lparr>hf_bytes = 50, hf_head = Some \<lparr>jh_version = 1, jh_identity = sample_wal_identity, jh_sequence = 1,
          jh_last_record_mac = sample_tag, jh_record_bytes = 100, jh_mac = sample_tag\<rparr>\<rparr>\<rparr>,
      sd_locator = Some (st_locator sample_wal)\<rparr>"

lemma wal_limits:
  "FORMAT_VERSION (JOURNAL (SNAPSHOT DefaultEffectWalSpec)) = 1" "MAX_RECORDS (JOURNAL (SNAPSHOT DefaultEffectWalSpec)) = 4096"
  "MAX_RECORD_BYTES (JOURNAL (SNAPSHOT DefaultEffectWalSpec)) = 4194304"
  "MAX_TOTAL_BYTES (JOURNAL (SNAPSHOT DefaultEffectWalSpec)) = 67108864"
  "MAX_SUBJECT_BYTES (JOURNAL (SNAPSHOT DefaultEffectWalSpec)) = 256"
  "SNAPSHOT_FORMAT_VERSION (SNAPSHOT DefaultEffectWalSpec) = 1" "SNAPSHOT_PHASE (SNAPSHOT DefaultEffectWalSpec) = ''snapshot''"
  "EFFECT_FORMAT_VERSION DefaultEffectWalSpec = 1"
  by (simp_all add: DefaultEffectWalSpec_def)

lemma sample_wal_valid:
  "validate_phase (JOURNAL (SNAPSHOT DefaultEffectWalSpec)) ''snapshot'' = Inr ()"
  "validate_spec (JOURNAL (SNAPSHOT DefaultEffectWalSpec)) = Inr ()"
  "validate_identity (JOURNAL (SNAPSHOT DefaultEffectWalSpec)) sample_wal_identity = Inr ()"
  "validate_logical_id (SNAPSHOT DefaultEffectWalSpec) ''push'' = Inr ()"
  "validate_effect_logical_id DefaultEffectWalSpec ''push'' = Inr ()"
  "validate_effect_id DefaultEffectWalSpec ''e1'' = Inr ()"
  by code_simp+

lemma sample_wal_codec_ok: "snapshot_codec_ok (SNAPSHOT DefaultEffectWalSpec) sample_wal_codec"
  by (simp add: snapshot_codec_ok_def sample_wal_codec_def codec_ok_def sample_hex wal_limits sample_wal_valid)

lemma sample_wal_store_ok: "store_ok (SNAPSHOT DefaultEffectWalSpec) sample_wal_codec retained sample_wal sample_wal_disk"
proof -
  have v: "validate_optional_subject s None = Inr ()" for s by (simp add: validate_optional_subject_def)
  have i: "ji_run_directory_identity sample_wal_identity = \<lparr>fi_device = 1, fi_file = 4\<rparr>"
    by (simp add: sample_wal_identity_def sample_identity_def)
  have "in_order (JOURNAL (SNAPSHOT DefaultEffectWalSpec)) (sc_journal sample_wal_codec) (st_journal sample_wal) (sd_run sample_wal_disk)"
    by (simp add: in_order_def holds_chain_def head_of_def sample_wal_def sample_wal_disk_def wal_limits last_mac_def
        validate_record_def sample_wal_valid v i verify_tag_def sample_hex sample_wal_codec_def record_mac_payload_def
        head_mac_payload_def)
  moreover have "locator_for (SNAPSHOT DefaultEffectWalSpec) sample_wal_codec ''push'' (jn_records (st_journal sample_wal))
      (st_current sample_wal) (st_locator sample_wal)"
    by (simp add: locator_for_def bounded_locator_def sample_wal_valid decode_locator_Inr validate_locator_def sample_wal_def sample_hex
        initial_locator_def sample_wal_codec_def active_records_def checked_sub_def checked_add_code validate_prior_anchor_def
        wal_limits last_mac_def)
  moreover have "journal_current (SNAPSHOT DefaultEffectWalSpec) (st_journal sample_wal) (st_locator sample_wal) = Inr (st_current sample_wal)"
    by (simp add: journal_current_def record_snapshot_def sample_wal_def initial_locator_def wal_limits checked_add_code saturating_sub_def)
  ultimately show ?thesis
    by (simp add: store_ok_def sample_wal_valid sample_wal_def sample_wal_disk_def initial_locator_def)
qed

lemma sample_wal_ok: "wal_ok DefaultEffectWalSpec sample_wal_codec retained sample_wal sample_wal_disk"
proof -
  have "wal_validate DefaultEffectWalSpec sample_wal = Inr ()"
    by (simp add: wal_validate_def validate_effect_state_def replay_effect_event_def wal_state_def sample_wal_def sample_wal_state_def
        initial_wal_state_def sample_wal_valid wal_limits checked_add_code bt_get_def)
  with sample_wal_store_ok show ?thesis by (simp add: wal_ok_def)
qed

lemma sample_wal_events: "wal_events sample_wal = [\<lparr>ev_version = 1, ev_sequence = 1, ev_effect_id = ''e1'', ev_phase = Planned, ev_data = 7\<rparr>]"
  by (simp add: wal_state_def sample_wal_def sample_wal_state_def initial_wal_state_def wal_limits)

section \<open>Properties\<close>

text \<open>C38. Validation accepts exactly the orderly logs: the state has the version and the logical id of its store and
  between one and the maximal number of events; the events carry the format version, a bounded effect id and the
  sequence numbers from one; the phases of every effect are an initial part of planned, started, observed, completed;
  and the phase index is the ordered map of the last phases.\<close>

theorem valid_logs_exact:
  assumes "unat (MAX_RECORDS (JOURNAL (SNAPSHOT S))) + 8 < 2 ^ 64"
  shows "validate_effect_state S s logical_id = Inr () \<longleftrightarrow>
    validate_effect_logical_id S logical_id = Inr () \<and> ws_version s = EFFECT_FORMAT_VERSION S \<and> ws_logical_id s = logical_id \<and>
    ws_events s \<noteq> [] \<and> length (ws_events s) \<le> unat (MAX_RECORDS (JOURNAL (SNAPSHOT S))) \<and>
    (\<forall>i < length (ws_events s). validate_effect_id S (ev_effect_id (ws_events s ! i)) = Inr () \<and>
      ev_version (ws_events s ! i) = EFFECT_FORMAT_VERSION S \<and> ev_sequence (ws_events s ! i) = of_nat (Suc i)) \<and>
    (\<forall>x. prefix (phases_of (ws_events s) x) [Planned, Started, Observed, Completed]) \<and>
    bt_ordered (ws_phases s) \<and> (\<forall>x. bt_get (ws_phases s) x = last_phase (phases_of (ws_events s) x))"
  unfolding valid_state_iff [OF assms] orderly_def indexes_def event_at_def phase_order_def by blast

theorem valid_logs_exact_witness:
  "validate_effect_state DefaultEffectWalSpec sample_wal_state ''push'' = Inr () \<and>
   prefix (phases_of (ws_events sample_wal_state) ''e1'') [Planned, Started, Observed, Completed] \<and>
   bt_get (ws_phases sample_wal_state) ''e1'' = Some Planned"
proof -
  have "unat (MAX_RECORDS (JOURNAL (SNAPSHOT DefaultEffectWalSpec))) + 8 < 2 ^ 64" by (simp add: wal_limits)
  moreover have "validate_effect_state DefaultEffectWalSpec sample_wal_state ''push'' = Inr ()"
    by (simp add: validate_effect_state_def replay_effect_event_def sample_wal_state_def initial_wal_state_def sample_wal_valid
        wal_limits checked_add_code bt_get_def)
  ultimately show ?thesis
    using valid_logs_exact [of DefaultEffectWalSpec sample_wal_state "''push''"]
    by (simp add: sample_wal_state_def initial_wal_state_def bt_get_def)
qed

text \<open>A transition is admitted exactly when it continues the effect's history: on a valid log, the next state is
  computed if and only if the effect id is bounded, the phase continues the effect's phases in their order, and the log
  has room for an event; the checks on the whole next state never refuse such a transition.\<close>

theorem transition_admitted_iff:
  assumes "unat (MAX_RECORDS (JOURNAL (SNAPSHOT S))) + 8 < 2 ^ 64" and "wal_validate S w = Inr ()"
  shows "(\<exists>n. next_wal_state S w effect_id phase (Some d) = Inr n) \<longleftrightarrow>
    validate_effect_id S effect_id = Inr () \<and>
    prefix (phases_of (ws_events (wal_state w)) effect_id @ [phase]) [Planned, Started, Observed, Completed] \<and>
    length (ws_events (wal_state w)) < unat (MAX_RECORDS (JOURNAL (SNAPSHOT S)))"
  using next_wal_state_iff [OF assms, of effect_id phase "Some d"] unfolding phase_order_def by auto

theorem transition_admitted_iff_witness:
  "(\<exists>n. next_wal_state DefaultEffectWalSpec sample_wal ''e1'' Started (Some 8) = Inr n) \<and>
   \<not> (\<exists>n. next_wal_state DefaultEffectWalSpec sample_wal ''e1'' Completed (Some 8) = Inr n)"
proof -
  have size: "unat (MAX_RECORDS (JOURNAL (SNAPSHOT DefaultEffectWalSpec))) + 8 < 2 ^ 64" by (simp add: wal_limits)
  have v: "wal_validate DefaultEffectWalSpec sample_wal = Inr ()" using sample_wal_ok by (simp add: wal_ok_def)
  show ?thesis
    unfolding transition_admitted_iff [OF size v]
    by (simp add: sample_wal_events phases_of_def sample_wal_valid wal_limits)
qed





end
