(* ===== verification/Spec2Isabelle.thy ===== *)
theory Spec2Isabelle
  imports Claim_Coordinator Lease Swarm_Health Loop_Guard Role_Authority Graph_Bound Decision_Registry Effect_WAL
begin

text \<open>
  A verification of the coordination core of the multi-agent coding orchestrator: who may write which path, who holds
  which work, who has which authority, which work is still allowed to run, and what of it survives a crash.

  \<^bold>\<open>How the parts interact.\<close> A supervisor hands assignments to agents. Path claims keep their writes apart; leases give
  one worker at a time a follow-up item; durable graphs order the items of a follow-up; the loop guard and the circuit
  breaker stop work that does not converge; model policy and role authority decide which model may take which role and
  when a role changes, and the hierarchy ledger records it; the decision registry keeps assignments from deciding one
  question twice. Effects outside the repository go through a write-ahead log, which is a snapshot store, which is an
  authenticated journal of files.

  \<^bold>\<open>Conventions.\<close> Fallible code returns a sum whose left side is the error, one constructor per kind of failure; the
  texts of messages are not modelled. Machine integers are words with checked, saturating or wrapping arithmetic as in
  the code. A BTreeMap is a key-ordered list of entries, a string is its list of bytes. Time, randomness, hashes,
  encoders and the outcome of every file operation are arguments, with what is needed of them as named hypotheses
  (for the journal \<^verbatim>\<open>codec_ok\<close>, for the store \<^verbatim>\<open>snapshot_codec_ok\<close>: signing works and gives canonical
  tags, and heads and locators with valid, hence bounded, contents fit the size bound).

  \<^bold>\<open>Shared theories.\<close> \<^verbatim>\<open>Prelude\<close> holds results, fixed-width arithmetic, strings and the replay of event
  journals with the locales \<^verbatim>\<open>reducer\<close> and \<^verbatim>\<open>ranked_reducer\<close>; \<^verbatim>\<open>Ordered\<close> holds ordered maps
  and sets with the locale \<^verbatim>\<open>ordered_map\<close>.

  \<^bold>\<open>Path claims\<close> (\<^verbatim>\<open>src/src/sync.rs\<close>). \<^verbatim>\<open>Path_Claims\<close> translates the coordinator;
  \<^verbatim>\<open>Claim_Safety\<close>, \<^verbatim>\<open>Claim_Restore\<close> and \<^verbatim>\<open>Claim_Coordinator\<close> show that
  writers are exclusive, what claiming and releasing do, and when a saved state can be restored (C1 to C8).

  \<^bold>\<open>Leases\<close> (\<^verbatim>\<open>src/src/follow_up_queue/lease.rs\<close>, theory \<^verbatim>\<open>Lease\<close>): fencing by started effects and one
  holder per generation (C9 to C12).

  \<^bold>\<open>Circuit breaker and loop guard\<close> (\<^verbatim>\<open>src/src/swarm_health.rs\<close>, \<^verbatim>\<open>src/src/loop_guard.rs\<close>, theories
  \<^verbatim>\<open>Swarm_Health\<close> and \<^verbatim>\<open>Loop_Guard\<close>): the breaker's invariant and cooldown, and when a review loop may
  succeed and that it ends (C13 to C17).

  \<^bold>\<open>Hierarchy, models and roles\<close> (\<^verbatim>\<open>src/src/hierarchy_ledger.rs\<close>, \<^verbatim>\<open>src/src/supervise/model_policy.rs\<close>,
  \<^verbatim>\<open>role_authority.rs\<close> and \<^verbatim>\<open>role_transition.rs\<close>, theories \<^verbatim>\<open>Hierarchy_Ledger\<close>,
  \<^verbatim>\<open>Model_Policy\<close> and \<^verbatim>\<open>Role_Authority\<close>): authority is gained only by judged transitions, exactly under
  the stated conditions (C18 to C25).

  \<^bold>\<open>Durable graphs\<close> (\<^verbatim>\<open>src/src/follow_up_queue/graph.rs\<close>, theories \<^verbatim>\<open>Durable_Graph\<close>,
  \<^verbatim>\<open>Graph_Runtime\<close> and \<^verbatim>\<open>Graph_Bound\<close>): the checks of a definition are exact, histories are immutable, and
  a journal stays within its computed bound (C26 to C30).

  \<^bold>\<open>Decisions\<close> (\<^verbatim>\<open>src/src/decision_claim.rs\<close>, theory \<^verbatim>\<open>Decision_Registry\<close>): contradictions are reported
  exactly, snapshots restore, and an open question is settled only by its owner (C31 to C33).

  \<^bold>\<open>Journal\<close> (\<^verbatim>\<open>src/src/state_journal.rs\<close>; \<^verbatim>\<open>State_Journal\<close> has the definitions,
  \<^verbatim>\<open>Journal_Recovery\<close> the lemmas). A run directory is a value, and a write stops at any of its durable steps. An
  interrupted append is recovered, except in one window in which the journal stays closed; the last tag stands for
  the whole history (C34 to C36).

  \<^bold>\<open>Snapshots and effects\<close> (\<^verbatim>\<open>src/src/authenticated_snapshot.rs\<close>, \<^verbatim>\<open>src/src/effect_wal.rs\<close>, theories
  \<^verbatim>\<open>Snapshot_Store\<close> and \<^verbatim>\<open>Effect_WAL\<close>): committing again after a failed head closes the store; valid
  logs are characterised; an interrupted transition is atomic; no effect is started twice (C37 to C40).

  \<^bold>\<open>Bounds.\<close> No definition uses fuel: every recursion is structural or has a termination proof. The bounds that
  appear in hypotheses are the constants of the code (4096 records and events, 64-bit sequence numbers).

  \<^bold>\<open>Not modelled.\<close> Of the snapshot store: rollover and its recovery, initialization intents, the inventory and the
  scavenging of the root; stores with a pending intent are outside the theorems. Of the journal: locks, directory
  handles, names of temporary files and the non-Unix variants. Recovery theorems are about one interruption between two
  openings. Of the program: everything that runs processes, git or network protocols (agents, runtimes, worktrees,
  merge, publication, messaging, the account manager); the optimizer, which computes in floating point; the
  storage and migration of files; the command line; the budget ledgers and the follow-up queue around its leases and
  graphs, which have pure parts that this development does not cover. Most of the repository is in these parts.
\<close>

end
